(* ===== verification/Prelude.thy ===== *)
theory Prelude
  imports Main "HOL-Library.AList" "HOL-Library.Word"
begin

text \<open>
  Shared vocabulary of the development: the clock, the association lists that stand for the
  program's small ordered maps, sums of sizes over queues, and the lemmas about them that the
  component theories use.

  A \<open>time\<close> is the tick count of a \<^verbatim>\<open>std::chrono\<close> clock in nanoseconds, so
  \<open>seconds n\<close> is \<^verbatim>\<open>std::chrono::seconds(n)\<close> and \<open>millis n\<close> is
  \<^verbatim>\<open>std::chrono::milliseconds(n)\<close>.
\<close>

type_synonym byte = "8 word"

type_synonym time = int

abbreviation seconds :: "int \<Rightarrow> time" where
  "seconds n \<equiv> n * 1000000000"

abbreviation millis :: "int \<Rightarrow> time" where
  "millis n \<equiv> n * 1000000"

text \<open>The result of a call that may throw.\<close>

datatype 'a outcome = Throws | Returns 'a

named_theorems alist_simps \<open>lookup laws of association lists\<close>
named_theorems inv_intros \<open>preservation of a component invariant by its operations\<close>

text \<open>An association list whose keys are distinct is a finite map.\<close>

definition keys :: "('k \<times> 'v) list \<Rightarrow> 'k list" where
  "keys m = map fst m"

definition wf_alist :: "('k \<times> 'v) list \<Rightarrow> bool" where
  "wf_alist m \<longleftrightarrow> distinct (keys m)"

definition restrict_keys :: "'k set \<Rightarrow> ('k \<times> 'v) list \<Rightarrow> ('k \<times> 'v) list" where
  "restrict_keys K m = filter (\<lambda>p. fst p \<in> K) m"

lemma set_keys: "set (keys m) = dom (map_of m)"
  by (simp add: keys_def dom_map_of_conv_image_fst)

lemma length_keys [simp]: "length (keys m) = length m"
  by (simp add: keys_def)

lemma wf_alist_Nil [simp]: "wf_alist []"
  by (simp add: wf_alist_def keys_def)

lemma wf_alist_update [simp]: "wf_alist m \<Longrightarrow> wf_alist (AList.update k v m)"
  by (simp add: wf_alist_def keys_def distinct_update)

lemma wf_alist_delete [simp]: "wf_alist m \<Longrightarrow> wf_alist (AList.delete k m)"
  by (simp add: wf_alist_def keys_def distinct_delete)

lemma wf_alist_restrict [simp]: "wf_alist m \<Longrightarrow> wf_alist (restrict_keys K m)"
  by (simp add: wf_alist_def keys_def restrict_keys_def distinct_map_filter)

lemma map_of_restrict_keys [alist_simps]:
  "map_of (restrict_keys K m) k = (if k \<in> K then map_of m k else None)"
  by (induction m) (auto simp: restrict_keys_def)

lemma set_keys_restrict [alist_simps]: "set (keys (restrict_keys K m)) = set (keys m) \<inter> K"
  by (auto simp: keys_def restrict_keys_def)

lemma set_keys_update [alist_simps]: "set (keys (AList.update k v m)) = insert k (set (keys m))"
  by (auto simp: keys_def AList.dom_update)

lemma map_of_update [alist_simps]:
  "map_of (AList.update k v m) k' = (if k' = k then Some v else map_of m k')"
  by (simp add: update_conv')

lemma map_of_delete [alist_simps]:
  "map_of (AList.delete k m) k' = (if k' = k then None else map_of m k')"
  by (simp add: delete_conv')

lemma wf_alist_length: "wf_alist m \<Longrightarrow> length m = card (set (keys m))"
  using distinct_card [of "keys m"] by (simp add: wf_alist_def)

lemma alist_length_le:
  assumes "wf_alist m" and "set (keys m) \<subseteq> set xs"
  shows "length m \<le> length xs"
proof -
  have "length m = card (set (keys m))"
    using assms(1) by (rule wf_alist_length)
  also have "\<dots> \<le> card (set xs)"
    using assms(2) by (simp add: card_mono)
  also have "\<dots> \<le> length xs"
    by (rule card_length)
  finally show ?thesis .
qed

lemma alist_all_iff:
  "wf_alist m \<Longrightarrow> (\<forall>v \<in> snd ` set m. P v) \<longleftrightarrow> (\<forall>k v. map_of m k = Some v \<longrightarrow> P v)"
  by (force simp: wf_alist_def keys_def dest: map_of_SomeD)

text \<open>Totals over an indexed family, one member of which changes.\<close>

lemma sum_upd_one:
  fixes f :: "nat \<Rightarrow> nat"
  assumes "i < n" and "\<And>j. j < n \<Longrightarrow> j \<noteq> i \<Longrightarrow> g j = f j"
  shows "sum g {..<n} + f i = sum f {..<n} + g i"
proof -
  have "sum g ({..<n} - {i}) = sum f ({..<n} - {i})"
    using assms(2) by (intro sum.cong) auto
  then show ?thesis
    using assms(1) by (simp add: sum.remove [of "{..<n}" i])
qed

lemma word_of_nat_sum_upd:
  fixes f :: "nat \<Rightarrow> nat"
  assumes "i < n" and "\<And>j. j < n \<Longrightarrow> j \<noteq> i \<Longrightarrow> g j = f j"
  shows "(word_of_nat (sum g {..<n}) :: 'a::len word)
    = word_of_nat (sum f {..<n}) + word_of_nat (g i) - word_of_nat (f i)"
proof -
  have "(word_of_nat (sum g {..<n} + f i) :: 'a word) = word_of_nat (sum f {..<n} + g i)"
    using sum_upd_one [of i n g f] assms by simp
  then show ?thesis
    by (simp add: algebra_simps)
qed

lemma length_filter_keys:
  assumes "distinct (map f xs)"
  shows "length (filter (\<lambda>x. f x \<in> S) xs) = card (f ` set xs \<inter> S)"
proof -
  have "length (filter (\<lambda>x. f x \<in> S) xs) = length (map f (filter (\<lambda>x. f x \<in> S) xs))"
    by simp
  also have "\<dots> = card (set (map f (filter (\<lambda>x. f x \<in> S) xs)))"
    by (rule distinct_card [symmetric]) (simp add: assms distinct_map_filter)
  also have "set (map f (filter (\<lambda>x. f x \<in> S) xs)) = f ` set xs \<inter> S"
    by auto
  finally show ?thesis .
qed

text \<open>\<^verbatim>\<open>std::getline\<close> with a comma.\<close>

fun split_comma :: "string \<Rightarrow> string list" where
  "split_comma [] = []"
| "split_comma (c # cs) =
     (if c = CHR '','' then [] # split_comma cs
      else case split_comma cs of
        [] \<Rightarrow> [[c]]
      | w # ws \<Rightarrow> (c # w) # ws)"

end
