(* ===== verification/Sql_Connection.thy ===== *)
theory Sql_Connection
  imports Prelude
begin

text \<open>
  A connection to the database as the access layer sees it, and the exception monad in which its
  methods run. A connection holds what is durable and what its own transaction sees; every call on
  it can fail, and a failing call may or may not have been executed by the server before the
  connection broke, which the list \<open>faults\<close> decides call by call. Statements are functions on
  the tables; \<^const>\<open>None\<close> is an error that the server raises for the statement itself.

  \<^verbatim>\<open>ResetMysqlTransaction\<close> of \<^verbatim>\<open>common/MysqlConnectionPool.h\<close> is what
  the pool runs on a connection that is given back.
\<close>

type_synonym ('s, 'a) io = "'s \<Rightarrow> 'a outcome \<times> 's"

definition io_return :: "'a \<Rightarrow> ('s, 'a) io" where
  "io_return a = (\<lambda>s. (Returns a, s))"

definition io_throw :: "('s, 'a) io" where
  "io_throw = (\<lambda>s. (Throws, s))"

definition io_bind :: "('s, 'a) io \<Rightarrow> ('a \<Rightarrow> ('s, 'b) io) \<Rightarrow> ('s, 'b) io" where
  "io_bind m f = (\<lambda>s. case m s of (Throws, s1) \<Rightarrow> (Throws, s1) | (Returns a, s1) \<Rightarrow> f a s1)"

definition io_then :: "('s, 'a) io \<Rightarrow> ('s, 'b) io \<Rightarrow> ('s, 'b) io" where
  "io_then m k = io_bind m (\<lambda>_. k)"

definition io_catch :: "('s, 'a) io \<Rightarrow> ('s, 'a) io \<Rightarrow> ('s, 'a) io" where
  "io_catch m h = (\<lambda>s. case m s of (Throws, s1) \<Rightarrow> h s1 | (Returns a, s1) \<Rightarrow> (Returns a, s1))"

datatype fault = NoFault | Lost | Unanswered

record 'd conn =
  durable :: 'd
  working :: 'd
  autocommit :: bool
  faults :: "fault list"

definition next_fault :: "'d conn \<Rightarrow> fault \<times> 'd conn" where
  "next_fault c = (case faults c of [] \<Rightarrow> (NoFault, c) | f # fs \<Rightarrow> (f, c\<lparr>faults := fs\<rparr>))"

text \<open>A call whose effect on the connection is \<open>f\<close>, subject to the next fault.\<close>

definition faulty :: "('d conn \<Rightarrow> 'a outcome \<times> 'd conn) \<Rightarrow> ('d conn, 'a) io" where
  "faulty f c =
     (case next_fault c of
        (Lost, c1) \<Rightarrow> (Throws, c1)
      | (Unanswered, c1) \<Rightarrow> (Throws, snd (f c1))
      | (NoFault, c1) \<Rightarrow> f c1)"

definition statement :: "('d \<Rightarrow> ('a \<times> 'd) option) \<Rightarrow> ('d conn, 'a) io" where
  "statement f = faulty (\<lambda>c.
     case f (working c) of
       None \<Rightarrow> (Throws, c)
     | Some (a, w) \<Rightarrow>
         (Returns a, c\<lparr>working := w, durable := if autocommit c then w else durable c\<rparr>))"

definition select :: "('d \<Rightarrow> 'a) \<Rightarrow> ('d conn, 'a) io" where
  "select q = statement (\<lambda>d. Some (q d, d))"

definition commit :: "('d conn, unit) io" where
  "commit = faulty (\<lambda>c. (Returns (), c\<lparr>durable := working c\<rparr>))"

definition rollback :: "('d conn, unit) io" where
  "rollback = faulty (\<lambda>c. (Returns (), c\<lparr>working := durable c\<rparr>))"

definition setAutoCommit :: "bool \<Rightarrow> ('d conn, unit) io" where
  "setAutoCommit b = faulty (\<lambda>c.
     (Returns (), c\<lparr>autocommit := b, durable := if b then working c else durable c\<rparr>))"

definition ResetMysqlTransaction :: "('d conn, unit) io" where
  "ResetMysqlTransaction = (\<lambda>c.
     if \<not> autocommit c then io_then rollback (setAutoCommit True) c else (Returns (), c))"

text \<open>
  A method of the access layer on a pooled connection: without a connection it answers
  \<open>unavailable\<close>; otherwise the body runs, and the connection goes back through the sanitizer.
  Only what is durable outlives the call.
\<close>

definition fresh_conn :: "'d \<Rightarrow> fault list \<Rightarrow> 'd conn" where
  "fresh_conn d fs = \<lparr>durable = d, working = d, autocommit = True, faults = fs\<rparr>"

record sql_env =
  available :: bool
  sql_faults :: "fault list"
  sql_now :: time

definition with_connection :: "sql_env \<Rightarrow> 'a \<Rightarrow> ('d conn, 'a) io \<Rightarrow> 'd \<Rightarrow> 'a outcome \<times> 'd" where
  "with_connection e unavailable body d =
     (if \<not> available e then (Returns unavailable, d)
      else case body (fresh_conn d (sql_faults e)) of
        (r, c) \<Rightarrow> (r, durable (snd (ResetMysqlTransaction c))))"

named_theorems io_simps \<open>unfolding of the exception monad\<close>

declare io_return_def [io_simps] io_throw_def [io_simps] io_bind_def [io_simps] io_then_def [io_simps]
  io_catch_def [io_simps]

text \<open>
  Reasoning about a method is by weakest preconditions: \<open>wp m Q E s\<close> says that \<open>m\<close> run in
  \<open>s\<close> ends in \<open>Q\<close> if it returns and in \<open>E\<close> if it throws. The rules for the calls on a
  connection quantify over the remaining faults, so a proof by them covers every failure.
\<close>

definition wp :: "('s, 'a) io \<Rightarrow> ('a \<Rightarrow> 's \<Rightarrow> bool) \<Rightarrow> ('s \<Rightarrow> bool) \<Rightarrow> 's \<Rightarrow> bool" where
  "wp m Q E s = (case m s of (Returns a, s') \<Rightarrow> Q a s' | (Throws, s') \<Rightarrow> E s')"

lemma io_bind_assoc: "io_bind (io_bind m f) g = io_bind m (\<lambda>x. io_bind (f x) g)"
  by (auto simp: fun_eq_iff io_simps split: prod.split outcome.split)

lemma io_bind_return [simp]: "io_bind (io_return a) f = f a"
  by (auto simp: fun_eq_iff io_simps)

lemma io_bind_if: "io_bind (if b then m else k) f = (if b then io_bind m f else io_bind k f)"
  by simp

lemma io_bind_cong: "(\<And>x. f x = g x) \<Longrightarrow> io_bind m f = io_bind m g"
  by (metis ext)

lemma io_bind_then_return: "io_bind (io_then m (io_return a)) f = io_then m (f a)"
  by (auto simp: fun_eq_iff io_simps split: prod.split outcome.split)

named_theorems wp_rules \<open>introduction rules for weakest preconditions\<close>

lemma wp_return [wp_rules]: "Q a s \<Longrightarrow> wp (io_return a) Q E s"
  by (simp add: wp_def io_simps)

lemma wp_throw [wp_rules]: "E s \<Longrightarrow> wp io_throw Q E s"
  by (simp add: wp_def io_simps)

lemma wp_bind [wp_rules]: "wp m (\<lambda>a. wp (f a) Q E) E s \<Longrightarrow> wp (io_bind m f) Q E s"
  by (auto simp: wp_def io_simps split: prod.splits outcome.splits)

lemma wp_then [wp_rules]: "wp m (\<lambda>_. wp k Q E) E s \<Longrightarrow> wp (io_then m k) Q E s"
  by (simp add: io_then_def wp_bind)

lemma wp_catch [wp_rules]: "wp m Q (wp h Q E) s \<Longrightarrow> wp (io_catch m h) Q E s"
  by (auto simp: wp_def io_simps split: prod.splits outcome.splits)

lemma wp_if [wp_rules]: "(b \<Longrightarrow> wp m Q E s) \<Longrightarrow> (\<not> b \<Longrightarrow> wp k Q E s) \<Longrightarrow> wp (if b then m else k) Q E s"
  by simp

lemma wp_mono:
  "wp m Q' E' s \<Longrightarrow> (\<And>a s'. Q' a s' \<Longrightarrow> Q a s') \<Longrightarrow> (\<And>s'. E' s' \<Longrightarrow> E s') \<Longrightarrow> wp m Q E s"
  by (auto simp: wp_def split: prod.splits outcome.splits)

lemma wpD:
  "wp m Q E s \<Longrightarrow> m s = (Returns a, s') \<Longrightarrow> Q a s'"
  "wp m Q E s \<Longrightarrow> m s = (Throws, s') \<Longrightarrow> E s'"
  by (simp_all add: wp_def)

lemma wp_faulty:
  assumes "\<And>fs. E (c\<lparr>faults := fs\<rparr>)"
    and "\<And>fs. E (snd (f (c\<lparr>faults := fs\<rparr>)))"
    and "\<And>fs a c'. f (c\<lparr>faults := fs\<rparr>) = (Returns a, c') \<Longrightarrow> Q a c'"
  shows "wp (faulty f) Q E c"
proof -
  have "wp f Q E (c\<lparr>faults := fs\<rparr>)" for fs
    using assms(2) [of fs] assms(3) [of fs] by (auto simp: wp_def split: prod.splits outcome.splits)
  from this [of "faults c"] this [of "tl (faults c)"] show ?thesis
    using assms(1) [of "tl (faults c)"] assms(2) [of "tl (faults c)"]
    by (auto simp: wp_def faulty_def next_fault_def split: list.splits fault.splits)
qed

lemma wp_if_state: "wp (\<lambda>s. if b s then m s else k s) Q E s = (if b s then wp m Q E s else wp k Q E s)"
  by (simp add: wp_def)

lemma wp_commit [wp_rules]:
  "(\<And>fs. Q () (c\<lparr>faults := fs, durable := working c\<rparr>)) \<Longrightarrow> (\<And>fs. E (c\<lparr>faults := fs\<rparr>)) \<Longrightarrow>
   (\<And>fs. E (c\<lparr>faults := fs, durable := working c\<rparr>)) \<Longrightarrow> wp commit Q E c"
  unfolding commit_def by (rule wp_faulty) auto

lemma wp_rollback [wp_rules]:
  "(\<And>fs. Q () (c\<lparr>faults := fs, working := durable c\<rparr>)) \<Longrightarrow> (\<And>fs. E (c\<lparr>faults := fs\<rparr>)) \<Longrightarrow>
   (\<And>fs. E (c\<lparr>faults := fs, working := durable c\<rparr>)) \<Longrightarrow> wp rollback Q E c"
  unfolding rollback_def by (rule wp_faulty) auto

lemma wp_setAutoCommit [wp_rules]:
  "(\<And>fs. Q () (c\<lparr>faults := fs, autocommit := b, durable := if b then working c else durable c\<rparr>)) \<Longrightarrow>
   (\<And>fs. E (c\<lparr>faults := fs\<rparr>)) \<Longrightarrow>
   (\<And>fs. E (c\<lparr>faults := fs, autocommit := b, durable := if b then working c else durable c\<rparr>)) \<Longrightarrow>
   wp (setAutoCommit b) Q E c"
  unfolding setAutoCommit_def by (rule wp_faulty) auto

lemma wp_statement:
  "(\<And>fs. E (c\<lparr>faults := fs\<rparr>)) \<Longrightarrow>
   (\<And>a w fs. f (working c) = Some (a, w) \<Longrightarrow>
      E (c\<lparr>faults := fs, working := w, durable := if autocommit c then w else durable c\<rparr>)) \<Longrightarrow>
   (\<And>a w fs. f (working c) = Some (a, w) \<Longrightarrow>
      Q a (c\<lparr>faults := fs, working := w, durable := if autocommit c then w else durable c\<rparr>)) \<Longrightarrow>
   wp (statement f) Q E c"
  unfolding statement_def by (rule wp_faulty) (auto split: option.splits)

lemma wp_select [wp_rules]:
  assumes "\<And>fs. E (c\<lparr>faults := fs\<rparr>)"
    and "\<And>fs. E (c\<lparr>faults := fs, durable := if autocommit c then working c else durable c\<rparr>)"
    and "\<And>fs. Q (q (working c)) (c\<lparr>faults := fs, durable := if autocommit c then working c else durable c\<rparr>)"
  shows "wp (select q) Q E c"
proof -
  have "c\<lparr>faults := fs, working := working c, durable := x\<rparr> = c\<lparr>faults := fs, durable := x\<rparr>" for x fs
    by simp
  then show ?thesis
    unfolding select_def using assms by (intro wp_statement) auto
qed

lemma reset_durable [simp]: "durable (snd (ResetMysqlTransaction c)) = durable c"
proof -
  have "wp ResetMysqlTransaction (\<lambda>_ c'. durable c' = durable c) (\<lambda>c'. durable c' = durable c) c"
    unfolding ResetMysqlTransaction_def
    by (simp add: wp_if_state) (auto simp: wp_def [of "\<lambda>c. (Returns (), c)"] intro!: wp_rules)
  then show ?thesis
    by (auto simp: wp_def split: prod.splits outcome.splits)
qed

text \<open>
  A sanitized connection starts its next call outside a transaction and seeing what is durable, or
  the sanitizer throws and the pool discards it.
\<close>

lemma reset_clean:
  assumes "autocommit c \<longrightarrow> working c = durable c"
  shows "wp ResetMysqlTransaction (\<lambda>_ c'. autocommit c' \<and> working c' = durable c') (\<lambda>_. True) c"
  unfolding ResetMysqlTransaction_def using assms
  by (simp add: wp_if_state) (auto simp: wp_def [of "\<lambda>c. (Returns (), c)"] intro!: wp_rules)

text \<open>A method whose body meets a specification over what is durable meets it as a call.\<close>

lemma with_connection_cases:
  assumes "wp body (\<lambda>a c. Q a (durable c)) (\<lambda>c. E (durable c)) (fresh_conn d (sql_faults e))"
    and "\<not> available e \<Longrightarrow> Q unavailable d"
    and "with_connection e unavailable body d = (r, d')"
  shows "case r of Returns a \<Rightarrow> Q a d' | Throws \<Rightarrow> E d'"
  using assms by (auto simp: with_connection_def wp_def split: if_splits prod.splits outcome.splits)

lemma fresh_conn_simps [simp]:
  "durable (fresh_conn d fs) = d" "working (fresh_conn d fs) = d" "autocommit (fresh_conn d fs)"
  "faults (fresh_conn d fs) = fs"
  by (simp_all add: fresh_conn_def)

text \<open>Calls that do not fail.\<close>

named_theorems clean_simps \<open>evaluation of calls on a connection without faults\<close>

lemma faulty_clean: "faults c = [] \<Longrightarrow> faulty f c = f c"
  by (simp add: faulty_def next_fault_def)

lemma statement_clean [clean_simps]:
  "faults c = [] \<Longrightarrow> statement f c =
     (case f (working c) of
        None \<Rightarrow> (Throws, c)
      | Some (a, w) \<Rightarrow> (Returns a, c\<lparr>working := w, durable := if autocommit c then w else durable c\<rparr>))"
  by (simp add: statement_def faulty_clean)

lemma select_clean [clean_simps]:
  "faults c = [] \<Longrightarrow> autocommit c \<longrightarrow> durable c = working c \<Longrightarrow> select q c = (Returns (q (working c)), c)"
  by (simp add: select_def statement_clean)

lemma tx_clean [clean_simps]:
  "faults c = [] \<Longrightarrow> commit c = (Returns (), c\<lparr>durable := working c\<rparr>)"
  "faults c = [] \<Longrightarrow> rollback c = (Returns (), c\<lparr>working := durable c\<rparr>)"
  "faults c = [] \<Longrightarrow> setAutoCommit b c =
     (Returns (), c\<lparr>autocommit := b, durable := if b then working c else durable c\<rparr>)"
  by (simp_all add: commit_def rollback_def setAutoCommit_def faulty_clean)

text \<open>Transactional methods.\<close>

text \<open>The handler of the transactional methods: roll back, restore autocommit, answer \<open>false\<close>.\<close>

definition abandon :: "('d conn, bool) io" where
  "abandon = io_then (io_catch (io_then rollback (setAutoCommit True)) (io_return ())) (io_return False)"

abbreviation in_tx :: "'d \<Rightarrow> 'd conn \<Rightarrow> bool" where
  "in_tx d c \<equiv> \<not> autocommit c \<and> durable c = d"

lemma abandon_wp:
  assumes "\<not> autocommit c \<or> working c = durable c"
  shows "wp abandon (\<lambda>ok c'. \<not> ok \<and> durable c' = durable c) (\<lambda>_. False) c"
  unfolding abandon_def using assms by (auto intro!: wp_rules)

text \<open>
  The shape of the transactional methods. If the body, run inside the transaction, only answers
  \<open>True\<close> when the tables it sees satisfy \<open>P\<close>, then the method either leaves the tables
  as they were or leaves them in \<open>P\<close>, and the latter whenever it answers \<open>True\<close>.
\<close>

definition transaction :: "('d conn, bool) io \<Rightarrow> ('d conn, bool) io" where
  "transaction body =
     io_catch
       (io_then (setAutoCommit False)
         (io_bind body (\<lambda>ok.
            if ok then io_then commit (io_then (setAutoCommit True) (io_return True))
            else io_then rollback (io_then (setAutoCommit True) (io_return False)))))
       abandon"

lemma transaction_wp:
  assumes body: "\<And>c. in_tx d c \<Longrightarrow> working c = d \<Longrightarrow>
      wp body (\<lambda>ok c'. in_tx d c' \<and> (ok \<longrightarrow> P (working c'))) (in_tx d) c"
  shows "wp (transaction body) (\<lambda>ok c. P (durable c) \<or> (\<not> ok \<and> durable c = d)) (\<lambda>_. False) (fresh_conn d fs)"
proof -
  let ?Q = "\<lambda>ok c. P (durable c) \<or> (\<not> ok \<and> durable c = d)"
  have ab: "wp abandon ?Q (\<lambda>_. False) c"
    if "\<not> autocommit c \<or> working c = durable c" "durable c = d \<or> P (durable c)" for c
    using wp_mono [OF abandon_wp [OF that(1)], of ?Q "\<lambda>_. False"] that(2) by auto
  have finish: "wp (if ok then io_then commit (io_then (setAutoCommit True) (io_return True))
        else io_then rollback (io_then (setAutoCommit True) (io_return False)))
      ?Q (wp abandon ?Q (\<lambda>_. False)) c" if "in_tx d c" "ok \<longrightarrow> P (working c)" for ok c
    by (intro wp_rules ab) (use that in simp_all)
  have run: "wp (io_bind body (\<lambda>ok.
        if ok then io_then commit (io_then (setAutoCommit True) (io_return True))
        else io_then rollback (io_then (setAutoCommit True) (io_return False))))
      ?Q (wp abandon ?Q (\<lambda>_. False)) c" if "in_tx d c" "working c = d" for c
    by (rule wp_bind, rule wp_mono [OF body [OF that]]) (simp_all add: finish ab)
  show ?thesis
    unfolding transaction_def by (intro wp_catch wp_then wp_setAutoCommit run ab) simp_all
qed

lemma transaction_call:
  assumes "\<And>c. in_tx d c \<Longrightarrow> working c = d \<Longrightarrow>
      wp body (\<lambda>ok c'. in_tx d c' \<and> (ok \<longrightarrow> P (working c'))) (in_tx d) c"
    and "with_connection e False (transaction body) d = (r, d')"
  shows "(r = Returns True \<and> P d') \<or> (r = Returns False \<and> (d' = d \<or> P d'))"
  using with_connection_cases [OF transaction_wp [of d body P], of e False, OF assms(1) _ assms(2)]
  by (cases r) auto

end
