(* ===== verification/Delivery_Window.thy ===== *)
theory Delivery_Window
  imports Prelude
begin

text \<open>
  The per-session delivery window of \<^verbatim>\<open>common/DeliveryWindow.h\<close> over the text messages of
  \<^verbatim>\<open>common/ChatMessageTypes.h\<close>: which pending messages were already written to a
  session, how often, and when each may be written again. The class's
  \<^verbatim>\<open>std::map<Key, Attempt>\<close> is an association list with distinct keys.
\<close>

record text_message =
  client_message_id :: string
  sender_uid :: int
  receiver_uid :: int
  content :: string

type_synonym message_key = "int \<times> string"

definition message_key :: "text_message \<Rightarrow> message_key" where
  "message_key m = (sender_uid m, client_message_id m)"

record attempt =
  count :: nat
  next_at :: time

type_synonym delivery_window = "(message_key \<times> attempt) list"

definition Capacity :: nat where
  "Capacity = 32"

definition reconcile :: "delivery_window \<Rightarrow> text_message list \<Rightarrow> delivery_window" where
  "reconcile w pending = restrict_keys (set (map message_key pending)) w"

definition due :: "delivery_window \<Rightarrow> text_message \<Rightarrow> time \<Rightarrow> bool" where
  "due w m now = (case map_of w (message_key m) of None \<Rightarrow> True | Some a \<Rightarrow> now \<ge> next_at a)"

definition attempt_of :: "delivery_window \<Rightarrow> message_key \<Rightarrow> attempt" where
  "attempt_of w k = (case map_of w k of None \<Rightarrow> \<lparr>count = 0, next_at = 0\<rparr> | Some a \<Rightarrow> a)"

definition sent :: "delivery_window \<Rightarrow> text_message \<Rightarrow> time \<Rightarrow> bool \<times> delivery_window" where
  "sent w m now =
     (let a = attempt_of w (message_key m);
          retry = (count a \<noteq> 0);
          a' = \<lparr>count = min (count a + 1) 4,
                next_at = now + seconds (5 * 2 ^ min (count a) 3)\<rparr>
      in (retry, AList.update (message_key m) a' w))"

text \<open>
  The invariant: distinct keys, and every recorded attempt has been made between one and four
  times, so the \<^verbatim>\<open>unsigned\<close> counter saturates at four and never wraps.
\<close>

definition window_inv :: "delivery_window \<Rightarrow> bool" where
  "window_inv w \<longleftrightarrow> wf_alist w \<and> (\<forall>a \<in> snd ` set w. 1 \<le> count a \<and> count a \<le> 4)"

lemma window_inv_Nil [simp]: "window_inv []"
  by (simp add: window_inv_def)

lemma window_inv_wf: "window_inv w \<Longrightarrow> wf_alist w"
  by (simp add: window_inv_def)

lemma reconcile_lookup [alist_simps]:
  "map_of (reconcile w p) k = (if k \<in> message_key ` set p then map_of w k else None)"
  by (simp add: reconcile_def map_of_restrict_keys)

lemma reconcile_keys: "set (keys (reconcile w p)) = set (keys w) \<inter> message_key ` set p"
  by (simp add: reconcile_def set_keys_restrict)

lemma sent_keys: "set (keys (snd (sent w m now))) = insert (message_key m) (set (keys w))"
  by (simp add: sent_def Let_def set_keys_update)

lemma sent_lookup [alist_simps]:
  "map_of (snd (sent w m now)) k =
     (if k = message_key m
      then Some \<lparr>count = min (count (attempt_of w k) + 1) 4,
                 next_at = now + seconds (5 * 2 ^ min (count (attempt_of w k)) 3)\<rparr>
      else map_of w k)"
  by (simp add: sent_def Let_def map_of_update)

lemma window_inv_iff:
  "window_inv w \<longleftrightarrow> wf_alist w \<and> (\<forall>k a. map_of w k = Some a \<longrightarrow> 1 \<le> count a \<and> count a \<le> 4)"
  using alist_all_iff [of w "\<lambda>a. 1 \<le> count a \<and> count a \<le> 4"] unfolding window_inv_def by blast

lemma reconcile_inv [simp, inv_intros]: "window_inv w \<Longrightarrow> window_inv (reconcile w p)"
  by (simp add: window_inv_iff reconcile_lookup) (simp add: reconcile_def)

lemma sent_inv [simp, inv_intros]: "window_inv w \<Longrightarrow> window_inv (snd (sent w m now))"
  by (simp add: window_inv_iff sent_lookup) (simp add: sent_def Let_def)

lemma due_sent_other: "message_key m' \<noteq> message_key m \<Longrightarrow> due (snd (sent w m t)) m' now = due w m' now"
  by (simp add: due_def sent_lookup)

lemma due_sent_self:
  "due (snd (sent w m t)) m now \<longleftrightarrow>
     now \<ge> t + seconds (5 * 2 ^ min (count (attempt_of w (message_key m))) 3)"
  by (simp add: due_def sent_lookup)

lemma due_reconcile: "m \<in> set p \<Longrightarrow> due (reconcile w p) m now = due w m now"
  by (simp add: due_def reconcile_lookup)

text \<open>A message just written is not written again for at least five seconds, whatever its history.\<close>

lemma due_sent_later:
  assumes "due (snd (sent w m t)) m now" shows "now \<ge> t + seconds 5"
proof -
  have "(1::int) \<le> 2 ^ min (count (attempt_of w (message_key m))) 3"
    by simp
  then show ?thesis
    using assms unfolding due_sent_self by linarith
qed

definition sends :: "delivery_window \<Rightarrow> text_message \<Rightarrow> time list \<Rightarrow> delivery_window" where
  "sends w m ts = fold (\<lambda>t w. snd (sent w m t)) ts w"

lemma sends_inv: "window_inv w \<Longrightarrow> window_inv (sends w m ts)"
  unfolding sends_def by (induction ts arbitrary: w) simp_all

lemma sends_snoc: "sends w m (ts @ [t]) = snd (sent (sends w m ts) m t)"
  by (simp add: sends_def)

lemma sends_count:
  "map_of w (message_key m) = None \<Longrightarrow> count (attempt_of (sends w m ts) (message_key m)) = min (length ts) 4"
proof (induction ts rule: rev_induct)
  case Nil
  then show ?case by (simp add: sends_def attempt_of_def)
next
  case (snoc t ts)
  then show ?case by (simp add: sends_snoc attempt_of_def sent_lookup)
qed

text \<open>
  C39: The retry schedule. A message that was not in the window and has been written to the session
  at times \<open>ts\<close> becomes due again exactly 5, 10, 20 and then always 40 seconds after the last
  write, according to whether it was the first, second, third or a later one; and a write reports
  itself as a retry exactly when it is not the first.
\<close>

theorem backoff_schedule:
  assumes "map_of w (message_key m) = None"
  shows "(due (sends w m (ts @ [t])) m now \<longleftrightarrow> now \<ge> t + seconds (5 * 2 ^ min (length ts) 3))
    \<and> (fst (sent (sends w m ts) m t) \<longleftrightarrow> ts \<noteq> [])"
proof -
  have "min (count (attempt_of (sends w m ts) (message_key m))) 3 = min (length ts) 3"
    unfolding sends_count [OF assms] by simp
  moreover have "fst (sent (sends w m ts) m t) \<longleftrightarrow> count (attempt_of (sends w m ts) (message_key m)) \<noteq> 0"
    by (simp add: sent_def Let_def)
  ultimately show ?thesis
    unfolding sends_snoc due_sent_self by (simp only: sends_count [OF assms]) simp
qed

theorem backoff_schedule_witness:
  "let m = \<lparr>client_message_id = ''a'', sender_uid = 1, receiver_uid = 2, content = ''x''\<rparr>
   in due (sends [] m ([0, seconds 5] @ [seconds 15])) m (seconds 35)
      \<and> \<not> due (sends [] m ([0, seconds 5] @ [seconds 15])) m (seconds 34)"
  using backoff_schedule [of "[]" "\<lparr>client_message_id = ''a'', sender_uid = 1, receiver_uid = 2,
      content = ''x''\<rparr>" "[0, seconds 5]" "seconds 15"]
  by (simp add: Let_def)

end
