(* ===== verification/Chat_Schema.thy ===== *)
theory Chat_Schema
  imports Sql_Connection Delivery_Window
begin

text \<open>
  The tables of \<^verbatim>\<open>database/schema.sql\<close> that the chat server uses, and the integrity
  their keys promise. A table is the list of its rows in the order of its
  \<^verbatim>\<open>AUTO_INCREMENT\<close> key. Text columns are compared by the server under the collation of
  the schema (\<^verbatim>\<open>utf8mb4_unicode_ci\<close>, not byte by byte): the collation is the argument
  \<open>ck\<close>, which sends a string to its sort key.
\<close>

record user_row =
  u_uid :: int
  u_name :: string
  u_email :: string
  u_pwd :: string
  u_scheme :: string
  u_nick :: string
  u_desc :: string
  u_sex :: int
  u_icon :: string

record friend_row =
  self_id :: int
  friend_id :: int
  f_back :: string

record apply_row =
  a_id :: nat
  from_uid :: int
  to_uid :: int
  a_status :: int

record message_row =
  m_msg :: text_message
  acknowledged_at :: "time option"

record chat_db =
  user_rows :: "user_row list"
  friend_rows :: "friend_row list"
  apply_rows :: "apply_row list"
  next_apply_id :: nat
  message_rows :: "message_row list"

definition uid_exists :: "chat_db \<Rightarrow> int \<Rightarrow> bool" where
  "uid_exists d u = list_ex (\<lambda>r. u_uid r = u) (user_rows d)"

definition message_col_key :: "(string \<Rightarrow> string) \<Rightarrow> message_row \<Rightarrow> int \<times> string" where
  "message_col_key ck r = (sender_uid (m_msg r), ck (client_message_id (m_msg r)))"

text \<open>The unique and the foreign keys of the tables.\<close>

definition messages_ok :: "(string \<Rightarrow> string) \<Rightarrow> chat_db \<Rightarrow> bool" where
  "messages_ok ck d \<longleftrightarrow>
     distinct (map (message_col_key ck) (message_rows d))
     \<and> (\<forall>r \<in> set (message_rows d). uid_exists d (sender_uid (m_msg r)) \<and> uid_exists d (receiver_uid (m_msg r)))"

definition friends_ok :: "chat_db \<Rightarrow> bool" where
  "friends_ok d \<longleftrightarrow>
     distinct (map (\<lambda>r. (self_id r, friend_id r)) (friend_rows d))
     \<and> (\<forall>r \<in> set (friend_rows d). uid_exists d (self_id r) \<and> uid_exists d (friend_id r))"

definition applies_ok :: "chat_db \<Rightarrow> bool" where
  "applies_ok d \<longleftrightarrow>
     distinct (map (\<lambda>r. (from_uid r, to_uid r)) (apply_rows d))
     \<and> sorted_wrt (<) (map a_id (apply_rows d))
     \<and> (\<forall>r \<in> set (apply_rows d). a_id r < next_apply_id d \<and> uid_exists d (from_uid r) \<and> uid_exists d (to_uid r))"

definition db_ok :: "(string \<Rightarrow> string) \<Rightarrow> chat_db \<Rightarrow> bool" where
  "db_ok ck d \<longleftrightarrow> messages_ok ck d \<and> friends_ok d \<and> applies_ok d"

definition has_friend_row :: "chat_db \<Rightarrow> int \<Rightarrow> int \<Rightarrow> bool" where
  "has_friend_row d a b = list_ex (\<lambda>r. self_id r = a \<and> friend_id r = b) (friend_rows d)"

definition mutual_friends :: "chat_db \<Rightarrow> int \<Rightarrow> int \<Rightarrow> bool" where
  "mutual_friends d a b \<longleftrightarrow> has_friend_row d a b \<and> has_friend_row d b a"

lemma uid_exists_cong [simp]:
  "uid_exists (d\<lparr>message_rows := ms\<rparr>) u = uid_exists d u"
  "uid_exists (d\<lparr>friend_rows := fs\<rparr>) u = uid_exists d u"
  "uid_exists (d\<lparr>apply_rows := as\<rparr>) u = uid_exists d u"
  "uid_exists (d\<lparr>next_apply_id := n\<rparr>) u = uid_exists d u"
  by (simp_all add: uid_exists_def)

lemma messages_ok_frame [simp]:
  "messages_ok ck (d\<lparr>friend_rows := fs\<rparr>) = messages_ok ck d"
  "messages_ok ck (d\<lparr>apply_rows := as\<rparr>) = messages_ok ck d"
  "messages_ok ck (d\<lparr>next_apply_id := n\<rparr>) = messages_ok ck d"
  by (simp_all add: messages_ok_def)

lemma friends_ok_frame [simp]:
  "friends_ok (d\<lparr>message_rows := ms\<rparr>) = friends_ok d"
  "friends_ok (d\<lparr>apply_rows := as\<rparr>) = friends_ok d"
  "friends_ok (d\<lparr>next_apply_id := n\<rparr>) = friends_ok d"
  by (simp_all add: friends_ok_def)

lemma applies_ok_frame [simp]:
  "applies_ok (d\<lparr>message_rows := ms\<rparr>) = applies_ok d"
  "applies_ok (d\<lparr>friend_rows := fs\<rparr>) = applies_ok d"
  by (simp_all add: applies_ok_def)

lemma has_friend_row_frame [simp]:
  "has_friend_row (d\<lparr>message_rows := ms\<rparr>) a b = has_friend_row d a b"
  "has_friend_row (d\<lparr>apply_rows := as\<rparr>) a b = has_friend_row d a b"
  by (simp_all add: has_friend_row_def)

lemma db_ok_messages:
  assumes "db_ok ck d" and "messages_ok ck d'" and "user_rows d' = user_rows d"
    and "friend_rows d' = friend_rows d" and "apply_rows d' = apply_rows d" and "next_apply_id d' = next_apply_id d"
  shows "db_ok ck d'"
  using assms by (simp add: db_ok_def friends_ok_def applies_ok_def uid_exists_def)

lemma messages_ok_same_messages:
  assumes "messages_ok ck d" and "map m_msg (message_rows d') = map m_msg (message_rows d)"
    and "user_rows d' = user_rows d"
  shows "messages_ok ck d'"
proof -
  have key: "map (message_col_key ck) rs =
      map (\<lambda>m. (sender_uid m, ck (client_message_id m))) (map m_msg rs)" for rs
    by (simp add: message_col_key_def)
  have all: "(\<forall>r \<in> set (message_rows d'). P (m_msg r)) = (\<forall>r \<in> set (message_rows d). P (m_msg r))"
    for P :: "text_message \<Rightarrow> bool"
    using assms(2) by (metis (no_types, lifting) image_set image_iff)
  show ?thesis
    using assms(1,3) all [of "\<lambda>m. uid_exists d (sender_uid m) \<and> uid_exists d (receiver_uid m)"]
    unfolding messages_ok_def key assms(2) by (simp add: uid_exists_def)
qed

end
