(* ===== verification/Text_Message_Service.thy ===== *)
theory Text_Message_Service
  imports Delivery_Window
begin

text \<open>
  Acceptance of a batch of text messages, \<^verbatim>\<open>common/TextMessageService.h\<close>. The
  friendship test and the persistence are the two \<^verbatim>\<open>std::function\<close> members of the
  class: they run on a state, may throw, and are arguments of \<open>accept\<close>. What \<open>accept\<close>
  relies on is the locale \<open>message_store\<close>, interpreted on the MySQL access layer in
  \<^verbatim>\<open>Message_Db\<close>.
\<close>

datatype accept_result = Accepted | InvalidMessage | InvalidRecipient | Unavailable

definition valid_message :: "int \<Rightarrow> int \<Rightarrow> text_message \<Rightarrow> bool" where
  "valid_message sender receiver m \<longleftrightarrow>
     \<not> (sender_uid m \<noteq> sender \<or> receiver_uid m \<noteq> receiver
        \<or> client_message_id m = [] \<or> length (client_message_id m) > 128
        \<or> content m = [] \<or> length (content m) > 2048)"

definition message_bytes :: "text_message \<Rightarrow> nat" where
  "message_bytes m = length (client_message_id m) + length (content m)"

fun valid_batch :: "int \<Rightarrow> int \<Rightarrow> nat \<Rightarrow> text_message list \<Rightarrow> bool" where
  "valid_batch sender receiver bytes [] = True"
| "valid_batch sender receiver bytes (m # ms) =
     (if \<not> valid_message sender receiver m then False
      else if bytes + message_bytes m > 8192 then False
      else valid_batch sender receiver (bytes + message_bytes m) ms)"

definition accept ::
  "(int \<Rightarrow> int \<Rightarrow> 's \<Rightarrow> bool option outcome \<times> 's) \<Rightarrow> (text_message list \<Rightarrow> 's \<Rightarrow> bool outcome \<times> 's)
   \<Rightarrow> int \<Rightarrow> int \<Rightarrow> text_message list \<Rightarrow> 's \<Rightarrow> accept_result \<times> 's" where
  "accept friendship persist sender receiver messages s =
     (if sender \<le> 0 \<or> receiver \<le> 0 \<or> sender = receiver then (InvalidRecipient, s)
      else if messages = [] \<or> length messages > 50 then (InvalidMessage, s)
      else if \<not> valid_batch sender receiver 0 messages then (InvalidMessage, s)
      else case friendship sender receiver s of
        (Throws, s1) \<Rightarrow> (Unavailable, s1)
      | (Returns None, s1) \<Rightarrow> (Unavailable, s1)
      | (Returns (Some False), s1) \<Rightarrow> (InvalidRecipient, s1)
      | (Returns (Some True), s1) \<Rightarrow>
          (case persist messages s1 of
             (Throws, s2) \<Rightarrow> (Unavailable, s2)
           | (Returns ok, s2) \<Rightarrow> (if ok then Accepted else Unavailable, s2)))"

lemma valid_batch_iff:
  "bytes \<le> 8192 \<Longrightarrow> valid_batch sender receiver bytes ms \<longleftrightarrow>
     (\<forall>m \<in> set ms. valid_message sender receiver m) \<and> bytes + sum_list (map message_bytes ms) \<le> 8192"
  by (induction ms arbitrary: bytes) auto

text \<open>The batches that the bounds of the code admit, without the running total of the loop.\<close>

definition admissible :: "int \<Rightarrow> int \<Rightarrow> text_message list \<Rightarrow> bool" where
  "admissible sender receiver ms \<longleftrightarrow>
     0 < sender \<and> 0 < receiver \<and> sender \<noteq> receiver \<and> ms \<noteq> [] \<and> length ms \<le> 50
     \<and> (\<forall>m \<in> set ms. valid_message sender receiver m) \<and> sum_list (map message_bytes ms) \<le> 8192"

lemma accept_rejects:
  "\<not> admissible sender receiver ms \<Longrightarrow>
     accept friendship persist sender receiver ms s
       = (if sender \<le> 0 \<or> receiver \<le> 0 \<or> sender = receiver then InvalidRecipient else InvalidMessage, s)"
  by (auto simp: accept_def admissible_def valid_batch_iff)

lemma accept_admissible:
  "admissible sender receiver ms \<Longrightarrow>
     accept friendship persist sender receiver ms s =
       (case friendship sender receiver s of
          (Throws, s1) \<Rightarrow> (Unavailable, s1)
        | (Returns None, s1) \<Rightarrow> (Unavailable, s1)
        | (Returns (Some False), s1) \<Rightarrow> (InvalidRecipient, s1)
        | (Returns (Some True), s1) \<Rightarrow>
            (case persist ms s1 of
               (Throws, s2) \<Rightarrow> (Unavailable, s2)
             | (Returns ok, s2) \<Rightarrow> (if ok then Accepted else Unavailable, s2)))"
  by (auto simp: accept_def admissible_def valid_batch_iff)

lemma accept_AcceptedE:
  assumes "accept friendship persist sender receiver ms s = (Accepted, s')"
  obtains s1 where "admissible sender receiver ms"
    and "friendship sender receiver s = (Returns (Some True), s1)"
    and "persist ms s1 = (Returns True, s')"
proof -
  have adm: "admissible sender receiver ms"
    using assms accept_rejects [of sender receiver ms friendship persist s]
    by (cases "admissible sender receiver ms") (auto split: if_splits)
  show thesis
    using assms that [OF adm] unfolding accept_admissible [OF adm]
    by (auto split: prod.splits outcome.splits option.splits bool.splits if_splits)
qed

text \<open>
  What acceptance needs of the storage behind it: on a well-formed state the friendship query tells
  the truth or nothing and changes nothing; persistence is all or nothing, a success means that
  every message is stored, and what is stored stays.
\<close>

locale message_store =
  fixes inv :: "'s \<Rightarrow> bool"
    and related :: "'s \<Rightarrow> int \<Rightarrow> int \<Rightarrow> bool"
    and stored :: "'s \<Rightarrow> text_message \<Rightarrow> bool"
    and friendship :: "int \<Rightarrow> int \<Rightarrow> 's \<Rightarrow> bool option outcome \<times> 's"
    and persist :: "text_message list \<Rightarrow> 's \<Rightarrow> bool outcome \<times> 's"
  assumes friendship_pure: "friendship a b s = (fr, s') \<Longrightarrow> s' = s"
    and friendship_sound: "inv s \<Longrightarrow> a \<noteq> b \<Longrightarrow> friendship a b s = (Returns (Some ok), s') \<Longrightarrow> ok = related s a b"
    and persist_inv: "inv s \<Longrightarrow> persist ms s = (r, s') \<Longrightarrow> inv s'"
    and persist_stores: "persist ms s = (Returns True, s') \<Longrightarrow> m \<in> set ms \<Longrightarrow> stored s' m"
    and persist_atomic: "persist ms s = (r, s') \<Longrightarrow> s' = s \<or> (\<forall>m \<in> set ms. stored s' m)"
    and persist_keeps: "persist ms s = (r, s') \<Longrightarrow> stored s m \<Longrightarrow> stored s' m"
begin

lemma accept_sound:
  assumes "inv s" and "accept friendship persist a b ms s = (Accepted, s')"
  shows "admissible a b ms \<and> related s a b \<and> (\<forall>m \<in> set ms. stored s' m)"
proof (rule accept_AcceptedE [OF assms(2)])
  fix s1
  assume adm: "admissible a b ms" and f: "friendship a b s = (Returns (Some True), s1)"
    and p: "persist ms s1 = (Returns True, s')"
  have "a \<noteq> b"
    using adm by (simp add: admissible_def)
  then show ?thesis
    using adm friendship_sound [OF assms(1) _ f] persist_stores [OF p] by blast
qed

lemma accept_cases:
  assumes "accept friendship persist a b ms s = (res, s')"
  shows "s' = s \<or> (\<exists>r. friendship a b s = (Returns (Some True), s) \<and> persist ms s = (r, s'))"
proof (cases "admissible a b ms")
  case False
  then show ?thesis
    using assms accept_rejects [OF False, of friendship persist s] by simp
next
  case True
  obtain fr s1 where f: "friendship a b s = (fr, s1)"
    by fastforce
  then have "s1 = s"
    by (rule friendship_pure)
  then show ?thesis
    using assms f unfolding accept_admissible [OF True]
    by (auto split: outcome.splits option.splits bool.splits prod.splits)
qed

lemma accept_all_or_nothing:
  assumes "inv s" and "accept friendship persist a b ms s = (res, s')"
  shows "inv s' \<and> (s' = s \<or> (\<forall>m \<in> set ms. stored s' m)) \<and> (\<forall>m. stored s m \<longrightarrow> stored s' m)"
  using accept_cases [OF assms(2)] assms(1) persist_inv persist_atomic persist_keeps by blast

lemma accept_strangers:
  assumes "inv s" and "a \<noteq> b" and "\<not> related s a b" and "accept friendship persist a b ms s = (res, s')"
  shows "res \<noteq> Accepted \<and> s' = s"
proof -
  have "friendship a b s \<noteq> (Returns (Some True), s)"
    using friendship_sound [OF assms(1,2)] assms(3) by blast
  moreover have "res \<noteq> Accepted"
    using accept_sound [OF assms(1)] assms(3,4) by blast
  ultimately show ?thesis
    using accept_cases [OF assms(4)] by blast
qed

end

end
