(* ===== verification/Message_Db.thy ===== *)
theory Message_Db
  imports Chat_Schema Text_Message_Service
begin

text \<open>
  The message table of the chat server: \<^verbatim>\<open>PersistTextMessages\<close>,
  \<^verbatim>\<open>GetPendingTextMessages\<close>, \<^verbatim>\<open>AcknowledgeTextMessages\<close> and
  \<^verbatim>\<open>CheckFriendRelation\<close> of \<^verbatim>\<open>servers/chat/storage/MysqlDao.cpp\<close>. First the
  SQL statements as functions on the tables, then the methods as the sequences of calls they make.
\<close>

definition find_message :: "(string \<Rightarrow> string) \<Rightarrow> int \<Rightarrow> string \<Rightarrow> chat_db \<Rightarrow> message_row option" where
  "find_message ck sender cid d = find (\<lambda>r. message_col_key ck r = (sender, ck cid)) (message_rows d)"

definition insert_message :: "(string \<Rightarrow> string) \<Rightarrow> text_message \<Rightarrow> chat_db \<Rightarrow> (unit \<times> chat_db) option" where
  "insert_message ck m d =
     (if find_message ck (sender_uid m) (client_message_id m) d \<noteq> None then Some ((), d)
      else if \<not> uid_exists d (sender_uid m) \<or> \<not> uid_exists d (receiver_uid m) then None
      else Some ((), d\<lparr>message_rows := message_rows d @ [\<lparr>m_msg = m, acknowledged_at = None\<rparr>]\<rparr>))"

fun persist_loop :: "(string \<Rightarrow> string) \<Rightarrow> text_message list \<Rightarrow> (chat_db conn, bool) io" where
  "persist_loop ck [] = io_return True"
| "persist_loop ck (m # ms) =
     io_then (statement (insert_message ck m))
       (io_bind (select (find_message ck (sender_uid m) (client_message_id m))) (\<lambda>row.
          case row of
            None \<Rightarrow> io_return False
          | Some r \<Rightarrow>
              if receiver_uid (m_msg r) \<noteq> receiver_uid m \<or> content (m_msg r) \<noteq> content m
              then io_return False
              else persist_loop ck ms))"

definition PersistTextMessages ::
  "(string \<Rightarrow> string) \<Rightarrow> sql_env \<Rightarrow> text_message list \<Rightarrow> chat_db \<Rightarrow> bool outcome \<times> chat_db" where
  "PersistTextMessages ck e messages d =
     (if messages = [] then (Returns False, d)
      else with_connection e False
        (io_catch
           (io_then (setAutoCommit False)
             (io_bind (persist_loop ck messages) (\<lambda>ok.
                if ok then io_then commit (io_then (setAutoCommit True) (io_return True))
                else io_then rollback (io_then (setAutoCommit True) (io_return False)))))
           abandon) d)"

definition pending_messages :: "int \<Rightarrow> chat_db \<Rightarrow> text_message list" where
  "pending_messages receiver d =
     map m_msg (filter (\<lambda>r. receiver_uid (m_msg r) = receiver \<and> acknowledged_at r = None) (message_rows d))"

definition GetPendingTextMessages ::
  "sql_env \<Rightarrow> int \<Rightarrow> int \<Rightarrow> chat_db \<Rightarrow> text_message list option outcome \<times> chat_db" where
  "GetPendingTextMessages e receiver limit d =
     (if receiver \<le> 0 \<or> limit \<le> 0 then (Returns None, d)
      else with_connection e None
        (io_catch
           (io_bind (select (\<lambda>d. take (nat limit) (pending_messages receiver d)))
              (\<lambda>messages. io_return (Some messages)))
           (io_return None)) d)"

definition acknowledge_row ::
  "(string \<Rightarrow> string) \<Rightarrow> time \<Rightarrow> int \<Rightarrow> int \<Rightarrow> string \<Rightarrow> message_row \<Rightarrow> message_row" where
  "acknowledge_row ck now receiver sender cid r =
     (if receiver_uid (m_msg r) = receiver \<and> message_col_key ck r = (sender, ck cid)
      then r\<lparr>acknowledged_at := Some (case acknowledged_at r of None \<Rightarrow> now | Some t \<Rightarrow> t)\<rparr> else r)"

definition acknowledge_one ::
  "(string \<Rightarrow> string) \<Rightarrow> time \<Rightarrow> int \<Rightarrow> int \<Rightarrow> string \<Rightarrow> chat_db \<Rightarrow> chat_db" where
  "acknowledge_one ck now receiver sender cid d =
     d\<lparr>message_rows := map (acknowledge_row ck now receiver sender cid) (message_rows d)\<rparr>"

fun acknowledge_loop ::
  "(string \<Rightarrow> string) \<Rightarrow> time \<Rightarrow> int \<Rightarrow> int \<Rightarrow> string list \<Rightarrow> (chat_db conn, unit) io" where
  "acknowledge_loop ck now receiver sender [] = io_return ()"
| "acknowledge_loop ck now receiver sender (cid # cids) =
     io_then (statement (\<lambda>d. Some ((), acknowledge_one ck now receiver sender cid d)))
       (acknowledge_loop ck now receiver sender cids)"

definition AcknowledgeTextMessages ::
  "(string \<Rightarrow> string) \<Rightarrow> sql_env \<Rightarrow> int \<Rightarrow> int \<Rightarrow> string list \<Rightarrow> chat_db \<Rightarrow> bool outcome \<times> chat_db" where
  "AcknowledgeTextMessages ck e receiver sender cids d =
     (if receiver \<le> 0 \<or> sender \<le> 0 \<or> cids = [] then (Returns False, d)
      else with_connection e False
        (io_catch
           (io_then (setAutoCommit False)
             (io_then (acknowledge_loop ck (sql_now e) receiver sender cids)
               (io_then commit (io_then (setAutoCommit True) (io_return True)))))
           abandon) d)"

definition count_relation :: "int \<Rightarrow> int \<Rightarrow> chat_db \<Rightarrow> nat" where
  "count_relation a b d =
     length (filter (\<lambda>r. (self_id r = a \<and> friend_id r = b) \<or> (self_id r = b \<and> friend_id r = a)) (friend_rows d))"

definition CheckFriendRelation :: "sql_env \<Rightarrow> int \<Rightarrow> int \<Rightarrow> chat_db \<Rightarrow> bool option outcome \<times> chat_db" where
  "CheckFriendRelation e first second d =
     with_connection e None
       (io_catch
          (io_bind (select (count_relation first second)) (\<lambda>n. io_return (Some (n = 2))))
          (io_return None)) d"

definition AreFriends :: "sql_env \<Rightarrow> int \<Rightarrow> int \<Rightarrow> chat_db \<Rightarrow> bool outcome \<times> chat_db" where
  "AreFriends e first second d =
     (case CheckFriendRelation e first second d of
        (Throws, d1) \<Rightarrow> (Throws, d1)
      | (Returns r, d1) \<Rightarrow> (Returns (case r of None \<Rightarrow> False | Some b \<Rightarrow> b), d1))"

text \<open>What a batch does when nothing fails: the reference for \<open>PersistTextMessages\<close>.\<close>

definition holds_message :: "(string \<Rightarrow> string) \<Rightarrow> chat_db \<Rightarrow> text_message \<Rightarrow> bool" where
  "holds_message ck d m =
     (case find_message ck (sender_uid m) (client_message_id m) d of
        None \<Rightarrow> False
      | Some r \<Rightarrow> receiver_uid (m_msg r) = receiver_uid m \<and> content (m_msg r) = content m)"

fun insert_all :: "(string \<Rightarrow> string) \<Rightarrow> text_message list \<Rightarrow> chat_db \<Rightarrow> chat_db option" where
  "insert_all ck [] d = Some d"
| "insert_all ck (m # ms) d =
     (case insert_message ck m d of
        None \<Rightarrow> None
      | Some (_, d1) \<Rightarrow> if holds_message ck d1 m then insert_all ck ms d1 else None)"

lemma find_append: "find P (xs @ ys) = (case find P xs of None \<Rightarrow> find P ys | Some x \<Rightarrow> Some x)"
  by (induction xs) auto

lemma insert_message_cases:
  assumes "insert_message ck m d = Some (u, d1)"
  obtains "d1 = d" "find_message ck (sender_uid m) (client_message_id m) d \<noteq> None"
  | "find_message ck (sender_uid m) (client_message_id m) d = None"
    "uid_exists d (sender_uid m)" "uid_exists d (receiver_uid m)"
    "d1 = d\<lparr>message_rows := message_rows d @ [\<lparr>m_msg = m, acknowledged_at = None\<rparr>]\<rparr>"
  using assms by (auto simp: insert_message_def split: if_splits)

lemma find_message_keep:
  "insert_message ck m d = Some (u, d1) \<Longrightarrow> find_message ck s cid d = Some r \<Longrightarrow> find_message ck s cid d1 = Some r"
  by (erule insert_message_cases) (auto simp: find_message_def find_append)

lemma holds_message_keep: "insert_message ck m d = Some (u, d1) \<Longrightarrow> holds_message ck d m' \<Longrightarrow> holds_message ck d1 m'"
  by (auto simp: holds_message_def find_message_keep split: option.splits)

lemma insert_message_held: "holds_message ck d m \<Longrightarrow> insert_message ck m d = Some ((), d)"
  by (auto simp: holds_message_def insert_message_def split: option.splits)

lemma insert_message_ok: "insert_message ck m d = Some (u, d1) \<Longrightarrow> messages_ok ck d \<Longrightarrow> messages_ok ck d1"
  by (erule insert_message_cases)
    (auto simp: messages_ok_def find_message_def find_None_iff message_col_key_def)

lemma insert_message_frame:
  "insert_message ck m d = Some (u, d1) \<Longrightarrow> d1 = d\<lparr>message_rows := message_rows d1\<rparr>"
  by (erule insert_message_cases) auto

lemma insert_all_keep: "insert_all ck ms d = Some d' \<Longrightarrow> holds_message ck d m \<Longrightarrow> holds_message ck d' m"
  by (induction ms arbitrary: d) (auto split: option.splits if_splits dest: holds_message_keep)

lemma insert_all_holds: "insert_all ck ms d = Some d' \<Longrightarrow> m \<in> set ms \<Longrightarrow> holds_message ck d' m"
  by (induction ms arbitrary: d) (auto split: option.splits if_splits dest: insert_all_keep)

lemma insert_all_held: "\<forall>m \<in> set ms. holds_message ck d m \<Longrightarrow> insert_all ck ms d = Some d"
  by (induction ms) (auto simp: insert_message_held)

lemma insert_all_idem: "insert_all ck ms d = Some d' \<Longrightarrow> insert_all ck ms d' = Some d'"
  by (rule insert_all_held) (auto dest: insert_all_holds)

lemma insert_all_ok: "insert_all ck ms d = Some d' \<Longrightarrow> db_ok ck d \<Longrightarrow> db_ok ck d'"
proof (induction ms arbitrary: d)
  case (Cons m ms)
  then obtain d1 where ins: "insert_message ck m d = Some ((), d1)" and rest: "insert_all ck ms d1 = Some d'"
    by (auto split: option.splits if_splits)
  have "db_ok ck d1"
    using insert_message_ok [OF ins] insert_message_frame [OF ins] Cons.prems(2)
    by (metis db_ok_def friends_ok_frame(1) applies_ok_frame(1))
  then show ?case
    using Cons.IH rest by blast
qed simp

text \<open>Inside a transaction nothing becomes durable, whatever fails.\<close>

lemma persist_loop_wp:
  assumes "in_tx d c"
  shows "wp (persist_loop ck ms)
    (\<lambda>ok c'. in_tx d c' \<and> (ok \<longrightarrow> insert_all ck ms (working c) = Some (working c')))
    (in_tx d) c"
  using assms
proof (induction ms arbitrary: c)
  case Nil
  then show ?case by (simp add: wp_return)
next
  case (Cons m ms)
  have step: "wp (select (find_message ck (sender_uid m) (client_message_id m)))
      (\<lambda>row. wp (case row of None \<Rightarrow> io_return False | Some r \<Rightarrow>
          if receiver_uid (m_msg r) \<noteq> receiver_uid m \<or> content (m_msg r) \<noteq> content m
          then io_return False else persist_loop ck ms)
        (\<lambda>ok c'. in_tx d c' \<and> (ok \<longrightarrow> insert_all ck (m # ms) (working c) = Some (working c'))) (in_tx d))
      (in_tx d) c1"
    if c1: "in_tx d c1" "insert_message ck m (working c) = Some ((), working c1)" for c1
  proof (rule wp_select)
    fix fs
    let ?c2 = "c1\<lparr>faults := fs, durable := if autocommit c1 then working c1 else durable c1\<rparr>"
    show "wp (case find_message ck (sender_uid m) (client_message_id m) (working c1) of
          None \<Rightarrow> io_return False | Some r \<Rightarrow>
          if receiver_uid (m_msg r) \<noteq> receiver_uid m \<or> content (m_msg r) \<noteq> content m
          then io_return False else persist_loop ck ms)
        (\<lambda>ok c'. in_tx d c' \<and> (ok \<longrightarrow> insert_all ck (m # ms) (working c) = Some (working c'))) (in_tx d) ?c2"
      using c1(1) Cons.IH [of "c1\<lparr>faults := fs\<rparr>"]
      by (auto split: option.split intro!: wp_return simp: c1(2) holds_message_def)
  qed (use c1 in auto)
  show ?case
    unfolding persist_loop.simps
  proof (rule wp_then, rule wp_statement, goal_cases)
    case (3 a w fs)
    then show ?case
      by (intro wp_bind step) (use Cons.prems in simp_all)
  qed (use Cons.prems in auto)
qed

lemma PersistTextMessages_eq:
  "PersistTextMessages ck e ms d =
     (if ms = [] then (Returns False, d) else with_connection e False (transaction (persist_loop ck ms)) d)"
  by (simp add: PersistTextMessages_def transaction_def)

lemma PersistTextMessages_spec:
  assumes "ms \<noteq> []" and "PersistTextMessages ck e ms d = (r, d')"
  shows "(r = Returns True \<and> insert_all ck ms d = Some d')
    \<or> (r = Returns False \<and> (d' = d \<or> insert_all ck ms d = Some d'))"
proof -
  have "wp (persist_loop ck ms) (\<lambda>ok c'. in_tx d c' \<and> (ok \<longrightarrow> insert_all ck ms d = Some (working c'))) (in_tx d) c"
    if "in_tx d c" "working c = d" for c
    using persist_loop_wp [OF that(1), of ck ms] that(2) by simp
  then show ?thesis
    using assms transaction_call [of d "persist_loop ck ms" "\<lambda>d'. insert_all ck ms d = Some d'" e r d']
    by (simp add: PersistTextMessages_eq)
qed

lemma persist_loop_clean:
  "faults c = [] \<Longrightarrow> \<not> autocommit c \<Longrightarrow> insert_all ck ms (working c) = Some w \<Longrightarrow>
   persist_loop ck ms c = (Returns True, c\<lparr>working := w\<rparr>)"
proof (induction ms arbitrary: c)
  case (Cons m ms)
  obtain d1 where ins: "insert_message ck m (working c) = Some ((), d1)" and "holds_message ck d1 m"
    and rest: "insert_all ck ms d1 = Some w"
    using Cons.prems(3) by (auto split: option.splits if_splits)
  then show ?case
    using Cons.prems(1,2) Cons.IH [of "c\<lparr>working := d1\<rparr>"]
    by (auto simp: io_simps clean_simps holds_message_def split: option.splits)
qed (simp add: io_simps)

lemma PersistTextMessages_clean:
  assumes "available e" and "sql_faults e = []" and "ms \<noteq> []"
  shows "PersistTextMessages ck e ms d =
    (case insert_all ck ms d of None \<Rightarrow> (Returns False, d) | Some d' \<Rightarrow> (Returns True, d'))"
proof (cases "insert_all ck ms d")
  case None
  then show ?thesis
    using PersistTextMessages_spec [OF assms(3), of ck e d] by (cases "PersistTextMessages ck e ms d") auto
next
  case (Some d')
  then show ?thesis
    using assms by (simp add: PersistTextMessages_eq with_connection_def transaction_def io_simps clean_simps
        fresh_conn_def persist_loop_clean [of _ ck ms d'])
qed

fun persist_attempts ::
  "(string \<Rightarrow> string) \<Rightarrow> sql_env list \<Rightarrow> text_message list \<Rightarrow> chat_db \<Rightarrow> bool \<times> chat_db" where
  "persist_attempts ck [] ms d = (False, d)"
| "persist_attempts ck (e # es) ms d =
     (case PersistTextMessages ck e ms d of
        (r, d1) \<Rightarrow> (case persist_attempts ck es ms d1 of (ok, d2) \<Rightarrow> (r = Returns True \<or> ok, d2)))"

lemma persist_attempts_spec:
  assumes "ms \<noteq> []" and "persist_attempts ck es ms d = (ok, d')"
  shows "insert_all ck ms d = Some d' \<or> (\<not> ok \<and> d' = d)"
  using assms(2)
proof (induction es arbitrary: d ok)
  case (Cons e es)
  obtain r d1 where one: "PersistTextMessages ck e ms d = (r, d1)"
    by fastforce
  obtain ok2 where rest: "persist_attempts ck es ms d1 = (ok2, d')" and ok: "ok = (r = Returns True \<or> ok2)"
    using Cons.prems one by (auto split: prod.splits)
  show ?case
    using PersistTextMessages_spec [OF assms(1) one] Cons.IH [OF rest] ok
      insert_all_idem [of ck ms d d1] by auto
qed simp

text \<open>Acknowledgement.\<close>

definition ack_all ::
  "(string \<Rightarrow> string) \<Rightarrow> time \<Rightarrow> int \<Rightarrow> int \<Rightarrow> string list \<Rightarrow> chat_db \<Rightarrow> chat_db" where
  "ack_all ck now receiver sender cids d = fold (acknowledge_one ck now receiver sender) cids d"

lemma pending_acknowledge_one:
  "pending_messages u (acknowledge_one ck now receiver sender cid d) =
     filter (\<lambda>m. \<not> (u = receiver \<and> sender_uid m = sender \<and> ck (client_message_id m) = ck cid))
       (pending_messages u d)"
proof -
  have "map m_msg (filter (\<lambda>r. receiver_uid (m_msg r) = u \<and> acknowledged_at r = None)
          (map (acknowledge_row ck now receiver sender cid) rs)) =
        filter (\<lambda>m. \<not> (u = receiver \<and> sender_uid m = sender \<and> ck (client_message_id m) = ck cid))
          (map m_msg (filter (\<lambda>r. receiver_uid (m_msg r) = u \<and> acknowledged_at r = None) rs))" for rs
    by (induction rs) (auto simp: acknowledge_row_def message_col_key_def)
  then show ?thesis
    by (simp add: pending_messages_def acknowledge_one_def)
qed

lemma pending_ack_all:
  "pending_messages u (ack_all ck now receiver sender cids d) =
     filter (\<lambda>m. \<not> (u = receiver \<and> sender_uid m = sender \<and> ck (client_message_id m) \<in> ck ` set cids))
       (pending_messages u d)"
  unfolding ack_all_def
  by (induction cids arbitrary: d) (auto simp: pending_acknowledge_one intro: filter_cong)

lemma acknowledge_one_rows:
  "map m_msg (message_rows (acknowledge_one ck now receiver sender cid d)) = map m_msg (message_rows d)"
  by (simp add: acknowledge_one_def acknowledge_row_def)

lemma ack_all_rows: "map m_msg (message_rows (ack_all ck now receiver sender cids d)) = map m_msg (message_rows d)"
  unfolding ack_all_def by (induction cids arbitrary: d) (simp_all add: acknowledge_one_rows)

lemma ack_all_frame [simp]:
  "user_rows (ack_all ck now receiver sender cids d) = user_rows d"
  "friend_rows (ack_all ck now receiver sender cids d) = friend_rows d"
  "apply_rows (ack_all ck now receiver sender cids d) = apply_rows d"
  "next_apply_id (ack_all ck now receiver sender cids d) = next_apply_id d"
  unfolding ack_all_def by (induction cids arbitrary: d) (simp_all add: acknowledge_one_def)

lemma ack_all_ok:
  assumes "db_ok ck d" shows "db_ok ck (ack_all ck now receiver sender cids d)"
proof -
  have "messages_ok ck d"
    using assms unfolding db_ok_def by blast
  then have "messages_ok ck (ack_all ck now receiver sender cids d)"
    by (rule messages_ok_same_messages [OF _ ack_all_rows ack_all_frame(1)])
  then show ?thesis
    by (rule db_ok_messages [OF assms]) (rule ack_all_frame)+
qed

lemma acknowledge_loop_wp:
  assumes "in_tx d c"
  shows "wp (acknowledge_loop ck now receiver sender cids)
    (\<lambda>_ c'. in_tx d c' \<and> working c' = ack_all ck now receiver sender cids (working c)) (in_tx d) c"
  using assms
proof (induction cids arbitrary: c)
  case Nil
  then show ?case by (simp add: wp_return ack_all_def)
next
  case (Cons cid cids)
  show ?case
    unfolding acknowledge_loop.simps
  proof (rule wp_then, rule wp_statement, goal_cases)
    case (3 a w fs)
    then show ?case
      using Cons.prems Cons.IH [of "c\<lparr>faults := fs, working := acknowledge_one ck now receiver sender cid (working c)\<rparr>"]
      by (auto simp: ack_all_def)
  qed (use Cons.prems in auto)
qed

lemma AcknowledgeTextMessages_eq:
  "AcknowledgeTextMessages ck e receiver sender cids d =
     (if receiver \<le> 0 \<or> sender \<le> 0 \<or> cids = [] then (Returns False, d)
      else with_connection e False
        (transaction (io_then (acknowledge_loop ck (sql_now e) receiver sender cids) (io_return True))) d)"
  by (simp add: AcknowledgeTextMessages_def transaction_def io_bind_then_return)

lemma AcknowledgeTextMessages_spec:
  assumes "0 < receiver" and "0 < sender" and "cids \<noteq> []"
    and "AcknowledgeTextMessages ck e receiver sender cids d = (r, d')"
  shows "(r = Returns True \<and> d' = ack_all ck (sql_now e) receiver sender cids d)
    \<or> (r = Returns False \<and> (d' = d \<or> d' = ack_all ck (sql_now e) receiver sender cids d))"
proof -
  have "wp (io_then (acknowledge_loop ck (sql_now e) receiver sender cids) (io_return True))
      (\<lambda>ok c'. in_tx d c' \<and> (ok \<longrightarrow> working c' = ack_all ck (sql_now e) receiver sender cids d)) (in_tx d) c"
    if "in_tx d c" "working c = d" for c
    by (rule wp_then, rule wp_mono [OF acknowledge_loop_wp [OF that(1)]]) (simp_all add: that wp_return)
  then show ?thesis
    using assms transaction_call [of d "io_then (acknowledge_loop ck (sql_now e) receiver sender cids) (io_return True)"
        "\<lambda>d'. d' = ack_all ck (sql_now e) receiver sender cids d" e r d']
    by (simp add: AcknowledgeTextMessages_eq)
qed

lemma GetPendingTextMessages_spec:
  assumes "GetPendingTextMessages e receiver limit d = (r, d')"
  shows "d' = d \<and> (r = Returns None \<or>
    (0 < receiver \<and> 0 < limit \<and> r = Returns (Some (take (nat limit) (pending_messages receiver d)))))"
proof -
  let ?body = "io_catch
           (io_bind (select (\<lambda>d. take (nat limit) (pending_messages receiver d)))
              (\<lambda>messages. io_return (Some messages)))
           (io_return None)"
  let ?Q = "\<lambda>a d'. d' = d \<and> (a = None \<or> a = Some (take (nat limit) (pending_messages receiver d)))"
  have "wp ?body (\<lambda>a c. ?Q a (durable c)) (\<lambda>_. False) (fresh_conn d (sql_faults e))"
    by (auto intro!: wp_rules)
  from with_connection_cases [OF this, of None r d'] show ?thesis
    using assms by (cases r) (auto simp: GetPendingTextMessages_def split: if_splits)
qed

lemma CheckFriendRelation_spec:
  assumes "CheckFriendRelation e a b d = (r, d')"
  shows "d' = d \<and> (r = Returns None \<or> r = Returns (Some (count_relation a b d = 2)))"
proof -
  let ?body = "io_catch
          (io_bind (select (count_relation a b)) (\<lambda>n. io_return (Some (n = 2))))
          (io_return None)"
  let ?Q = "\<lambda>r d'. d' = d \<and> (r = None \<or> r = Some (count_relation a b d = 2))"
  have "wp ?body (\<lambda>a c. ?Q a (durable c)) (\<lambda>_. False) (fresh_conn d (sql_faults e))"
    by (auto intro!: wp_rules)
  from with_connection_cases [OF this, of None r d'] show ?thesis
    using assms by (cases r) (auto simp: CheckFriendRelation_def)
qed

text \<open>Because rows are unique, the count is two exactly when both directions are there.\<close>

lemma count_relation_iff:
  assumes "friends_ok d" and "a \<noteq> b"
  shows "count_relation a b d = 2 \<longleftrightarrow> mutual_friends d a b"
proof -
  let ?f = "\<lambda>r. (self_id r, friend_id r)"
  have "count_relation a b d = length (filter (\<lambda>r. ?f r \<in> {(a, b), (b, a)}) (friend_rows d))"
    by (auto simp: count_relation_def intro!: arg_cong [where f = length] filter_cong)
  also have "\<dots> = card (?f ` set (friend_rows d) \<inter> {(a, b), (b, a)})"
    by (rule length_filter_keys) (use assms(1) in \<open>simp add: friends_ok_def\<close>)
  finally have "count_relation a b d = 2 \<longleftrightarrow> (a, b) \<in> ?f ` set (friend_rows d) \<and> (b, a) \<in> ?f ` set (friend_rows d)"
    using assms(2) by (simp add: Int_insert_right)
  moreover have "has_friend_row d x y \<longleftrightarrow> (x, y) \<in> ?f ` set (friend_rows d)" for x y
    by (auto simp: has_friend_row_def list_ex_iff image_iff)
  ultimately show ?thesis
    by (simp add: mutual_friends_def)
qed

interpretation mysql_messages: message_store "db_ok ck" mutual_friends "holds_message ck"
  "CheckFriendRelation e1" "PersistTextMessages ck e2" for ck e1 e2
proof (unfold_locales, goal_cases)
  case (1 a b s fr s')
  then show ?case
    using CheckFriendRelation_spec by blast
next
  case (2 s a b ok s')
  then show ?case
    using CheckFriendRelation_spec [OF 2(3)] count_relation_iff [OF _ 2(2), of s] by (simp add: db_ok_def)
next
  case (3 s ms r s')
  then show ?case
    using PersistTextMessages_spec [of ms ck e2 s r s'] insert_all_ok
    by (cases "ms = []") (auto simp: PersistTextMessages_def)
next
  case (4 ms s s' m)
  then show ?case
    using PersistTextMessages_spec [of ms ck e2 s "Returns True" s'] insert_all_holds by (cases "ms = []") auto
next
  case (5 ms s r s')
  then show ?case
    using PersistTextMessages_spec [of ms ck e2 s r s'] insert_all_holds by (cases "ms = []") auto
next
  case (6 ms s r s' m)
  then show ?case
    using PersistTextMessages_spec [of ms ck e2 s r s'] insert_all_keep
    by (cases "ms = []") (auto simp: PersistTextMessages_def)
qed

definition column_key :: "(string \<Rightarrow> string) \<Rightarrow> text_message \<Rightarrow> int \<times> string" where
  "column_key ck m = (sender_uid m, ck (client_message_id m))"

definition new_row :: "text_message \<Rightarrow> message_row" where
  "new_row m = \<lparr>m_msg = m, acknowledged_at = None\<rparr>"

lemma find_message_None:
  "find_message ck (sender_uid m) (client_message_id m) d = None \<longleftrightarrow>
     column_key ck m \<notin> set (map (message_col_key ck) (message_rows d))"
  by (force simp: find_message_def find_None_iff column_key_def)

lemma new_row_key [simp]: "message_col_key ck (new_row m) = column_key ck m"
  by (simp add: new_row_def message_col_key_def column_key_def)

lemma insert_all_fresh:
  assumes "distinct (map (column_key ck) ms)"
    and "\<forall>m \<in> set ms. column_key ck m \<notin> set (map (message_col_key ck) (message_rows d))"
    and "insert_all ck ms d = Some d'"
  shows "d' = d\<lparr>message_rows := message_rows d @ map new_row ms\<rparr>"
  using assms
proof (induction ms arbitrary: d)
  case (Cons m ms)
  let ?d1 = "d\<lparr>message_rows := message_rows d @ [new_row m]\<rparr>"
  have "find_message ck (sender_uid m) (client_message_id m) d = None"
    using Cons.prems(2) by (simp add: find_message_None)
  then have "insert_all ck ms ?d1 = Some d'"
    using Cons.prems(3) by (auto simp: insert_message_def new_row_def split: option.splits if_splits)
  moreover have "\<forall>m' \<in> set ms. column_key ck m' \<notin> set (map (message_col_key ck) (message_rows ?d1))"
    using Cons.prems(1,2) by (auto simp: image_iff)
  ultimately show ?case
    using Cons.IH [of ?d1] Cons.prems(1) by simp
qed simp

text \<open>A small database for the examples: two users who are friends, and one stored message.\<close>

definition sample_user :: "int \<Rightarrow> user_row" where
  "sample_user u = \<lparr>u_uid = u, u_name = ''u'', u_email = ''e'', u_pwd = [], u_scheme = [], u_nick = [],
     u_desc = [], u_sex = 0, u_icon = []\<rparr>"

definition sample_message :: "string \<Rightarrow> string \<Rightarrow> text_message" where
  "sample_message cid txt = \<lparr>client_message_id = cid, sender_uid = 1, receiver_uid = 2, content = txt\<rparr>"

definition sample_db :: chat_db where
  "sample_db = \<lparr>user_rows = map sample_user [1, 2],
     friend_rows = [\<lparr>self_id = 1, friend_id = 2, f_back = []\<rparr>, \<lparr>self_id = 2, friend_id = 1, f_back = []\<rparr>],
     apply_rows = [], next_apply_id = 1, message_rows = [new_row (sample_message ''a'' ''hello'')]\<rparr>"

lemmas sample_simps = sample_db_def sample_user_def sample_message_def new_row_def column_key_def
  message_col_key_def find_message_def uid_exists_def

text \<open>
  C4: Messages are stored exactly once. Let a batch of new messages be persisted by any number
  of attempts, each failing in any way at any call (including a commit whose answer is lost).
  Afterwards the table is either untouched, and then no attempt was reported as successful, or
  it is the old table with each message of the batch appended once, unacknowledged and in order.
\<close>

theorem persist_exactly_once:
  assumes "ms \<noteq> []" and "distinct (map (column_key ck) ms)"
    and "\<forall>m \<in> set ms. column_key ck m \<notin> set (map (message_col_key ck) (message_rows d))"
    and "persist_attempts ck es ms d = (ok, d')"
  shows "d' = d\<lparr>message_rows := message_rows d @ map new_row ms\<rparr> \<or> (\<not> ok \<and> d' = d)"
  using persist_attempts_spec [OF assms(1,4)] insert_all_fresh [OF assms(2,3)] by blast

theorem persist_exactly_once_witness:
  "case persist_attempts (\<lambda>x. x)
      [\<lparr>available = True, sql_faults = [NoFault, NoFault, NoFault, Unanswered], sql_now = 0\<rparr>,
       \<lparr>available = True, sql_faults = [], sql_now = 0\<rparr>] [sample_message ''b'' ''hi''] sample_db of
     (ok, d') \<Rightarrow>
       d' = sample_db\<lparr>message_rows := [new_row (sample_message ''a'' ''hello''), new_row (sample_message ''b'' ''hi'')]\<rparr>
       \<or> (\<not> ok \<and> d' = sample_db)"
  (is "case ?run of (ok, d') \<Rightarrow> ?P ok d'")
proof -
  obtain ok d' where run: "?run = (ok, d')"
    by fastforce
  have "d' = sample_db\<lparr>message_rows := message_rows sample_db @ map new_row [sample_message ''b'' ''hi'']\<rparr>
      \<or> (\<not> ok \<and> d' = sample_db)"
    by (rule persist_exactly_once [OF _ _ _ run]) (simp_all add: sample_simps)
  then show ?thesis
    unfolding run prod.case by (simp add: sample_db_def)
qed

text \<open>
  C40: An identifier is never rebound. If one message of a batch carries the identifier of a stored
  message with another receiver or another content, the whole batch is refused and the tables
  stay as they are, under every failure.
\<close>

theorem persist_conflict_refused:
  assumes "m \<in> set ms" and "find_message ck (sender_uid m) (client_message_id m) d = Some r"
    and "receiver_uid (m_msg r) \<noteq> receiver_uid m \<or> content (m_msg r) \<noteq> content m"
  shows "PersistTextMessages ck e ms d = (Returns False, d)"
proof -
  have "find_message ck (sender_uid m) (client_message_id m) d' = Some r" if "insert_all ck ns d = Some d'" for ns d'
    using that assms(2) by (induction ns arbitrary: d)
      (auto split: option.splits if_splits dest: find_message_keep)
  then have "insert_all ck ms d = None"
    using assms(3) insert_all_holds [OF _ assms(1), of ck d] by (fastforce simp: holds_message_def)
  then show ?thesis
    using PersistTextMessages_spec [of ms ck e d] assms(1)
    by (cases "PersistTextMessages ck e ms d") fastforce
qed

theorem persist_conflict_refused_witness:
  "PersistTextMessages (\<lambda>x. x) \<lparr>available = True, sql_faults = [], sql_now = 0\<rparr>
     [sample_message ''b'' ''hi'', sample_message ''a'' ''other''] sample_db = (Returns False, sample_db)"
  by (rule persist_conflict_refused [of "sample_message ''a'' ''other''" _ _ _
        "new_row (sample_message ''a'' ''hello'')"])
    (simp_all add: sample_simps)

text \<open>
  C27: Acceptance is sound end to end on the MySQL tables. Whatever fails, accepting a batch
  leaves the tables well formed and stores all of it or none of it; it answers \<open>Accepted\<close> only
  for an admissible batch between two users who are friends in both directions, and then every
  message of the batch is stored with its receiver and content; between users who are not
  friends in both directions nothing is ever accepted or stored.
\<close>

theorem accept_on_mysql:
  assumes "db_ok ck d" and "accept (CheckFriendRelation e1) (PersistTextMessages ck e2) a b ms d = (res, d')"
  shows "db_ok ck d' \<and> (d' = d \<or> (\<forall>m \<in> set ms. holds_message ck d' m))
    \<and> (res = Accepted \<longrightarrow> admissible a b ms \<and> mutual_friends d a b \<and> (\<forall>m \<in> set ms. holds_message ck d' m))
    \<and> (\<not> mutual_friends d a b \<longrightarrow> res \<noteq> Accepted \<and> d' = d)"
proof -
  have "a = b \<longrightarrow> res = InvalidRecipient \<and> d' = d"
    using assms(2) by (auto simp: accept_def)
  then show ?thesis
    using mysql_messages.accept_all_or_nothing [OF assms] mysql_messages.accept_strangers [OF assms(1) _ _ assms(2)]
      mysql_messages.accept_sound [OF assms(1), of e1 e2 a b ms d'] assms(2)
    by blast
qed

theorem accept_on_mysql_witness:
  "case accept (CheckFriendRelation \<lparr>available = True, sql_faults = [], sql_now = 0\<rparr>)
      (PersistTextMessages (\<lambda>x. x) \<lparr>available = True, sql_faults = [Lost], sql_now = 0\<rparr>) 1 3
      [sample_message ''b'' ''hi''] sample_db of
     (res, d') \<Rightarrow> res \<noteq> Accepted \<and> d' = sample_db"
proof -
  have "db_ok (\<lambda>x. x) sample_db"
    by (simp add: db_ok_def messages_ok_def friends_ok_def applies_ok_def sample_simps)
  moreover have "\<not> mutual_friends sample_db 1 3"
    by (simp add: mutual_friends_def has_friend_row_def sample_simps)
  ultimately show ?thesis
    using accept_on_mysql [of "\<lambda>x. x" sample_db] by (fastforce split: prod.split)
qed

end
