(* ===== verification/Mailbox_Spec.thy ===== *)
theory Mailbox_Spec
  imports Message_Db
begin

text \<open>
  What the message methods of the access layer promise, without tables, transactions and connections: a mailbox
  knows for every sender and identifier what was posted under it, and keeps for every user the messages that
  wait for an acknowledgement, oldest first. The methods on the database refine it.
\<close>

record mailbox =
  known :: "int set"
  posted :: "int \<times> string \<Rightarrow> (int \<times> string) option"
  waiting :: "int \<Rightarrow> text_message list"

section \<open>The specification\<close>

text \<open>An identifier is bound once; posting the same message again changes nothing, and posting another one fails.\<close>

definition post :: "(string \<Rightarrow> string) \<Rightarrow> text_message \<Rightarrow> mailbox \<Rightarrow> mailbox option" where
  "post ck m B =
     (case posted B (column_key ck m) of
        Some (r, c) \<Rightarrow> if r = receiver_uid m \<and> c = content m then Some B else None
      | None \<Rightarrow>
          if sender_uid m \<notin> known B \<or> receiver_uid m \<notin> known B then None
          else Some (B\<lparr>posted := (posted B)(column_key ck m \<mapsto> (receiver_uid m, content m)),
                       waiting := (waiting B)(receiver_uid m := waiting B (receiver_uid m) @ [m])\<rparr>))"

fun post_all :: "(string \<Rightarrow> string) \<Rightarrow> text_message list \<Rightarrow> mailbox \<Rightarrow> mailbox option" where
  "post_all ck [] B = Some B"
| "post_all ck (m # ms) B = Option.bind (post ck m B) (post_all ck ms)"

definition take_out :: "(string \<Rightarrow> string) \<Rightarrow> int \<Rightarrow> int \<Rightarrow> string list \<Rightarrow> mailbox \<Rightarrow> mailbox" where
  "take_out ck receiver sender cids B =
     B\<lparr>waiting := (waiting B)(receiver :=
        filter (\<lambda>m. \<not> (sender_uid m = sender \<and> ck (client_message_id m) \<in> ck ` set cids)) (waiting B receiver))\<rparr>"

datatype mail_call = Post "text_message list" | TakeOut int int "string list" | Look int int

datatype mail_answer = Done bool | Found "text_message list option"

text \<open>The answer when nothing fails.\<close>

fun mail_exec :: "(string \<Rightarrow> string) \<Rightarrow> mail_call \<Rightarrow> mailbox \<Rightarrow> mail_answer \<times> mailbox" where
  "mail_exec ck (Post ms) B =
     (if ms = [] then (Done False, B)
      else case post_all ck ms B of None \<Rightarrow> (Done False, B) | Some B' \<Rightarrow> (Done True, B'))"
| "mail_exec ck (TakeOut receiver sender cids) B =
     (if receiver \<le> 0 \<or> sender \<le> 0 \<or> cids = [] then (Done False, B) else (Done True, take_out ck receiver sender cids B))"
| "mail_exec ck (Look u limit) B =
     (if u \<le> 0 \<or> limit \<le> 0 then (Found None, B) else (Found (Some (take (nat limit) (waiting B u))), B))"

fun negative :: "mail_call \<Rightarrow> mail_answer" where
  "negative (Look u limit) = Found None"
| "negative _ = Done False"

text \<open>
  A call may fail: then its answer is negative, and it has been carried out completely or not at all. It
  never answers positively without having been carried out.
\<close>

inductive mail_step :: "(string \<Rightarrow> string) \<Rightarrow> mail_call \<Rightarrow> mail_answer \<Rightarrow> mailbox \<Rightarrow> mailbox \<Rightarrow> bool" for ck where
  carried_out: "mail_exec ck call B = (answer, B') \<Longrightarrow> mail_step ck call answer B B'"
| failed: "mail_step ck call (negative call) B B"
| unanswered: "mail_exec ck call B = (answer, B') \<Longrightarrow> mail_step ck call (negative call) B B'"

inductive mail_run :: "(string \<Rightarrow> string) \<Rightarrow> (mail_call \<times> mail_answer) list \<Rightarrow> mailbox \<Rightarrow> mailbox \<Rightarrow> bool" for ck where
  run_done: "mail_run ck [] B B"
| run_call: "mail_step ck call answer B B' \<Longrightarrow> mail_run ck rest B' B'' \<Longrightarrow> mail_run ck ((call, answer) # rest) B B''"

section \<open>The methods as calls\<close>

definition done_of :: "bool outcome \<Rightarrow> mail_answer" where
  "done_of r = (case r of Returns b \<Rightarrow> Done b | Throws \<Rightarrow> Done False)"

fun db_mail :: "(string \<Rightarrow> string) \<Rightarrow> sql_env \<Rightarrow> mail_call \<Rightarrow> chat_db \<Rightarrow> mail_answer \<times> chat_db" where
  "db_mail ck e (Post ms) d = (case PersistTextMessages ck e ms d of (r, d') \<Rightarrow> (done_of r, d'))"
| "db_mail ck e (TakeOut receiver sender cids) d =
     (case AcknowledgeTextMessages ck e receiver sender cids d of (r, d') \<Rightarrow> (done_of r, d'))"
| "db_mail ck e (Look u limit) d =
     (case GetPendingTextMessages e u limit d of (r, d') \<Rightarrow> (Found (case r of Returns f \<Rightarrow> f | Throws \<Rightarrow> None), d'))"

fun db_mail_run :: "(string \<Rightarrow> string) \<Rightarrow> (sql_env \<times> mail_call) list \<Rightarrow> chat_db \<Rightarrow> mail_answer list \<times> chat_db" where
  "db_mail_run ck [] d = ([], d)"
| "db_mail_run ck ((e, call) # rest) d =
     (case db_mail ck e call d of (a, d1) \<Rightarrow> (case db_mail_run ck rest d1 of (as, d2) \<Rightarrow> (a # as, d2)))"

definition mailbox_of :: "(string \<Rightarrow> string) \<Rightarrow> chat_db \<Rightarrow> mailbox" where
  "mailbox_of ck d =
     \<lparr>known = {u. uid_exists d u},
      posted = (\<lambda>k. map_option (\<lambda>r. (receiver_uid (m_msg r), content (m_msg r))) (find (\<lambda>r. message_col_key ck r = k) (message_rows d))),
      waiting = (\<lambda>u. pending_messages u d)\<rparr>"

section \<open>Refinement\<close>

lemma posted_find:
  "posted (mailbox_of ck d) (column_key ck m) =
     map_option (\<lambda>r. (receiver_uid (m_msg r), content (m_msg r))) (find_message ck (sender_uid m) (client_message_id m) d)"
  by (simp add: mailbox_of_def find_message_def column_key_def)

text \<open>Inserting a message and comparing the stored one with it is posting.\<close>

lemma insert_posts:
  "map_option (mailbox_of ck)
     (case insert_message ck m d of None \<Rightarrow> None | Some (_, d1) \<Rightarrow> if holds_message ck d1 m then Some d1 else None)
   = post ck m (mailbox_of ck d)"
proof (cases "find_message ck (sender_uid m) (client_message_id m) d")
  case (Some r)
  then show ?thesis
    by (simp add: insert_message_def post_def posted_find holds_message_def)
next
  case None
  let ?d1 = "d\<lparr>message_rows := message_rows d @ [\<lparr>m_msg = m, acknowledged_at = None\<rparr>]\<rparr>"
  have "find_message ck (sender_uid m) (client_message_id m) ?d1 = Some \<lparr>m_msg = m, acknowledged_at = None\<rparr>"
    using None by (simp add: find_message_def find_append message_col_key_def)
  then have held: "holds_message ck ?d1 m"
    by (simp add: holds_message_def)
  have "find (\<lambda>r. message_col_key ck r = k) (message_rows ?d1) =
      (if k = column_key ck m then Some \<lparr>m_msg = m, acknowledged_at = None\<rparr> else find (\<lambda>r. message_col_key ck r = k) (message_rows d))" for k
    using None by (auto simp: find_append find_message_def column_key_def message_col_key_def split: option.splits)
  moreover have "pending_messages u ?d1 = (if u = receiver_uid m then pending_messages u d @ [m] else pending_messages u d)" for u
    by (simp add: pending_messages_def)
  ultimately have "mailbox_of ck ?d1 = (mailbox_of ck d)
      \<lparr>posted := (posted (mailbox_of ck d))(column_key ck m \<mapsto> (receiver_uid m, content m)),
       waiting := (waiting (mailbox_of ck d))(receiver_uid m := waiting (mailbox_of ck d) (receiver_uid m) @ [m])\<rparr>"
    by (auto simp: mailbox_of_def fun_eq_iff)
  then show ?thesis
    using None held by (auto simp: insert_message_def post_def posted_find) (simp_all add: mailbox_of_def)
qed

lemma insert_all_posts: "map_option (mailbox_of ck) (insert_all ck ms d) = post_all ck ms (mailbox_of ck d)"
proof (induction ms arbitrary: d)
  case (Cons m ms)
  show ?case
    using insert_posts [of ck m d] Cons.IH
    by (cases "insert_message ck m d") (auto simp flip: insert_posts split: if_splits)
qed simp

lemma find_map_key: "(\<And>x. P (f x) = P x) \<Longrightarrow> find P (map f xs) = map_option f (find P xs)"
  by (induction xs) auto

lemma ack_takes_out: "mailbox_of ck (ack_all ck now receiver sender cids d) = take_out ck receiver sender cids (mailbox_of ck d)"
proof -
  have one: "posted (mailbox_of ck (acknowledge_one ck now receiver sender cid d)) = posted (mailbox_of ck d)" for cid d
  proof -
    have key: "message_col_key ck (acknowledge_row ck now receiver sender cid r) = message_col_key ck r"
      "m_msg (acknowledge_row ck now receiver sender cid r) = m_msg r" for r
      by (simp_all add: acknowledge_row_def message_col_key_def)
    show ?thesis
      by (auto simp: mailbox_of_def acknowledge_one_def fun_eq_iff find_map_key key option.map_comp comp_def)
  qed
  have "posted (mailbox_of ck (ack_all ck now receiver sender cids d)) = posted (mailbox_of ck d)"
    unfolding ack_all_def by (induction cids arbitrary: d) (simp_all add: one)
  moreover have "uid_exists (ack_all ck now receiver sender cids d) u = uid_exists d u" for u
    by (simp add: uid_exists_def)
  ultimately show ?thesis
    by (simp add: mailbox_of_def take_out_def fun_eq_iff pending_ack_all)
qed

lemma db_mail_refines:
  assumes "db_mail ck e call d = (answer, d')"
  shows "mail_step ck call answer (mailbox_of ck d) (mailbox_of ck d')"
proof (cases call)
  case (Post ms)
  show ?thesis
  proof (cases "ms = []")
    case True
    then show ?thesis
      using assms Post by (auto simp: PersistTextMessages_def done_of_def intro!: carried_out)
  next
    case False
    obtain r where r: "PersistTextMessages ck e ms d = (r, d')" "answer = done_of r"
      using assms Post by (auto split: prod.splits)
    have exec: "mail_exec ck (Post ms) (mailbox_of ck d) = (Done True, mailbox_of ck d')" if "insert_all ck ms d = Some d'"
      using insert_all_posts [of ck ms d] that False by (auto simp flip: insert_all_posts)
    show ?thesis
      using PersistTextMessages_spec [OF False r(1)] exec r(2) Post
        mail_step.failed [of ck "Post ms"] mail_step.unanswered [of ck "Post ms"]
      by (auto simp: done_of_def intro: carried_out)
  qed
next
  case (TakeOut receiver sender cids)
  show ?thesis
  proof (cases "receiver \<le> 0 \<or> sender \<le> 0 \<or> cids = []")
    case True
    then show ?thesis
      using assms TakeOut by (auto simp: AcknowledgeTextMessages_def done_of_def intro!: carried_out)
  next
    case False
    obtain r where r: "AcknowledgeTextMessages ck e receiver sender cids d = (r, d')" "answer = done_of r"
      using assms TakeOut by (auto split: prod.splits)
    have exec: "mail_exec ck (TakeOut receiver sender cids) (mailbox_of ck d) = (Done True, mailbox_of ck d')"
      if "d' = ack_all ck (sql_now e) receiver sender cids d"
      using False that by (simp add: ack_takes_out)
    show ?thesis
      using AcknowledgeTextMessages_spec [OF _ _ _ r(1)] False exec r(2) TakeOut
        mail_step.failed [of ck "TakeOut receiver sender cids"] mail_step.unanswered [of ck "TakeOut receiver sender cids"]
      by (auto simp: done_of_def ack_takes_out intro: carried_out)
  qed
next
  case (Look u limit)
  obtain r where r: "GetPendingTextMessages e u limit d = (r, d')" "answer = Found (case r of Returns f \<Rightarrow> f | Throws \<Rightarrow> None)"
    using assms Look by (auto split: prod.splits)
  have w: "waiting (mailbox_of ck d) u = pending_messages u d"
    by (simp add: mailbox_of_def)
  show ?thesis
    using GetPendingTextMessages_spec [OF r(1)] r(2) Look mail_step.failed [of ck "Look u limit"]
    by (auto intro: carried_out simp: w)
qed

lemma db_mail_run_refines:
  "db_mail_run ck calls d = (answers, d') \<Longrightarrow> mail_run ck (zip (map snd calls) answers) (mailbox_of ck d) (mailbox_of ck d')"
proof (induction calls arbitrary: d answers)
  case (Cons ec calls)
  then show ?case
    by (cases ec) (auto split: prod.splits intro!: run_call intro: db_mail_refines)
qed (auto intro: run_done)

section \<open>When nothing fails\<close>

lemma acknowledge_loop_clean:
  "faults c = [] \<Longrightarrow> \<not> autocommit c \<Longrightarrow>
   acknowledge_loop ck now receiver sender cids c = (Returns (), c\<lparr>working := ack_all ck now receiver sender cids (working c)\<rparr>)"
  by (induction cids arbitrary: c) (simp_all add: io_simps clean_simps ack_all_def)

lemma db_mail_calm:
  assumes "available e" and "sql_faults e = []" and "db_mail ck e call d = (answer, d')"
  shows "mail_exec ck call (mailbox_of ck d) = (answer, mailbox_of ck d')"
proof (cases call)
  case (Post ms)
  then show ?thesis
    using assms PersistTextMessages_clean [OF assms(1,2), of ms ck d] insert_all_posts [of ck ms d]
    by (cases "ms = []"; cases "insert_all ck ms d")
      (auto simp: PersistTextMessages_def done_of_def simp flip: insert_all_posts)
next
  case (TakeOut receiver sender cids)
  then show ?thesis
    using assms
    by (auto simp: AcknowledgeTextMessages_def done_of_def with_connection_def io_simps clean_simps fresh_conn_def
        acknowledge_loop_clean ack_takes_out split: if_splits)
next
  case (Look u limit)
  have w: "waiting (mailbox_of ck d) u = pending_messages u d"
    by (simp add: mailbox_of_def)
  then show ?thesis
    using assms Look
    by (auto simp: GetPendingTextMessages_def with_connection_def io_simps clean_simps fresh_conn_def w split: if_splits)
qed

text \<open>
  C3: The message methods on the database refine the mailbox. For every sequence of calls, each failing in any
  way at any point, the answers and the final tables are those of a run of the mailbox in which a call is carried
  out completely or not at all, never answers positively without being carried out, and never binds an identifier
  twice; and a call that meets no failure is carried out and answers what the mailbox answers.
\<close>

theorem mailbox_refinement:
  assumes "db_mail_run ck calls d = (answers, d')"
  shows "mail_run ck (zip (map snd calls) answers) (mailbox_of ck d) (mailbox_of ck d')
    \<and> (\<forall>e call. calls = [(e, call)] \<and> available e \<and> sql_faults e = [] \<longrightarrow>
         mail_exec ck call (mailbox_of ck d) = (hd answers, mailbox_of ck d'))"
  using db_mail_run_refines [OF assms] assms db_mail_calm by (fastforce split: prod.splits)

theorem mailbox_refinement_witness:
  "mail_exec (\<lambda>x. x) (Look 2 5) (mailbox_of (\<lambda>x. x) sample_db) =
     (Found (Some [sample_message ''a'' ''hello'']), mailbox_of (\<lambda>x. x) sample_db)"
proof -
  have "db_mail_run (\<lambda>x. x) [(\<lparr>available = True, sql_faults = [], sql_now = 0\<rparr>, Look 2 5)] sample_db =
      ([Found (Some [sample_message ''a'' ''hello''])], sample_db)"
    by code_simp
  from mailbox_refinement [OF this] show ?thesis
    by simp
qed

end
