(* ===== verification/Friend_Db.thy ===== *)
theory Friend_Db
  imports Chat_Schema
begin

text \<open>
  Friend applications and their acceptance: \<^verbatim>\<open>common/FriendAcceptanceTransaction.h\<close>, a
  template over a transactional store, and the friend methods of
  \<^verbatim>\<open>servers/chat/storage/MysqlDao.cpp\<close> with its store on a MySQL connection. The locale
  \<open>acceptance_store\<close> is what the template needs of a store; it is interpreted on that store.
  The conversion of a text to the width of the column \<^verbatim>\<open>friend.back\<close> (an
  \<^verbatim>\<open>INSERT IGNORE\<close> truncates) is the argument \<open>fit\<close>.
\<close>

datatype acceptance_result = Success | PendingMissing | StorageError

definition ExecuteFriendAcceptanceTransaction ::
  "('s, unit) io \<Rightarrow> (int \<Rightarrow> int \<Rightarrow> string \<Rightarrow> ('s, int) io) \<Rightarrow> (int \<Rightarrow> int \<Rightarrow> ('s, int) io)
   \<Rightarrow> ('s, unit) io \<Rightarrow> ('s, unit) io \<Rightarrow> int \<Rightarrow> int \<Rightarrow> string \<Rightarrow> ('s, acceptance_result) io" where
  "ExecuteFriendAcceptanceTransaction begin_tx insertFriend acceptPending commit_tx rollback_tx
       accepter_uid applicant_uid back_name =
     io_then begin_tx
       (io_catch
         (io_bind
            (io_bind (insertFriend accepter_uid applicant_uid back_name) (\<lambda>n.
               if n < 0 then io_return True
               else io_bind (insertFriend applicant_uid accepter_uid []) (\<lambda>n2. io_return (n2 < 0))))
            (\<lambda>failed.
               if failed then io_then rollback_tx (io_return StorageError)
               else io_bind (acceptPending applicant_uid accepter_uid) (\<lambda>rows.
                 if rows \<noteq> 1 then io_then rollback_tx (io_return PendingMissing)
                 else io_then commit_tx (io_return Success))))
         (io_then (io_catch rollback_tx (io_return ())) io_throw))"

text \<open>The statements of the MySQL store.\<close>

definition insert_ignore_friend ::
  "(string \<Rightarrow> string) \<Rightarrow> int \<Rightarrow> int \<Rightarrow> string \<Rightarrow> chat_db \<Rightarrow> int \<times> chat_db" where
  "insert_ignore_friend fit self friend bk d =
     (if has_friend_row d self friend \<or> \<not> uid_exists d self \<or> \<not> uid_exists d friend then (0, d)
      else (1, d\<lparr>friend_rows := friend_rows d @ [\<lparr>self_id = self, friend_id = friend, f_back = fit bk\<rparr>]\<rparr>))"

definition pending_apply :: "int \<Rightarrow> int \<Rightarrow> apply_row \<Rightarrow> bool" where
  "pending_apply from to r \<longleftrightarrow> from_uid r = from \<and> to_uid r = to \<and> a_status r = 0"

definition accept_pending_apply :: "int \<Rightarrow> int \<Rightarrow> chat_db \<Rightarrow> int \<times> chat_db" where
  "accept_pending_apply from to d =
     (int (length (filter (pending_apply from to) (apply_rows d))),
      d\<lparr>apply_rows := map (\<lambda>r. if pending_apply from to r then r\<lparr>a_status := 1\<rparr> else r) (apply_rows d)\<rparr>)"

definition store_begin :: "(chat_db conn, unit) io" where
  "store_begin = setAutoCommit False"

definition store_insertFriend ::
  "(string \<Rightarrow> string) \<Rightarrow> int \<Rightarrow> int \<Rightarrow> string \<Rightarrow> (chat_db conn, int) io" where
  "store_insertFriend fit self friend bk = statement (\<lambda>d. Some (insert_ignore_friend fit self friend bk d))"

definition store_acceptPendingApplication :: "int \<Rightarrow> int \<Rightarrow> (chat_db conn, int) io" where
  "store_acceptPendingApplication applicant accepter =
     statement (\<lambda>d. Some (accept_pending_apply applicant accepter d))"

definition AddFriend ::
  "(string \<Rightarrow> string) \<Rightarrow> sql_env \<Rightarrow> int \<Rightarrow> int \<Rightarrow> string \<Rightarrow> chat_db \<Rightarrow> acceptance_result outcome \<times> chat_db" where
  "AddFriend fit e from to back_name d =
     with_connection e StorageError
       (io_catch
         (ExecuteFriendAcceptanceTransaction store_begin (store_insertFriend fit)
            store_acceptPendingApplication commit rollback from to back_name)
         (io_return StorageError)) d"

definition insert_apply :: "int \<Rightarrow> int \<Rightarrow> chat_db \<Rightarrow> (int \<times> chat_db) option" where
  "insert_apply from to d =
     (if list_ex (\<lambda>r. from_uid r = from \<and> to_uid r = to) (apply_rows d) then Some (0, d)
      else if \<not> uid_exists d from \<or> \<not> uid_exists d to then None
      else Some (1, d\<lparr>apply_rows := apply_rows d @ [\<lparr>a_id = next_apply_id d, from_uid = from, to_uid = to, a_status = 0\<rparr>],
                      next_apply_id := next_apply_id d + 1\<rparr>))"

definition AddFriendApply :: "sql_env \<Rightarrow> int \<Rightarrow> int \<Rightarrow> chat_db \<Rightarrow> bool outcome \<times> chat_db" where
  "AddFriendApply e from to d =
     with_connection e False
       (io_catch
          (io_bind (statement (insert_apply from to)) (\<lambda>rowAffected. io_return (\<not> rowAffected < 0)))
          (io_return False)) d"

definition AuthFriendApply :: "sql_env \<Rightarrow> int \<Rightarrow> int \<Rightarrow> chat_db \<Rightarrow> bool outcome \<times> chat_db" where
  "AuthFriendApply e from to d =
     with_connection e False
       (io_catch
          (io_bind (statement (\<lambda>d. Some (accept_pending_apply to from d)))
             (\<lambda>rowAffected. io_return (rowAffected = 1)))
          (io_return False)) d"

definition HasPendingFriendApply :: "sql_env \<Rightarrow> int \<Rightarrow> int \<Rightarrow> chat_db \<Rightarrow> bool outcome \<times> chat_db" where
  "HasPendingFriendApply e from to d =
     with_connection e False
       (io_catch (select (\<lambda>d. list_ex (pending_apply from to) (apply_rows d))) (io_return False)) d"

text \<open>The lists shown after login.\<close>

record user_info =
  ui_name :: string
  ui_pwd :: string
  ui_uid :: int
  ui_email :: string
  ui_nick :: string
  ui_desc :: string
  ui_sex :: int
  ui_icon :: string
  ui_back :: string

record apply_info =
  ai_uid :: int
  ai_name :: string
  ai_desc :: string
  ai_icon :: string
  ai_nick :: string
  ai_sex :: int
  ai_status :: int

definition user_info_of :: "user_row \<Rightarrow> user_info" where
  "user_info_of r = \<lparr>ui_name = u_name r, ui_pwd = [], ui_uid = u_uid r, ui_email = u_email r, ui_nick = u_nick r,
     ui_desc = u_desc r, ui_sex = u_sex r, ui_icon = u_icon r, ui_back = []\<rparr>"

definition GetUser :: "sql_env \<Rightarrow> int \<Rightarrow> chat_db \<Rightarrow> user_info option outcome \<times> chat_db" where
  "GetUser e uid d =
     with_connection e None
       (io_catch
          (io_bind (select (\<lambda>d. find (\<lambda>r. u_uid r = uid) (user_rows d)))
             (\<lambda>row. io_return (map_option user_info_of row)))
          (io_return None)) d"

definition GetUser_by_name ::
  "(string \<Rightarrow> string) \<Rightarrow> sql_env \<Rightarrow> string \<Rightarrow> chat_db \<Rightarrow> user_info option outcome \<times> chat_db" where
  "GetUser_by_name ck e name d =
     with_connection e None
       (io_catch
          (io_bind (select (\<lambda>d. find (\<lambda>r. ck (u_name r) = ck name) (user_rows d)))
             (\<lambda>row. io_return (map_option user_info_of row)))
          (io_return None)) d"

definition apply_info_of :: "apply_row \<Rightarrow> user_row \<Rightarrow> apply_info" where
  "apply_info_of a u = \<lparr>ai_uid = from_uid a, ai_name = u_name u, ai_desc = [], ai_icon = u_icon u,
     ai_nick = u_nick u, ai_sex = u_sex u, ai_status = a_status a\<rparr>"

definition apply_join :: "int \<Rightarrow> int \<Rightarrow> chat_db \<Rightarrow> (apply_row \<times> user_row) list" where
  "apply_join to begin_id d =
     [(a, u). a \<leftarrow> apply_rows d, to_uid a = to \<and> int (a_id a) > begin_id,
              u \<leftarrow> user_rows d, from_uid a = u_uid u]"

definition select_apply_list :: "int \<Rightarrow> int \<Rightarrow> int \<Rightarrow> chat_db \<Rightarrow> (apply_info list \<times> chat_db) option" where
  "select_apply_list to begin_id limit d =
     (if limit < 0 then None
      else Some (map (\<lambda>(a, u). apply_info_of a u)
                   (take (nat limit) (sort_key (\<lambda>(a, u). a_status a) (rev (apply_join to begin_id d)))), d))"

definition GetApplyList ::
  "sql_env \<Rightarrow> int \<Rightarrow> int \<Rightarrow> int \<Rightarrow> chat_db \<Rightarrow> (bool \<times> apply_info list) outcome \<times> chat_db" where
  "GetApplyList e to begin_id limit d =
     with_connection e (False, [])
       (io_catch
          (io_bind (statement (select_apply_list to begin_id limit)) (\<lambda>l. io_return (True, l)))
          (io_return (False, []))) d"

text \<open>
  \<open>GetFriendList\<close> reads the friend rows on one connection and each friend's profile on a second one
  (\<open>user_env k\<close> is the environment of the \<open>k\<close>-th of these); profiles that cannot be read
  are left out.
\<close>

fun friend_profiles :: "(nat \<Rightarrow> sql_env) \<Rightarrow> chat_db \<Rightarrow> friend_row list \<Rightarrow> nat \<Rightarrow> user_info list" where
  "friend_profiles user_env d [] k = []"
| "friend_profiles user_env d (f # fs) k =
     (case fst (GetUser (user_env k) (friend_id f) d) of
        Returns (Some u) \<Rightarrow>
          u\<lparr>ui_back := if length (f_back f) = 0 then ui_name u else f_back f\<rparr> # friend_profiles user_env d fs (Suc k)
      | _ \<Rightarrow> friend_profiles user_env d fs (Suc k))"

definition GetFriendList ::
  "sql_env \<Rightarrow> (nat \<Rightarrow> sql_env) \<Rightarrow> int \<Rightarrow> chat_db \<Rightarrow> (bool \<times> user_info list) outcome \<times> chat_db" where
  "GetFriendList e user_env self d =
     with_connection e (False, [])
       (io_catch
          (io_bind (select (\<lambda>d. take 200 (sort_key friend_id (filter (\<lambda>r. self_id r = self) (friend_rows d)))))
             (\<lambda>rows. io_return (True, friend_profiles user_env d rows 0)))
          (io_return (False, []))) d"

text \<open>The three writes of an acceptance, in order: the reference for the transaction.\<close>

definition accepted_state ::
  "(int \<Rightarrow> int \<Rightarrow> string \<Rightarrow> 'd \<Rightarrow> int \<times> 'd) \<Rightarrow> (int \<Rightarrow> int \<Rightarrow> 'd \<Rightarrow> int \<times> 'd) \<Rightarrow> int \<Rightarrow> int \<Rightarrow> string \<Rightarrow> 'd \<Rightarrow> int \<times> 'd"
  where
  "accepted_state ins acc a b k d = acc b a (snd (ins b a [] (snd (ins a b k d))))"

text \<open>
  What the template needs of a store with a durable and a transactional view: after
  \<open>begin\<close> a transaction is open; the two writes act on the transactional view only; a commit
  that fails has taken effect or not, and a rollback never makes anything durable.
\<close>

locale acceptance_store =
  fixes open_tx :: "'s \<Rightarrow> bool" and dur :: "'s \<Rightarrow> 'd" and view :: "'s \<Rightarrow> 'd"
    and ins :: "int \<Rightarrow> int \<Rightarrow> string \<Rightarrow> 'd \<Rightarrow> int \<times> 'd" and acc :: "int \<Rightarrow> int \<Rightarrow> 'd \<Rightarrow> int \<times> 'd"
    and begin_tx :: "('s, unit) io" and insertFriend :: "int \<Rightarrow> int \<Rightarrow> string \<Rightarrow> ('s, int) io"
    and acceptPending :: "int \<Rightarrow> int \<Rightarrow> ('s, int) io"
    and commit_tx :: "('s, unit) io" and rollback_tx :: "('s, unit) io"
  assumes begin_wp: "view s = dur s \<Longrightarrow>
      wp begin_tx (\<lambda>_ s'. open_tx s' \<and> dur s' = dur s \<and> view s' = dur s) (\<lambda>s'. dur s' = dur s) s"
    and insert_wp: "open_tx s \<Longrightarrow>
      wp (insertFriend a b k) (\<lambda>n s'. open_tx s' \<and> dur s' = dur s \<and> ins a b k (view s) = (n, view s'))
        (\<lambda>s'. open_tx s' \<and> dur s' = dur s) s"
    and accept_wp: "open_tx s \<Longrightarrow>
      wp (acceptPending a b) (\<lambda>n s'. open_tx s' \<and> dur s' = dur s \<and> acc a b (view s) = (n, view s'))
        (\<lambda>s'. open_tx s' \<and> dur s' = dur s) s"
    and commit_wp: "open_tx s \<Longrightarrow>
      wp commit_tx (\<lambda>_ s'. dur s' = view s) (\<lambda>s'. open_tx s' \<and> dur s' \<in> {dur s, view s}) s"
    and rollback_wp: "open_tx s \<Longrightarrow>
      wp rollback_tx (\<lambda>_ s'. dur s' = dur s) (\<lambda>s'. open_tx s' \<and> dur s' = dur s) s"
    and ins_nonneg: "fst (ins a b k d) \<ge> 0"
begin

lemma rollback_rethrow_wp:
  assumes "open_tx s" and "dur s = d \<or> P (dur s)"
  shows "wp (io_then (io_catch rollback_tx (io_return ())) io_throw) Q (\<lambda>s'. dur s' = d \<or> P (dur s')) s"
  by (intro wp_then wp_catch, rule wp_mono [OF rollback_wp [OF assms(1)]])
    (use assms(2) in \<open>auto intro!: wp_return wp_throw\<close>)

lemma rollback_return_wp:
  assumes "open_tx s" and "dur s = d" and "r \<noteq> Success"
  shows "wp (io_then rollback_tx (io_return r))
    (\<lambda>r s'. r \<noteq> Success \<and> dur s' = d) (\<lambda>s'. open_tx s' \<and> dur s' = d) s"
  by (rule wp_then, rule wp_mono [OF rollback_wp [OF assms(1)]]) (use assms(2,3) in \<open>auto intro!: wp_return\<close>)

lemma inserts_wp:
  assumes "open_tx s" and "dur s = d"
  shows "wp (io_bind (insertFriend a b k) (\<lambda>n. if n < 0 then io_return True
      else io_bind (insertFriend b a []) (\<lambda>n2. io_return (n2 < 0))))
    (\<lambda>failed s'. \<not> failed \<and> open_tx s' \<and> dur s' = d \<and> view s' = snd (ins b a [] (snd (ins a b k (view s)))))
    (\<lambda>s'. open_tx s' \<and> dur s' = d) s"
proof (rule wp_bind, rule wp_mono [OF insert_wp [OF assms(1)]])
  fix n s1
  assume s1: "open_tx s1 \<and> dur s1 = dur s \<and> ins a b k (view s) = (n, view s1)"
  then have n: "\<not> n < 0"
    using ins_nonneg [of a b k "view s"] by simp
  have "wp (io_bind (insertFriend b a []) (\<lambda>n2. io_return (n2 < 0)))
     (\<lambda>failed s'. \<not> failed \<and> open_tx s' \<and> dur s' = d \<and> view s' = snd (ins b a [] (view s1)))
     (\<lambda>s'. open_tx s' \<and> dur s' = d) s1"
    by (rule wp_bind, rule wp_mono [OF insert_wp])
      (use s1 assms(2) ins_nonneg [of b a "[]" "view s1"] in \<open>auto intro!: wp_return\<close>)
  then show "wp (if n < 0 then io_return True else io_bind (insertFriend b a []) (\<lambda>n2. io_return (n2 < 0)))
     (\<lambda>failed s'. \<not> failed \<and> open_tx s' \<and> dur s' = d \<and> view s' = snd (ins b a [] (snd (ins a b k (view s)))))
     (\<lambda>s'. open_tx s' \<and> dur s' = d) s1"
    using s1 n by simp
qed (use assms(2) in auto)

lemma finish_wp:
  assumes "open_tx s" and "dur s = d"
  shows "wp (io_bind (acceptPending b a) (\<lambda>rows.
        if rows \<noteq> 1 then io_then rollback_tx (io_return PendingMissing)
        else io_then commit_tx (io_return Success)))
    (\<lambda>r s'. if r = Success then acc b a (view s) = (1, dur s') else dur s' = d)
    (\<lambda>s'. open_tx s' \<and> (dur s' = d \<or> acc b a (view s) = (1, dur s'))) s"
proof (rule wp_bind, rule wp_mono [OF accept_wp [OF assms(1)]])
  fix rows s1
  assume s1: "open_tx s1 \<and> dur s1 = dur s \<and> acc b a (view s) = (rows, view s1)"
  have "wp (io_then commit_tx (io_return Success))
      (\<lambda>r s'. r = Success \<and> dur s' = view s1) (\<lambda>s'. open_tx s' \<and> dur s' \<in> {d, view s1}) s1"
    by (rule wp_then, rule wp_mono [OF commit_wp]) (use s1 assms(2) in \<open>auto intro!: wp_return\<close>)
  moreover have "wp (io_then rollback_tx (io_return PendingMissing))
      (\<lambda>r s'. r \<noteq> Success \<and> dur s' = d) (\<lambda>s'. open_tx s' \<and> dur s' = d) s1"
    by (rule rollback_return_wp) (use s1 assms(2) in auto)
  ultimately show "wp (if rows \<noteq> 1 then io_then rollback_tx (io_return PendingMissing)
        else io_then commit_tx (io_return Success))
      (\<lambda>r s'. if r = Success then acc b a (view s) = (1, dur s') else dur s' = d)
      (\<lambda>s'. open_tx s' \<and> (dur s' = d \<or> acc b a (view s) = (1, dur s'))) s1"
    using s1 by (auto elim!: wp_mono)
qed (use assms in auto)

lemma acceptance_atomic:
  assumes "view s = d" and "dur s = d"
  shows "wp (ExecuteFriendAcceptanceTransaction begin_tx insertFriend acceptPending commit_tx rollback_tx a b k)
    (\<lambda>r s'. if r = Success then accepted_state ins acc a b k d = (1, dur s') else dur s' = d)
    (\<lambda>s'. dur s' = d \<or> accepted_state ins acc a b k d = (1, dur s')) s"
  unfolding ExecuteFriendAcceptanceTransaction_def
proof (rule wp_then, rule wp_mono [OF begin_wp], goal_cases)
  case (2 u s1)
  then have s1: "open_tx s1" "dur s1 = d" "view s1 = d"
    using assms by auto
  show ?case
  proof (rule wp_catch, rule wp_bind, rule wp_mono [OF inserts_wp [OF s1(1,2)]], goal_cases)
    case (1 failed s2)
    then have nf: "\<not> failed" and o: "open_tx s2" "dur s2 = d"
      and eq: "accepted_state ins acc a b k d = acc b a (view s2)"
      by (auto simp: accepted_state_def s1(3))
    show ?case
      unfolding if_not_P [OF nf] eq
      by (rule wp_mono [OF finish_wp [OF o, of b a]]) (auto intro: rollback_rethrow_wp)
  next
    case (2 s')
    then show ?case
      by (auto intro!: rollback_rethrow_wp)
  qed
qed (use assms in auto)

end

interpretation mysql_acceptance: acceptance_store "\<lambda>c. \<not> autocommit c" durable working
  "insert_ignore_friend fit" accept_pending_apply store_begin "store_insertFriend fit"
  store_acceptPendingApplication commit rollback for fit
proof (unfold_locales, goal_cases)
  case (1 s)
  then show ?case
    unfolding store_begin_def by (auto intro!: wp_rules)
next
  case (2 s a b k)
  then show ?case
    unfolding store_insertFriend_def by (auto intro!: wp_statement)
next
  case (3 s a b)
  then show ?case
    unfolding store_acceptPendingApplication_def by (auto intro!: wp_statement)
qed (auto intro!: wp_rules simp: insert_ignore_friend_def)

abbreviation accepted_db :: "(string \<Rightarrow> string) \<Rightarrow> int \<Rightarrow> int \<Rightarrow> string \<Rightarrow> chat_db \<Rightarrow> int \<times> chat_db" where
  "accepted_db fit \<equiv> accepted_state (insert_ignore_friend fit) accept_pending_apply"

lemma AddFriend_spec:
  assumes "AddFriend fit e a b k d = (r, d')"
  shows "(r = Returns Success \<and> accepted_db fit a b k d = (1, d'))
    \<or> (r = Returns PendingMissing \<and> d' = d)
    \<or> (r = Returns StorageError \<and> (d' = d \<or> accepted_db fit a b k d = (1, d')))"
proof -
  let ?tx = "ExecuteFriendAcceptanceTransaction store_begin (store_insertFriend fit)
      store_acceptPendingApplication commit rollback a b k"
  let ?Q = "\<lambda>r d'. (r = Success \<and> accepted_db fit a b k d = (1, d')) \<or> (r = PendingMissing \<and> d' = d)
      \<or> (r = StorageError \<and> (d' = d \<or> accepted_db fit a b k d = (1, d')))"
  have "wp (io_catch ?tx (io_return StorageError)) (\<lambda>r c. ?Q r (durable c)) (\<lambda>_. False)
      (fresh_conn d (sql_faults e))"
  proof (rule wp_catch, rule wp_mono [OF mysql_acceptance.acceptance_atomic [of _ d]], goal_cases)
    case (3 r c)
    then show ?case
      by (cases r) auto
  qed (auto intro!: wp_return)
  from with_connection_cases [OF this, of StorageError r d'] show ?thesis
    using assms by (cases r) (auto simp: AddFriend_def)
qed

text \<open>The effect of the writes on well-formed tables.\<close>

lemma insert_ignore_ok:
  assumes "db_ok ck d" shows "db_ok ck (snd (insert_ignore_friend fit a b k d))"
  using assms
  by (auto simp: db_ok_def insert_ignore_friend_def friends_ok_def has_friend_row_def list_ex_iff)

lemma accept_pending_ok:
  assumes "db_ok ck d" shows "db_ok ck (snd (accept_pending_apply a b d))"
proof -
  let ?g = "\<lambda>r. if pending_apply a b r then r\<lparr>a_status := 1\<rparr> else r"
  have "(\<lambda>r. (from_uid r, to_uid r)) \<circ> ?g = (\<lambda>r. (from_uid r, to_uid r))" and "a_id \<circ> ?g = a_id"
    by (auto simp: fun_eq_iff)
  then show ?thesis
    using assms by (auto simp: db_ok_def accept_pending_apply_def applies_ok_def)
qed

lemma insert_ignore_frame [simp]:
  "user_rows (snd (insert_ignore_friend fit a b k d)) = user_rows d"
  "apply_rows (snd (insert_ignore_friend fit a b k d)) = apply_rows d"
  "message_rows (snd (insert_ignore_friend fit a b k d)) = message_rows d"
  by (simp_all add: insert_ignore_friend_def)

lemma insert_ignore_friend_row:
  "uid_exists d a \<Longrightarrow> uid_exists d b \<Longrightarrow>
   has_friend_row (snd (insert_ignore_friend fit a b k d)) x y \<longleftrightarrow> (x = a \<and> y = b) \<or> has_friend_row d x y"
  by (auto simp: insert_ignore_friend_def has_friend_row_def list_ex_iff)

lemma accepted_db_effect:
  assumes "db_ok ck d" and "accepted_db fit a b k d = (1, d')"
  shows "db_ok ck d' \<and> list_ex (pending_apply b a) (apply_rows d)
    \<and> \<not> list_ex (pending_apply b a) (apply_rows d')
    \<and> message_rows d' = message_rows d \<and> user_rows d' = user_rows d
    \<and> (\<forall>x y. has_friend_row d' x y \<longleftrightarrow> (x, y) \<in> {(a, b), (b, a)} \<or> has_friend_row d x y)"
proof -
  define d1 where "d1 = snd (insert_ignore_friend fit a b k d)"
  define d2 where "d2 = snd (insert_ignore_friend fit b a [] d1)"
  have d': "d' = snd (accept_pending_apply b a d2)" and n: "fst (accept_pending_apply b a d2) = 1"
    using assms(2) by (simp_all add: accepted_state_def d1_def d2_def)
  have rows: "apply_rows d2 = apply_rows d" "user_rows d1 = user_rows d" "user_rows d2 = user_rows d"
    "message_rows d2 = message_rows d"
    by (simp_all add: d1_def d2_def)
  have pend: "list_ex (pending_apply b a) (apply_rows d)"
    using n rows(1) by (auto simp: accept_pending_apply_def list_ex_iff filter_eq_Cons_iff length_Suc_conv)
  then have "uid_exists d b" "uid_exists d a"
    using assms(1) by (auto simp: db_ok_def applies_ok_def list_ex_iff pending_apply_def)
  then have "has_friend_row d2 x y \<longleftrightarrow> (x, y) \<in> {(a, b), (b, a)} \<or> has_friend_row d x y" for x y
    using rows(2) unfolding d2_def d1_def
    by (subst insert_ignore_friend_row) (auto simp: uid_exists_def insert_ignore_friend_row)
  moreover have "db_ok ck d'"
    unfolding d' d2_def d1_def by (rule accept_pending_ok [OF insert_ignore_ok [OF insert_ignore_ok [OF assms(1)]]])
  moreover have "\<not> list_ex (pending_apply b a) (apply_rows d')"
  proof -
    have "\<not> pending_apply b a (r\<lparr>a_status := 1\<rparr>)" for r
      by (simp add: pending_apply_def)
    then show ?thesis
      unfolding d' accept_pending_apply_def by (auto simp: list_ex_iff)
  qed
  ultimately show ?thesis
    using pend rows unfolding d' by (simp add: accept_pending_apply_def)
qed

text \<open>
  C10: Accepting a friend is atomic. Whatever fails, accepting an application either changes
  nothing or makes the two users friends in both directions and closes the application, and
  nothing else; \<open>Success\<close> is answered only in the second case and only if a pending application of
  that direction existed; afterwards none is pending. The tables stay well formed.
\<close>

theorem friend_acceptance_atomic:
  assumes "db_ok ck d" and "AddFriend fit e a b k d = (r, d')"
  shows "db_ok ck d'
    \<and> (d' = d \<or>
        (list_ex (pending_apply b a) (apply_rows d) \<and> \<not> list_ex (pending_apply b a) (apply_rows d')
         \<and> mutual_friends d' a b \<and> message_rows d' = message_rows d \<and> user_rows d' = user_rows d
         \<and> (\<forall>x y. has_friend_row d' x y \<longleftrightarrow> (x, y) \<in> {(a, b), (b, a)} \<or> has_friend_row d x y)))
    \<and> (r = Returns Success \<longrightarrow> mutual_friends d' a b \<and> list_ex (pending_apply b a) (apply_rows d))
    \<and> (r = Returns PendingMissing \<longrightarrow> d' = d) \<and> r \<noteq> Throws"
  using AddFriend_spec [OF assms(2)] accepted_db_effect [OF assms(1), of fit a b k d'] assms(1)
  by (auto simp: mutual_friends_def)

text \<open>A database with a pending application of user 1 to user 2, for the examples.\<close>

definition apply_db :: chat_db where
  "apply_db = \<lparr>user_rows = map (\<lambda>u. \<lparr>u_uid = u, u_name = [], u_email = [], u_pwd = [], u_scheme = [], u_nick = [],
       u_desc = [], u_sex = 0, u_icon = []\<rparr>) [1, 2],
     friend_rows = [], apply_rows = [\<lparr>a_id = 1, from_uid = 1, to_uid = 2, a_status = 0\<rparr>], next_apply_id = 2,
     message_rows = []\<rparr>"

lemma apply_db_ok: "db_ok (\<lambda>x. x) apply_db"
  by (simp add: db_ok_def messages_ok_def friends_ok_def applies_ok_def apply_db_def uid_exists_def)

theorem friend_acceptance_atomic_witness:
  "case AddFriend (\<lambda>x. x) \<lparr>available = True, sql_faults = [NoFault, NoFault, Lost], sql_now = 0\<rparr> 2 1 ''Al'' apply_db of
     (r, d') \<Rightarrow> db_ok (\<lambda>x. x) d' \<and> r \<noteq> Throws"
  using friend_acceptance_atomic [OF apply_db_ok] by (fastforce split: prod.split)

end
