(* ===== verification/File_Transfer_Db.thy ===== *)
theory File_Transfer_Db
  imports Sql_Connection
begin

text \<open>
  The file transfer table of \<^verbatim>\<open>servers/chat/storage/MysqlDao.cpp\<close> with the types of
  \<^verbatim>\<open>common/FileTransferTypes.h\<close>: creation under a quota, the compare-and-set that
  advances an upload, completion, download, cancellation and deletion. Sizes and offsets are
  the \<^verbatim>\<open>uint64_t\<close> and \<^verbatim>\<open>BIGINT UNSIGNED\<close> of the code, 64-bit words.
  \<open>found\<close> is the driver's choice whether an \<^verbatim>\<open>UPDATE\<close> counts the rows it matched or
  only those it changed.
\<close>

datatype transfer_status = Uploading | Available | Downloaded | Cancelled | Expired

fun ToString :: "transfer_status \<Rightarrow> string" where
  "ToString Uploading = ''uploading''"
| "ToString Available = ''available''"
| "ToString Downloaded = ''downloaded''"
| "ToString Cancelled = ''cancelled''"
| "ToString Expired = ''expired''"

definition status_of_column :: "string \<Rightarrow> transfer_status" where
  "status_of_column s =
     (if s = ''uploading'' then Uploading else if s = ''available'' then Available
      else if s = ''downloaded'' then Downloaded else if s = ''cancelled'' then Cancelled else Expired)"

definition MaxFileBytes :: "64 word" where
  "MaxFileBytes = 100 * 1024 * 1024"

definition PlainChunkBytes :: nat where
  "PlainChunkBytes = 32 * 1024"

record transfer_record =
  tr_id :: string
  tr_sender :: int
  tr_receiver :: int
  tr_name :: string
  tr_mime :: string
  tr_total :: "64 word"
  tr_uploaded :: "64 word"
  tr_sha256 :: string
  tr_status :: transfer_status

record transfer_row =
  t_id :: string
  t_sender :: int
  t_receiver :: int
  t_name :: string
  t_mime :: string
  t_total :: "64 word"
  t_uploaded :: "64 word"
  t_sha256 :: string
  t_status :: string
  t_created :: time
  t_completed :: "time option"
  t_downloaded :: "time option"
  t_expires :: time

record file_db =
  account_uids :: "int list"
  transfers :: "transfer_row list"

definition days :: "int \<Rightarrow> time" where
  "days n = seconds (n * 86400)"

text \<open>\<open>UPDATE ... SET f WHERE P\<close>: the count the driver reports, and the table.\<close>

definition update_transfers ::
  "bool \<Rightarrow> (transfer_row \<Rightarrow> bool) \<Rightarrow> (transfer_row \<Rightarrow> transfer_row) \<Rightarrow> file_db \<Rightarrow> (nat \<times> file_db) option" where
  "update_transfers found P f d =
     Some (length (filter (\<lambda>r. P r \<and> (found \<or> f r \<noteq> r)) (transfers d)),
           d\<lparr>transfers := map (\<lambda>r. if P r then f r else r) (transfers d)\<rparr>)"

definition update_one ::
  "sql_env \<Rightarrow> bool \<Rightarrow> (transfer_row \<Rightarrow> bool) \<Rightarrow> (transfer_row \<Rightarrow> transfer_row) \<Rightarrow> file_db \<Rightarrow> bool outcome \<times> file_db" where
  "update_one e found P f d =
     with_connection e False
       (io_catch (io_bind (statement (update_transfers found P f)) (\<lambda>n. io_return (n = 1))) (io_return False)) d"

definition active :: "time \<Rightarrow> int \<Rightarrow> transfer_row \<Rightarrow> bool" where
  "active now sender r \<longleftrightarrow> t_sender r = sender \<and> t_expires r > now
     \<and> t_status r \<in> {''uploading'', ''available'', ''downloaded''}"

definition quota_usage :: "time \<Rightarrow> int \<Rightarrow> file_db \<Rightarrow> nat \<times> nat" where
  "quota_usage now sender d =
     (let rows = filter (active now sender) (transfers d)
      in (length rows, sum_list (map (\<lambda>r. unat (t_total r)) rows)))"

definition insert_transfer ::
  "(string \<Rightarrow> string) \<Rightarrow> time \<Rightarrow> transfer_record \<Rightarrow> file_db \<Rightarrow> (nat \<times> file_db) option" where
  "insert_transfer ck now t d =
     (if list_ex (\<lambda>r. ck (t_id r) = ck (tr_id t)) (transfers d) \<or> tr_sender t \<notin> set (account_uids d)
         \<or> tr_receiver t \<notin> set (account_uids d)
      then None
      else Some (1, d\<lparr>transfers := transfers d @
        [\<lparr>t_id = tr_id t, t_sender = tr_sender t, t_receiver = tr_receiver t, t_name = tr_name t, t_mime = tr_mime t,
          t_total = tr_total t, t_uploaded = 0, t_sha256 = tr_sha256 t, t_status = ''uploading'', t_created = now,
          t_completed = None, t_downloaded = None, t_expires = now + days 7\<rparr>]\<rparr>))"

definition undo_and_fail :: "('d conn, bool) io" where
  "undo_and_fail = io_then rollback (io_then (setAutoCommit True) (io_return False))"

definition CreateFileTransfer ::
  "(string \<Rightarrow> string) \<Rightarrow> sql_env \<Rightarrow> transfer_record \<Rightarrow> file_db \<Rightarrow> bool outcome \<times> file_db" where
  "CreateFileTransfer ck e t d =
     with_connection e False
       (io_catch
         (io_then (setAutoCommit False)
           (io_bind (select (\<lambda>d. tr_sender t \<in> set (account_uids d))) (\<lambda>sender.
              if \<not> sender then undo_and_fail
              else io_bind (select (quota_usage (sql_now e) (tr_sender t))) (\<lambda>(item_count, total_bytes).
                if (word_of_nat item_count :: 64 word) \<ge> 16
                   \<or> (word_of_nat total_bytes :: 64 word) + tr_total t > 1024 * 1024 * 1024
                then undo_and_fail
                else io_bind (statement (insert_transfer ck (sql_now e) t)) (\<lambda>n.
                  io_then (if n = 1 then commit else rollback)
                    (io_then (setAutoCommit True) (io_return (n = 1))))))))
         (io_then (io_catch (io_then rollback (setAutoCommit True)) (io_return ())) (io_return False))) d"

definition record_of_row :: "transfer_row \<Rightarrow> transfer_record" where
  "record_of_row r = \<lparr>tr_id = t_id r, tr_sender = t_sender r, tr_receiver = t_receiver r, tr_name = t_name r,
     tr_mime = t_mime r, tr_total = t_total r, tr_uploaded = t_uploaded r, tr_sha256 = t_sha256 r,
     tr_status = status_of_column (t_status r)\<rparr>"

definition find_transfer :: "(string \<Rightarrow> string) \<Rightarrow> time \<Rightarrow> string \<Rightarrow> file_db \<Rightarrow> transfer_row option" where
  "find_transfer ck now i d = find (\<lambda>r. ck (t_id r) = ck i \<and> t_expires r > now) (transfers d)"

definition GetFileTransfer ::
  "(string \<Rightarrow> string) \<Rightarrow> sql_env \<Rightarrow> string \<Rightarrow> file_db \<Rightarrow> transfer_record option outcome \<times> file_db" where
  "GetFileTransfer ck e i d =
     with_connection e None
       (io_catch
          (io_bind (select (find_transfer ck (sql_now e) i)) (\<lambda>row. io_return (map_option record_of_row row)))
          (io_return None)) d"

definition pending_ids :: "time \<Rightarrow> int \<Rightarrow> file_db \<Rightarrow> string list" where
  "pending_ids now user d =
     map t_id (take 200 (sort_key (\<lambda>r. - t_created r)
       (filter (\<lambda>r. (t_receiver r = user \<or> t_sender r = user) \<and> t_status r \<in> {''available'', ''downloaded''}
                    \<and> t_expires r > now) (transfers d))))"

fun read_transfers ::
  "(string \<Rightarrow> string) \<Rightarrow> (nat \<Rightarrow> sql_env) \<Rightarrow> file_db \<Rightarrow> nat \<Rightarrow> string list \<Rightarrow> transfer_record list" where
  "read_transfers ck env d k [] = []"
| "read_transfers ck env d k (i # is) =
     (case fst (GetFileTransfer ck (env k) i d) of
        Returns (Some item) \<Rightarrow> item # read_transfers ck env d (Suc k) is
      | _ \<Rightarrow> read_transfers ck env d (Suc k) is)"

definition GetPendingFileTransfers ::
  "(string \<Rightarrow> string) \<Rightarrow> sql_env \<Rightarrow> (nat \<Rightarrow> sql_env) \<Rightarrow> int \<Rightarrow> file_db \<Rightarrow> transfer_record list outcome \<times> file_db" where
  "GetPendingFileTransfers ck e env user d =
     with_connection e []
       (io_catch
          (io_bind (select (pending_ids (sql_now e) user)) (\<lambda>ids. io_return (read_transfers ck env d 0 ids)))
          (io_return [])) d"

definition AdvanceFileUpload ::
  "(string \<Rightarrow> string) \<Rightarrow> sql_env \<Rightarrow> bool \<Rightarrow> string \<Rightarrow> int \<Rightarrow> 64 word \<Rightarrow> 64 word \<Rightarrow> file_db \<Rightarrow> bool outcome \<times> file_db" where
  "AdvanceFileUpload ck e found i sender expected_offset new_offset d =
     update_one e found
       (\<lambda>r. ck (t_id r) = ck i \<and> t_sender r = sender \<and> t_status r = ''uploading''
            \<and> t_uploaded r = expected_offset \<and> new_offset > t_uploaded r \<and> new_offset \<le> t_total r)
       (\<lambda>r. r\<lparr>t_uploaded := new_offset\<rparr>) d"

definition CompleteFileTransfer ::
  "(string \<Rightarrow> string) \<Rightarrow> sql_env \<Rightarrow> bool \<Rightarrow> string \<Rightarrow> int \<Rightarrow> file_db \<Rightarrow> bool outcome \<times> file_db" where
  "CompleteFileTransfer ck e found i sender d =
     update_one e found
       (\<lambda>r. ck (t_id r) = ck i \<and> t_sender r = sender \<and> t_status r = ''uploading'' \<and> t_uploaded r = t_total r)
       (\<lambda>r. r\<lparr>t_status := ''available'', t_completed := Some (sql_now e), t_expires := sql_now e + days 7\<rparr>) d"

definition MarkFileDownloaded ::
  "(string \<Rightarrow> string) \<Rightarrow> sql_env \<Rightarrow> bool \<Rightarrow> string \<Rightarrow> int \<Rightarrow> file_db \<Rightarrow> bool outcome \<times> file_db" where
  "MarkFileDownloaded ck e found i receiver d =
     update_one e found
       (\<lambda>r. ck (t_id r) = ck i \<and> t_receiver r = receiver \<and> t_status r \<in> {''available'', ''downloaded''})
       (\<lambda>r. r\<lparr>t_status := ''downloaded'',
              t_downloaded := Some (case t_downloaded r of None \<Rightarrow> sql_now e | Some t \<Rightarrow> t),
              t_expires := min (t_expires r) (sql_now e + days 1)\<rparr>) d"

definition CancelFileTransfer ::
  "(string \<Rightarrow> string) \<Rightarrow> sql_env \<Rightarrow> bool \<Rightarrow> string \<Rightarrow> int \<Rightarrow> file_db \<Rightarrow> bool outcome \<times> file_db" where
  "CancelFileTransfer ck e found i actor d =
     update_one e found
       (\<lambda>r. ck (t_id r) = ck i \<and> (t_sender r = actor \<or> t_receiver r = actor)
            \<and> t_status r \<in> {''uploading'', ''available'', ''downloaded''})
       (\<lambda>r. r\<lparr>t_status := ''cancelled'', t_expires := sql_now e\<rparr>) d"

definition dead :: "time \<Rightarrow> transfer_row \<Rightarrow> bool" where
  "dead now r \<longleftrightarrow> t_expires r \<le> now \<or> t_status r \<in> {''cancelled'', ''expired''}"

definition GetExpiredFileTransferIds :: "sql_env \<Rightarrow> file_db \<Rightarrow> string list outcome \<times> file_db" where
  "GetExpiredFileTransferIds e d =
     with_connection e []
       (io_catch (select (\<lambda>d. take 200 (map t_id (filter (dead (sql_now e)) (transfers d))))) (io_return [])) d"

definition DeleteFileTransfer ::
  "(string \<Rightarrow> string) \<Rightarrow> sql_env \<Rightarrow> string \<Rightarrow> file_db \<Rightarrow> bool outcome \<times> file_db" where
  "DeleteFileTransfer ck e i d =
     with_connection e False
       (io_catch
          (io_bind
             (statement (\<lambda>d. Some (length (filter (\<lambda>r. ck (t_id r) = ck i \<and> dead (sql_now e) r) (transfers d)),
                d\<lparr>transfers := filter (\<lambda>r. \<not> (ck (t_id r) = ck i \<and> dead (sql_now e) r)) (transfers d)\<rparr>)))
             (\<lambda>n. io_return (n = 1)))
          (io_return False)) d"

lemma status_roundtrip [simp]: "status_of_column (ToString s) = s"
  by (cases s) (simp_all add: status_of_column_def)

lemma update_one_spec:
  assumes "update_one e found P f d = (res, d')"
  shows "(res = Returns True \<or> res = Returns False)
    \<and> (d' = d \<or> update_transfers found P f d = Some (length (filter (\<lambda>r. P r \<and> (found \<or> f r \<noteq> r)) (transfers d)), d'))
    \<and> (res = Returns True \<longrightarrow> update_transfers found P f d = Some (1, d'))"
proof -
  let ?n = "length (filter (\<lambda>r. P r \<and> (found \<or> f r \<noteq> r)) (transfers d))"
  let ?Q = "\<lambda>ok d'. (d' = d \<or> update_transfers found P f d = Some (?n, d'))
      \<and> (ok \<longrightarrow> update_transfers found P f d = Some (1, d'))"
  have "wp (io_catch (io_bind (statement (update_transfers found P f)) (\<lambda>n. io_return (n = 1))) (io_return False))
      (\<lambda>ok c. ?Q ok (durable c)) (\<lambda>_. False) (fresh_conn d (sql_faults e))"
    by (intro wp_catch wp_bind wp_statement wp_return) (auto simp: update_transfers_def)
  from with_connection_cases [OF this, of False res d'] show ?thesis
    using assms by (cases res) (auto simp: update_one_def)
qed

lemma update_transfers_miss:
  assumes "\<And>r. r \<in> set (transfers d) \<Longrightarrow> \<not> P r"
  shows "update_transfers found P f d = Some (0, d)"
proof -
  have "map (\<lambda>r. if P r then f r else r) (transfers d) = transfers d"
    using assms by (intro map_idI) auto
  then show ?thesis
    using assms by (simp add: update_transfers_def)
qed

lemma update_transfers_hit:
  "update_transfers found P f d = Some (Suc n, d1) \<Longrightarrow> \<exists>r \<in> set (transfers d). P r"
  by (rule ccontr) (auto simp: update_transfers_def)

text \<open>The life of a transfer: what a row may become.\<close>

definition status_le :: "string \<Rightarrow> string \<Rightarrow> bool" where
  "status_le s s' \<longleftrightarrow> s = s' \<or> (s = ''uploading'' \<and> s' \<in> {''available'', ''downloaded'', ''cancelled''})
     \<or> (s = ''available'' \<and> s' \<in> {''downloaded'', ''cancelled''}) \<or> (s = ''downloaded'' \<and> s' = ''cancelled'')"

definition row_le :: "transfer_row \<Rightarrow> transfer_row \<Rightarrow> bool" where
  "row_le r r' \<longleftrightarrow> t_id r = t_id r' \<and> t_sender r = t_sender r' \<and> t_receiver r = t_receiver r'
     \<and> t_name r = t_name r' \<and> t_mime r = t_mime r' \<and> t_total r = t_total r' \<and> t_sha256 r = t_sha256 r'
     \<and> t_uploaded r \<le> t_uploaded r' \<and> status_le (t_status r) (t_status r')"

definition row_ok :: "transfer_row \<Rightarrow> bool" where
  "row_ok r \<longleftrightarrow> t_uploaded r \<le> t_total r
     \<and> t_status r \<in> {''uploading'', ''available'', ''downloaded'', ''cancelled'', ''expired''}
     \<and> (t_status r \<in> {''available'', ''downloaded''} \<longrightarrow> t_uploaded r = t_total r)"

definition transfers_ok :: "(string \<Rightarrow> string) \<Rightarrow> file_db \<Rightarrow> bool" where
  "transfers_ok ck d \<longleftrightarrow> distinct (map (\<lambda>r. ck (t_id r)) (transfers d)) \<and> (\<forall>r \<in> set (transfers d). row_ok r)"

lemma status_le_refl [simp]: "status_le s s"
  by (simp add: status_le_def)

lemma row_le_refl [simp]: "row_le r r"
  by (simp add: row_le_def)

text \<open>Every update of the class moves a row forward in its life and keeps it well formed.\<close>

definition forward :: "(transfer_row \<Rightarrow> bool) \<Rightarrow> (transfer_row \<Rightarrow> transfer_row) \<Rightarrow> bool" where
  "forward P f \<longleftrightarrow> (\<forall>r. P r \<longrightarrow> row_le r (f r) \<and> (row_ok r \<longrightarrow> row_ok (f r)))"

lemma forward_updates:
  "forward (\<lambda>r. ck (t_id r) = ck i \<and> t_sender r = sender \<and> t_status r = ''uploading''
            \<and> t_uploaded r = expected_offset \<and> new_offset > t_uploaded r \<and> new_offset \<le> t_total r)
       (\<lambda>r. r\<lparr>t_uploaded := new_offset\<rparr>)"
  "forward (\<lambda>r. ck (t_id r) = ck i \<and> t_sender r = sender \<and> t_status r = ''uploading'' \<and> t_uploaded r = t_total r)
       (\<lambda>r. r\<lparr>t_status := ''available'', t_completed := Some now, t_expires := now + days 7\<rparr>)"
  "forward (\<lambda>r. ck (t_id r) = ck i \<and> t_receiver r = receiver \<and> t_status r \<in> {''available'', ''downloaded''})
       (\<lambda>r. r\<lparr>t_status := ''downloaded'',
              t_downloaded := Some (case t_downloaded r of None \<Rightarrow> now | Some t \<Rightarrow> t),
              t_expires := min (t_expires r) (now + days 1)\<rparr>)"
  "forward (\<lambda>r. ck (t_id r) = ck i \<and> (t_sender r = actor \<or> t_receiver r = actor)
            \<and> t_status r \<in> {''uploading'', ''available'', ''downloaded''})
       (\<lambda>r. r\<lparr>t_status := ''cancelled'', t_expires := now\<rparr>)"
  by (auto simp: forward_def row_le_def status_le_def row_ok_def)

definition evolves :: "(string \<Rightarrow> string) \<Rightarrow> time \<Rightarrow> file_db \<Rightarrow> file_db \<Rightarrow> bool" where
  "evolves ck now d d' \<longleftrightarrow>
     (\<forall>r' \<in> set (transfers d'). (\<exists>r \<in> set (transfers d). row_le r r')
        \<or> (t_status r' = ''uploading'' \<and> t_uploaded r' = 0 \<and> ck (t_id r') \<notin> (\<lambda>r. ck (t_id r)) ` set (transfers d)))
     \<and> (\<forall>r \<in> set (transfers d). (\<exists>r' \<in> set (transfers d'). row_le r r') \<or> dead now r)"

lemma evolves_refl [simp]: "evolves ck now d d"
  by (auto simp: evolves_def intro: row_le_refl)

lemma update_one_evolves:
  assumes "forward P f" and "update_one e found P f d = (res, d')"
  shows "evolves ck now d d' \<and> (transfers_ok ck d \<longrightarrow> transfers_ok ck d')"
proof -
  define g where "g = (\<lambda>r. if P r then f r else r)"
  have le: "row_le r (g r)" and ok: "row_ok r \<Longrightarrow> row_ok (g r)" for r
    using assms(1) by (auto simp: forward_def g_def)
  have ids: "map (\<lambda>r. ck (t_id r)) (map g rs) = map (\<lambda>r. ck (t_id r)) rs" for rs
    using le by (induction rs) (auto simp: row_le_def)
  have "d' = d \<or> d' = d\<lparr>transfers := map g (transfers d)\<rparr>"
    using update_one_spec [OF assms(2)] by (auto simp: update_transfers_def g_def)
  then show ?thesis
  proof
    assume "d' = d\<lparr>transfers := map g (transfers d)\<rparr>"
    then have rows: "transfers d' = map g (transfers d)"
      by simp
    have "evolves ck now d d'"
      unfolding evolves_def rows set_map using le by blast
    moreover have "transfers_ok ck d \<longrightarrow> transfers_ok ck d'"
      unfolding transfers_ok_def rows ids set_map using ok by blast
    ultimately show ?thesis ..
  qed simp
qed

lemma CreateFileTransfer_eq:
  "CreateFileTransfer ck e t d = with_connection e False (transaction (
     io_bind (select (\<lambda>d. tr_sender t \<in> set (account_uids d))) (\<lambda>sender.
       if \<not> sender then io_return False
       else io_bind (select (quota_usage (sql_now e) (tr_sender t))) (\<lambda>(item_count, total_bytes).
         if (word_of_nat item_count :: 64 word) \<ge> 16
            \<or> (word_of_nat total_bytes :: 64 word) + tr_total t > 1024 * 1024 * 1024
         then io_return False
         else io_bind (statement (insert_transfer ck (sql_now e) t)) (\<lambda>n. io_return (n = 1)))))) d"
  unfolding CreateFileTransfer_def transaction_def abandon_def undo_and_fail_def
  by (intro arg_cong [where f = "\<lambda>b. with_connection e False b d"] arg_cong2 [where f = io_catch]
      arg_cong2 [where f = io_then] refl)
    (auto simp: io_bind_assoc io_bind_if split: prod.split intro!: io_bind_cong)

definition created :: "(string \<Rightarrow> string) \<Rightarrow> time \<Rightarrow> transfer_record \<Rightarrow> file_db \<Rightarrow> file_db \<Rightarrow> bool" where
  "created ck now t d d' \<longleftrightarrow> insert_transfer ck now t d = Some (1, d')
     \<and> (word_of_nat (fst (quota_usage now (tr_sender t) d)) :: 64 word) < 16
     \<and> (word_of_nat (snd (quota_usage now (tr_sender t) d)) :: 64 word) + tr_total t \<le> 1024 * 1024 * 1024"

lemma CreateFileTransfer_spec:
  assumes "CreateFileTransfer ck e t d = (res, d')"
  shows "(res = Returns True \<and> created ck (sql_now e) t d d')
    \<or> (res = Returns False \<and> (d' = d \<or> created ck (sql_now e) t d d'))"
proof (rule transaction_call [OF _ assms [unfolded CreateFileTransfer_eq]])
  fix c
  assume "in_tx d c" "working c = d"
  then show "wp (io_bind (select (\<lambda>d. tr_sender t \<in> set (account_uids d))) (\<lambda>sender.
       if \<not> sender then io_return False
       else io_bind (select (quota_usage (sql_now e) (tr_sender t))) (\<lambda>(item_count, total_bytes).
         if (word_of_nat item_count :: 64 word) \<ge> 16
            \<or> (word_of_nat total_bytes :: 64 word) + tr_total t > 1024 * 1024 * 1024
         then io_return False
         else io_bind (statement (insert_transfer ck (sql_now e) t)) (\<lambda>n. io_return (n = 1)))))
      (\<lambda>ok c'. in_tx d c' \<and> (ok \<longrightarrow> created ck (sql_now e) t d (working c'))) (in_tx d) c"
    by (auto intro!: wp_rules wp_statement simp: case_prod_unfold created_def not_le not_less)
qed

lemma DeleteFileTransfer_spec:
  assumes "DeleteFileTransfer ck e i d = (res, d')"
  shows "(res = Returns True \<or> res = Returns False) \<and> (d' = d \<or>
    d' = d\<lparr>transfers := filter (\<lambda>r. \<not> (ck (t_id r) = ck i \<and> dead (sql_now e) r)) (transfers d)\<rparr>)"
proof -
  let ?d' = "d\<lparr>transfers := filter (\<lambda>r. \<not> (ck (t_id r) = ck i \<and> dead (sql_now e) r)) (transfers d)\<rparr>"
  have "wp (io_catch
          (io_bind
             (statement (\<lambda>d. Some (length (filter (\<lambda>r. ck (t_id r) = ck i \<and> dead (sql_now e) r) (transfers d)),
                d\<lparr>transfers := filter (\<lambda>r. \<not> (ck (t_id r) = ck i \<and> dead (sql_now e) r)) (transfers d)\<rparr>)))
             (\<lambda>n. io_return (n = 1)))
          (io_return False)) (\<lambda>_ c. durable c = d \<or> durable c = ?d') (\<lambda>_. False) (fresh_conn d (sql_faults e))"
    by (auto intro!: wp_rules wp_statement)
  from with_connection_cases [OF this, of False res d'] show ?thesis
    using assms by (cases res) (auto simp: DeleteFileTransfer_def)
qed

text \<open>One call of any method that writes the table, at time \<open>now\<close>, under any failure.\<close>

inductive file_step :: "(string \<Rightarrow> string) \<Rightarrow> bool \<Rightarrow> time \<Rightarrow> file_db \<Rightarrow> file_db \<Rightarrow> bool"
  for ck found now where
  step_create: "sql_now e = now \<Longrightarrow> CreateFileTransfer ck e t d = (res, d') \<Longrightarrow> file_step ck found now d d'"
| step_advance: "sql_now e = now \<Longrightarrow> AdvanceFileUpload ck e found i sender x y d = (res, d') \<Longrightarrow> file_step ck found now d d'"
| step_complete: "sql_now e = now \<Longrightarrow> CompleteFileTransfer ck e found i sender d = (res, d') \<Longrightarrow> file_step ck found now d d'"
| step_downloaded: "sql_now e = now \<Longrightarrow> MarkFileDownloaded ck e found i receiver d = (res, d') \<Longrightarrow> file_step ck found now d d'"
| step_cancel: "sql_now e = now \<Longrightarrow> CancelFileTransfer ck e found i actor d = (res, d') \<Longrightarrow> file_step ck found now d d'"
| step_delete: "sql_now e = now \<Longrightarrow> DeleteFileTransfer ck e i d = (res, d') \<Longrightarrow> file_step ck found now d d'"

lemma evolvesI:
  assumes "\<And>r'. r' \<in> set (transfers d') \<Longrightarrow> r' \<in> set (transfers d)
      \<or> (t_status r' = ''uploading'' \<and> t_uploaded r' = 0 \<and> ck (t_id r') \<notin> (\<lambda>r. ck (t_id r)) ` set (transfers d))"
    and "\<And>r. r \<in> set (transfers d) \<Longrightarrow> r \<in> set (transfers d') \<or> dead now r"
  shows "evolves ck now d d'"
  unfolding evolves_def using assms row_le_refl by blast

lemma create_evolves:
  assumes "CreateFileTransfer ck e t d = (res, d')"
  shows "evolves ck now d d' \<and> (transfers_ok ck d \<longrightarrow> transfers_ok ck d')"
proof (cases "d' = d")
  case False
  then have ins: "insert_transfer ck (sql_now e) t d = Some (1, d')"
    using CreateFileTransfer_spec [OF assms] by (auto simp: created_def)
  have fresh: "ck (tr_id t) \<notin> (\<lambda>r. ck (t_id r)) ` set (transfers d)"
    using ins by (force simp: insert_transfer_def list_ex_iff split: if_splits)
  obtain r where rows: "transfers d' = transfers d @ [r]" and r: "t_id r = tr_id t" "t_status r = ''uploading''" "t_uploaded r = 0"
    using ins by (auto simp: insert_transfer_def split: if_splits)
  have "evolves ck now d d'"
    by (rule evolvesI) (use rows r fresh in auto)
  moreover have "transfers_ok ck d \<longrightarrow> transfers_ok ck d'"
    using rows r fresh by (auto simp: transfers_ok_def row_ok_def)
  ultimately show ?thesis ..
qed simp

lemma delete_evolves:
  assumes "DeleteFileTransfer ck e i d = (res, d')"
  shows "evolves ck (sql_now e) d d' \<and> (transfers_ok ck d \<longrightarrow> transfers_ok ck d')"
proof -
  have "d' = d \<or> transfers d' = filter (\<lambda>r. \<not> (ck (t_id r) = ck i \<and> dead (sql_now e) r)) (transfers d)"
    using DeleteFileTransfer_spec [OF assms] by auto
  then show ?thesis
    by (auto simp: transfers_ok_def distinct_map_filter intro!: evolvesI)
qed

text \<open>A table with one upload in progress, for the examples.\<close>

definition sample_row :: transfer_row where
  "sample_row = \<lparr>t_id = ''f'', t_sender = 1, t_receiver = 2, t_name = ''a.txt'', t_mime = ''text/plain'', t_total = 10,
     t_uploaded = 4, t_sha256 = ''h'', t_status = ''uploading'', t_created = 0, t_completed = None,
     t_downloaded = None, t_expires = days 7\<rparr>"

definition sample_files :: file_db where
  "sample_files = \<lparr>account_uids = [1, 2], transfers = [sample_row]\<rparr>"

lemma sample_files_ok: "transfers_ok (\<lambda>x. x) sample_files"
  by (simp add: transfers_ok_def row_ok_def sample_files_def sample_row_def)

lemma sample_advance:
  "AdvanceFileUpload (\<lambda>x. x) \<lparr>available = True, sql_faults = [], sql_now = 1\<rparr> False ''f'' 1 4 8 sample_files
     = (Returns True, sample_files\<lparr>transfers := [sample_row\<lparr>t_uploaded := 8\<rparr>]\<rparr>)"
  by (simp add: AdvanceFileUpload_def update_one_def with_connection_def update_transfers_def io_simps clean_simps
      sample_files_def sample_row_def fresh_conn_def)

lemma file_step_evolves:
  assumes "file_step ck found now d d'"
  shows "evolves ck now d d' \<and> (transfers_ok ck d \<longrightarrow> transfers_ok ck d')"
  using assms
proof cases
  case (step_create e t res)
  then show ?thesis using create_evolves by blast
next
  case (step_delete e i res)
  then show ?thesis using delete_evolves by blast
next
  case (step_advance e i sender x y res)
  show ?thesis by (rule update_one_evolves [OF forward_updates(1) step_advance(2) [unfolded AdvanceFileUpload_def]])
next
  case (step_complete e i sender res)
  show ?thesis by (rule update_one_evolves [OF forward_updates(2) step_complete(2) [unfolded CompleteFileTransfer_def]])
next
  case (step_downloaded e i receiver res)
  show ?thesis by (rule update_one_evolves [OF forward_updates(3) step_downloaded(2) [unfolded MarkFileDownloaded_def]])
next
  case (step_cancel e i actor res)
  show ?thesis by (rule update_one_evolves [OF forward_updates(4) step_cancel(2) [unfolded CancelFileTransfer_def]])
qed

lemma row_le_trans: "row_le a b \<Longrightarrow> row_le b c \<Longrightarrow> row_le a c"
  by (auto simp: row_le_def status_le_def)

text \<open>A history of the table: its contents, each with the time of the call that led to it.\<close>

definition file_history :: "(string \<Rightarrow> string) \<Rightarrow> bool \<Rightarrow> (time \<times> file_db) list \<Rightarrow> bool" where
  "file_history ck found h \<longleftrightarrow> (\<forall>k. Suc k < length h \<longrightarrow> file_step ck found (fst (h ! Suc k)) (snd (h ! k)) (snd (h ! Suc k)))"

abbreviation rows_at :: "(time \<times> file_db) list \<Rightarrow> nat \<Rightarrow> transfer_row set" where
  "rows_at h k \<equiv> set (transfers (snd (h ! k)))"

text \<open>Row \<open>r\<close> of the contents \<open>i\<close> was dead when a call between \<open>i\<close> and \<open>j\<close> removed it, after going its way.\<close>

definition removed_between :: "(time \<times> file_db) list \<Rightarrow> nat \<Rightarrow> nat \<Rightarrow> transfer_row \<Rightarrow> bool" where
  "removed_between h i j r \<longleftrightarrow> (\<exists>k r'. i \<le> k \<and> k < j \<and> r' \<in> rows_at h k \<and> row_le r r' \<and> dead (fst (h ! Suc k)) r')"

text \<open>Row \<open>r\<close> of the contents \<open>j\<close> began between \<open>i\<close> and \<open>j\<close>, empty and under an unused identifier.\<close>

definition born :: "(string \<Rightarrow> string) \<Rightarrow> (time \<times> file_db) list \<Rightarrow> nat \<Rightarrow> nat \<Rightarrow> transfer_row \<Rightarrow> bool" where
  "born ck h i j r \<longleftrightarrow> (\<exists>k r'. i \<le> k \<and> k < j \<and> r' \<in> rows_at h (Suc k) \<and> row_le r' r \<and> t_status r' = ''uploading'' \<and> t_uploaded r' = 0
     \<and> ck (t_id r') \<notin> (\<lambda>r. ck (t_id r)) ` rows_at h k)"

lemma removed_later: "removed_between h i j r \<Longrightarrow> removed_between h i (Suc j) r"
  by (meson removed_between_def less_Suc_eq)

lemma born_later: "born ck h i j r \<Longrightarrow> row_le r r' \<Longrightarrow> born ck h i (Suc j) r'"
  unfolding born_def by (meson less_Suc_eq row_le_trans)

lemma history_step:
  assumes "i \<le> j" and "evolves ck (fst (h ! Suc j)) (snd (h ! j)) (snd (h ! Suc j))"
  shows "r \<in> rows_at h j \<Longrightarrow> row_le q r \<Longrightarrow> (\<exists>r' \<in> rows_at h (Suc j). row_le q r') \<or> removed_between h i (Suc j) q"
    and "r' \<in> rows_at h (Suc j) \<Longrightarrow> (\<exists>r \<in> rows_at h j. row_le r r') \<or> born ck h i (Suc j) r'"
proof -
  show "(\<exists>r' \<in> rows_at h (Suc j). row_le q r') \<or> removed_between h i (Suc j) q" if "r \<in> rows_at h j" "row_le q r"
    using assms that row_le_trans [OF that(2)] unfolding evolves_def removed_between_def by (meson lessI)
  show "(\<exists>r \<in> rows_at h j. row_le r r') \<or> born ck h i (Suc j) r'" if "r' \<in> rows_at h (Suc j)"
    using assms that row_le_refl [of r'] unfolding evolves_def born_def by (meson lessI)
qed

text \<open>
  C23: The life of a transfer. Take any history of the table, that is, any sequence of calls that write it, each at any
  time and failing in any way, and any two points of it. A transfer of the earlier point has only moved forward at
  the later one: from uploading to available to downloaded, or from any of these to cancelled, with its parties, size and
  digest unchanged and its offset not gone back; or it was removed in between, by a call that found it expired or
  cancelled. A transfer of the later point stems from one of the earlier point or began in between, empty and
  under an unused identifier. The table stays well formed: offsets are within the size, and what is available is complete.
\<close>

theorem transfer_life_cycle:
  assumes "file_history ck found h" and "i \<le> j" and "j < length h"
  shows "(transfers_ok ck (snd (h ! i)) \<longrightarrow> transfers_ok ck (snd (h ! j)))
    \<and> (\<forall>r \<in> rows_at h i. (\<exists>r' \<in> rows_at h j. row_le r r') \<or> removed_between h i j r)
    \<and> (\<forall>r' \<in> rows_at h j. (\<exists>r \<in> rows_at h i. row_le r r') \<or> born ck h i j r')"
  using assms(2,3)
proof (induction j rule: dec_induct)
  case base
  show ?case by (auto intro: row_le_refl)
next
  case (step j)
  note now = file_step_evolves [OF assms(1) [unfolded file_history_def, rule_format, OF step.prems]]
  note ih = step.IH [OF Suc_lessD [OF step.prems]]
  have "(\<exists>r' \<in> rows_at h (Suc j). row_le r r') \<or> removed_between h i (Suc j) r" if "r \<in> rows_at h i" for r
    using ih that history_step(1) [OF step.hyps(1) conjunct1 [OF now]] removed_later by metis
  moreover have "(\<exists>r \<in> rows_at h i. row_le r r') \<or> born ck h i (Suc j) r'" if "r' \<in> rows_at h (Suc j)" for r'
    using ih history_step(2) [OF step.hyps(1) conjunct1 [OF now] that] born_later row_le_trans by metis
  ultimately show ?case
    using ih now by blast
qed

theorem transfer_life_cycle_witness:
  "\<exists>d. transfers_ok (\<lambda>x. x) d \<and> transfers d = [sample_row\<lparr>t_uploaded := 8\<rparr>] \<and> (\<exists>r \<in> set (transfers d). row_le sample_row r)"
proof -
  let ?d = "sample_files\<lparr>transfers := [sample_row\<lparr>t_uploaded := 8\<rparr>]\<rparr>"
  have "file_history (\<lambda>x. x) False [(0, sample_files), (1, ?d)]"
    using step_advance [OF _ sample_advance] by (simp add: file_history_def)
  from transfer_life_cycle [OF this, of 0 1] show ?thesis
    using sample_files_ok by (auto simp: removed_between_def dead_def sample_files_def sample_row_def days_def intro!: exI [of _ ?d])
qed

text \<open>
  C32: Uploads are serialised by the stored offset. After one upload has moved a transfer on from
  an offset, every other attempt to move it on from that same offset is refused and changes
  nothing, whatever fails.
\<close>

theorem upload_offset_claimed_once:
  assumes "transfers_ok ck d" and "AdvanceFileUpload ck e found i sender x y d = (Returns True, d1)"
  shows "AdvanceFileUpload ck e' found' i sender' x y' d1 = (Returns False, d1)"
proof -
  let ?P = "\<lambda>s y r. ck (t_id r) = ck i \<and> t_sender r = s \<and> t_status r = ''uploading''
            \<and> t_uploaded r = x \<and> y > t_uploaded r \<and> y \<le> t_total r"
  have upd: "update_transfers found (?P sender y) (\<lambda>r. r\<lparr>t_uploaded := y\<rparr>) d = Some (1, d1)"
    using update_one_spec [OF assms(2) [unfolded AdvanceFileUpload_def]] by simp
  then obtain r where r: "r \<in> set (transfers d)" "?P sender y r"
    using update_transfers_hit [of found "?P sender y" "\<lambda>r. r\<lparr>t_uploaded := y\<rparr>" d 0 d1] by auto
  have d1: "transfers d1 = map (\<lambda>r. if ?P sender y r then r\<lparr>t_uploaded := y\<rparr> else r) (transfers d)"
    using upd by (auto simp: update_transfers_def)
  have uniq: "r' = r" if "r' \<in> set (transfers d)" "ck (t_id r') = ck i" for r'
    using assms(1) r that by (auto simp: transfers_ok_def distinct_map inj_on_def)
  have none: "\<not> ?P sender' y' q" if q: "q \<in> set (transfers d1)" for q
  proof -
    obtain r' where r': "r' \<in> set (transfers d)" "q = (if ?P sender y r' then r'\<lparr>t_uploaded := y\<rparr> else r')"
      using q unfolding d1 set_map by blast
    show ?thesis
    proof (cases "ck (t_id r') = ck i")
      case True
      then have "q = r\<lparr>t_uploaded := y\<rparr>"
        using uniq [OF r'(1)] r'(2) r(2) by auto
      then show ?thesis
        using r(2) by auto
    next
      case False
      then show ?thesis
        using r'(2) by simp
    qed
  qed
  have miss: "update_transfers found' (?P sender' y') (\<lambda>r. r\<lparr>t_uploaded := y'\<rparr>) d1 = Some (0, d1)"
    by (rule update_transfers_miss) (rule none)
  obtain res d2 where run: "AdvanceFileUpload ck e' found' i sender' x y' d1 = (res, d2)"
    by fastforce
  show ?thesis
    using update_one_spec [OF run [unfolded AdvanceFileUpload_def]] unfolding run miss by auto
qed

theorem upload_offset_claimed_once_witness:
  "AdvanceFileUpload (\<lambda>x. x) \<lparr>available = True, sql_faults = [], sql_now = 1\<rparr> False ''f'' 1 4 9
     (sample_files\<lparr>transfers := [sample_row\<lparr>t_uploaded := 8\<rparr>]\<rparr>)
   = (Returns False, sample_files\<lparr>transfers := [sample_row\<lparr>t_uploaded := 8\<rparr>]\<rparr>)"
  by (rule upload_offset_claimed_once [OF sample_files_ok sample_advance])

text \<open>
  The quota at creation. The check adds the requested size to the stored ones in 64 bits, so it speaks about the true
  sum only where that sum does not wrap; the one caller bounds the requested size first.
\<close>

lemma creation_within_quota:
  assumes "CreateFileTransfer ck e t d = (Returns True, d')"
    and "snd (quota_usage (sql_now e) (tr_sender t) d) + unat (tr_total t) < 2 ^ 64"
    and "fst (quota_usage (sql_now e) (tr_sender t) d) < 2 ^ 64"
  shows "quota_usage (sql_now e) (tr_sender t) d' =
      (fst (quota_usage (sql_now e) (tr_sender t) d) + 1,
       snd (quota_usage (sql_now e) (tr_sender t) d) + unat (tr_total t))
    \<and> fst (quota_usage (sql_now e) (tr_sender t) d') \<le> 16
    \<and> snd (quota_usage (sql_now e) (tr_sender t) d') \<le> 2 ^ 30"
proof -
  obtain n s where q: "quota_usage (sql_now e) (tr_sender t) d = (n, s)"
    by fastforce
  have ins: "insert_transfer ck (sql_now e) t d = Some (1, d')"
    and lim: "(word_of_nat n :: 64 word) < 16" "(word_of_nat s :: 64 word) + tr_total t \<le> 1024 * 1024 * 1024"
    using CreateFileTransfer_spec [OF assms(1)] q by (simp_all add: created_def)
  have "n < 16"
    using lim(1) assms(3) q by (simp add: word_less_nat_alt unat_of_nat)
  moreover have "s + unat (tr_total t) \<le> 2 ^ 30"
    using lim(2) assms(2) q by (simp add: word_le_nat_alt unat_word_ariths unat_of_nat)
  moreover have "quota_usage (sql_now e) (tr_sender t) d' = (n + 1, s + unat (tr_total t))"
    using ins q by (auto simp: insert_transfer_def quota_usage_def active_def days_def Let_def split: if_splits)
  ultimately show ?thesis
    using q by simp
qed

end
