(* ===== verification/Encrypted_Store.thy ===== *)
theory Encrypted_Store
  imports Sql_Connection
begin

unbundle bit_operations_syntax

text \<open>
  The encrypted attachment store \<^verbatim>\<open>servers/chat/files/EncryptedFileStore.cpp\<close> behind the
  interface \<^verbatim>\<open>common/ResourceStore.h\<close>. The directory is a map from transfer identifiers
  to the bytes of their \<^verbatim>\<open>.enc\<close> files, with the set of side-car lock files that exist. A
  write can be torn: \<open>Some k\<close> as the failure argument means that the first \<open>k\<close> bytes reached
  the disk before the stream, the flush or the sync failed.

  libsodium is the argument \<open>crypto\<close>: the key derivation, the authenticated encryption and
  decryption and the hash. What the code relies on is \<open>aead_ok\<close>: ciphertexts are 16 bytes
  longer than the plaintext and decrypt to it.
\<close>


record crypto =
  transferKey :: "string \<Rightarrow> byte list"
  encrypt :: "byte list \<Rightarrow> byte list \<Rightarrow> byte list \<Rightarrow> byte list option"
  decrypt :: "byte list \<Rightarrow> byte list \<Rightarrow> byte list \<Rightarrow> byte list option"
  sha256_hex :: "byte list \<Rightarrow> string"

definition aead_ok :: "crypto \<Rightarrow> bool" where
  "aead_ok cr \<longleftrightarrow> (\<forall>k n p. \<exists>c. encrypt cr k n p = Some c \<and> length c = length p + 16 \<and> decrypt cr k n c = Some p)"

record disk =
  enc_files :: "string \<Rightarrow> byte list option"
  lock_files :: "string \<Rightarrow> bool"

definition Magic :: "byte list" where
  "Magic = map of_char ''CHATFILE1''"

definition TagBytes :: nat where
  "TagBytes = 16"

definition ChunkBytes :: nat where
  "ChunkBytes = 32 * 1024"

definition valid_transfer_id :: "string \<Rightarrow> bool" where
  "valid_transfer_id i \<longleftrightarrow> length i = 36 \<and> list_all (\<lambda>c. c \<in> set ''0123456789abcdef-'') i"

definition readLength :: "byte list \<Rightarrow> 32 word option" where
  "readLength bs =
     (case bs of
        b0 # b1 # b2 # b3 # _ \<Rightarrow>
          Some (push_bit 24 (ucast b0) OR push_bit 16 (ucast b1) OR push_bit 8 (ucast b2) OR ucast b3)
      | _ \<Rightarrow> None)"

definition writeLength :: "32 word \<Rightarrow> byte list" where
  "writeLength v = [ucast (drop_bit 24 v), ucast (drop_bit 16 v), ucast (drop_bit 8 v), ucast v]"

definition nonceFor :: "byte list \<Rightarrow> 64 word \<Rightarrow> byte list" where
  "nonceFor prefix chunk_index = prefix @ map (\<lambda>k. ucast (drop_bit (k * 8) chunk_index)) [0..<8]"

definition create :: "byte list \<Rightarrow> nat option \<Rightarrow> string \<Rightarrow> disk \<Rightarrow> unit outcome \<times> disk" where
  "create prefix fail i d =
     (if \<not> valid_transfer_id i then (Throws, d)
      else let d1 = d\<lparr>lock_files := (lock_files d)(i := True)\<rparr> in
        if enc_files d1 i \<noteq> None then (Throws, d1)
        else case fail of
          None \<Rightarrow> (Returns (), d1\<lparr>enc_files := (enc_files d1)(i := Some (Magic @ prefix))\<rparr>)
        | Some k \<Rightarrow> (Throws, d1\<lparr>enc_files := (enc_files d1)(i := Some (take k (Magic @ prefix)))\<rparr>))"

text \<open>The header of a file: the prefix of its nonces and what follows.\<close>

definition read_header :: "byte list \<Rightarrow> (byte list \<times> byte list) option" where
  "read_header bs =
     (if length bs < 25 \<or> take 9 bs \<noteq> Magic then None else Some (take 16 (drop 9 bs), drop 25 bs))"

text \<open>Skipping the confirmed records: each must be a full chunk that lies within the file.\<close>

fun skip_confirmed :: "nat \<Rightarrow> byte list \<Rightarrow> byte list option" where
  "skip_confirmed 0 rest = Some rest"
| "skip_confirmed (Suc n) rest =
     (case readLength rest of
        None \<Rightarrow> None
      | Some confirmed_size \<Rightarrow>
          if unat confirmed_size \<noteq> ChunkBytes \<or> length (drop 4 rest) < unat confirmed_size + TagBytes then None
          else skip_confirmed n (drop (unat confirmed_size + TagBytes) (drop 4 rest)))"

definition append_file ::
  "crypto \<Rightarrow> nat option \<Rightarrow> string \<Rightarrow> nat \<Rightarrow> byte list \<Rightarrow> disk \<Rightarrow> nat outcome \<times> disk" where
  "append_file cr fail i offset plaintext d =
     (if plaintext = [] \<or> length plaintext > ChunkBytes \<or> offset mod ChunkBytes \<noteq> 0 then (Throws, d)
      else if \<not> valid_transfer_id i then (Throws, d)
      else if \<not> lock_files d i then (Throws, d)
      else case enc_files d i of
        None \<Rightarrow> (Throws, d)
      | Some bs \<Rightarrow>
          (case read_header bs of
             None \<Rightarrow> (Throws, d)
           | Some (prefix, rest) \<Rightarrow>
               (case skip_confirmed (offset div ChunkBytes) rest of
                  None \<Rightarrow> (Throws, d)
                | Some tail \<Rightarrow>
                    (case encrypt cr (transferKey cr i) (nonceFor prefix (word_of_nat (offset div ChunkBytes))) plaintext of
                       None \<Rightarrow> (Throws, d)
                     | Some ciphertext \<Rightarrow>
                         if tail \<noteq> [] then
                           (case readLength tail of
                              None \<Rightarrow> (Throws, d)
                            | Some existing_size \<Rightarrow>
                                if unat existing_size \<noteq> length plaintext \<or> length tail < 4 + length ciphertext
                                then (Throws, d)
                                else if take (length ciphertext) (drop 4 tail) \<noteq> ciphertext then (Throws, d)
                                else if fail \<noteq> None then (Throws, d)
                                else (Returns (offset + length plaintext), d))
                         else
                           let new = writeLength (word_of_nat (length plaintext)) @ ciphertext in
                           (case fail of
                              None \<Rightarrow> (Returns (offset + length plaintext),
                                       d\<lparr>enc_files := (enc_files d)(i := Some (bs @ new))\<rparr>)
                            | Some k \<Rightarrow> (Throws, d\<lparr>enc_files := (enc_files d)(i := Some (bs @ take k new))\<rparr>))))))"

fun read_record :: "nat \<Rightarrow> byte list \<Rightarrow> byte list option" where
  "read_record target rest =
     (case readLength rest of
        None \<Rightarrow> None
      | Some plain_size \<Rightarrow>
          if plain_size = 0 \<or> unat plain_size > ChunkBytes then None
          else if length (drop 4 rest) < unat plain_size + TagBytes then None
          else (case target of
              0 \<Rightarrow> Some (take (unat plain_size + TagBytes) (drop 4 rest))
            | Suc n \<Rightarrow> read_record n (drop (unat plain_size + TagBytes) (drop 4 rest))))"

declare read_record.simps [simp del]

definition read :: "crypto \<Rightarrow> string \<Rightarrow> nat \<Rightarrow> nat \<Rightarrow> disk \<Rightarrow> byte list outcome" where
  "read cr i offset maximum_bytes d =
     (if offset mod ChunkBytes \<noteq> 0 \<or> maximum_bytes = 0 then Throws
      else if \<not> valid_transfer_id i \<or> \<not> lock_files d i then Throws
      else case enc_files d i of
        None \<Rightarrow> Throws
      | Some bs \<Rightarrow>
          (case read_header bs of
             None \<Rightarrow> Throws
           | Some (prefix, rest) \<Rightarrow>
               (case read_record (offset div ChunkBytes) rest of
                  None \<Rightarrow> Throws
                | Some ciphertext \<Rightarrow>
                    (case decrypt cr (transferKey cr i) (nonceFor prefix (word_of_nat (offset div ChunkBytes))) ciphertext of
                       None \<Rightarrow> Throws
                     | Some plaintext \<Rightarrow> if length plaintext > maximum_bytes then Throws else Returns plaintext))))"

function hash_chunks :: "crypto \<Rightarrow> string \<Rightarrow> nat \<Rightarrow> nat \<Rightarrow> byte list \<Rightarrow> disk \<Rightarrow> byte list outcome" where
  "hash_chunks cr i offset total_size acc d =
     (if offset < total_size
      then (case read cr i offset ChunkBytes d of
              Throws \<Rightarrow> Throws
            | Returns chunk \<Rightarrow> hash_chunks cr i (offset + ChunkBytes) total_size (acc @ chunk) d)
      else Returns acc)"
  by pat_completeness auto
termination
  by (relation "measure (\<lambda>(cr, i, offset, total_size, acc, d). total_size - offset)") (auto simp: ChunkBytes_def)

declare hash_chunks.simps [simp del]

definition sha256 :: "crypto \<Rightarrow> string \<Rightarrow> nat \<Rightarrow> disk \<Rightarrow> string outcome" where
  "sha256 cr i total_size d =
     (case hash_chunks cr i 0 total_size [] d of Throws \<Rightarrow> Throws | Returns bs \<Rightarrow> Returns (sha256_hex cr bs))"

definition remove_file :: "string \<Rightarrow> disk \<Rightarrow> unit outcome \<times> disk" where
  "remove_file i d =
     (if \<not> valid_transfer_id i then (Throws, d)
      else (Returns (), d\<lparr>enc_files := (enc_files d)(i := None)\<rparr>))"

lemma readLength_writeLength [simp]: "readLength (writeLength v @ xs) = Some v"
proof -
  have "push_bit 24 (ucast (ucast (drop_bit 24 v) :: 8 word)) OR push_bit 16 (ucast (ucast (drop_bit 16 v) :: 8 word))
      OR push_bit 8 (ucast (ucast (drop_bit 8 v) :: 8 word)) OR ucast (ucast v :: 8 word) = v" (is "?w = v")
  proof (rule bit_word_eqI)
    fix n
    assume "n < LENGTH(32)"
    then show "bit ?w n = bit v n"
      by (cases "n < 8"; cases "n < 16"; cases "n < 24") (auto simp: bit_simps)
  qed
  then show ?thesis
    by (simp add: readLength_def writeLength_def)
qed

lemma length_writeLength [simp]: "length (writeLength v) = 4"
  by (simp add: writeLength_def)

lemma nonceFor_inj:
  assumes "nonceFor prefix a = nonceFor prefix b" shows "a = b"
proof (rule bit_word_eqI)
  fix n
  assume n: "n < LENGTH(64)"
  have "(ucast (drop_bit (n div 8 * 8) a) :: byte) = ucast (drop_bit (n div 8 * 8) b)"
    using assms n by (auto simp: nonceFor_def dest!: bspec [of _ _ "n div 8"])
  then have "bit (ucast (drop_bit (n div 8 * 8) a) :: byte) (n mod 8) = bit (ucast (drop_bit (n div 8 * 8) b) :: byte) (n mod 8)"
    by simp
  then show "bit a n = bit b n"
    using n by (simp add: bit_simps)
qed

text \<open>
  What a file means: the list of plaintext chunks it was written from. \<open>junk\<close> is what a torn
  write may have left behind the last complete record.
\<close>

definition ciphertext_of :: "crypto \<Rightarrow> string \<Rightarrow> byte list \<Rightarrow> nat \<Rightarrow> byte list \<Rightarrow> byte list" where
  "ciphertext_of cr i prefix k p =
     (case encrypt cr (transferKey cr i) (nonceFor prefix (word_of_nat k)) p of None \<Rightarrow> [] | Some c \<Rightarrow> c)"

definition record_of :: "crypto \<Rightarrow> string \<Rightarrow> byte list \<Rightarrow> nat \<Rightarrow> byte list \<Rightarrow> byte list" where
  "record_of cr i prefix k p = writeLength (word_of_nat (length p)) @ ciphertext_of cr i prefix k p"

fun records :: "crypto \<Rightarrow> string \<Rightarrow> byte list \<Rightarrow> nat \<Rightarrow> byte list list \<Rightarrow> byte list" where
  "records cr i prefix k [] = []"
| "records cr i prefix k (p # ps) = record_of cr i prefix k p @ records cr i prefix (Suc k) ps"

definition chunk_ok :: "byte list \<Rightarrow> bool" where
  "chunk_ok p \<longleftrightarrow> p \<noteq> [] \<and> length p \<le> ChunkBytes"

definition full :: "byte list \<Rightarrow> bool" where
  "full p \<longleftrightarrow> length p = ChunkBytes"

definition chunked :: "byte list list \<Rightarrow> bool" where
  "chunked cs \<longleftrightarrow> (\<forall>p \<in> set cs. chunk_ok p) \<and> (\<forall>p \<in> set (butlast cs). full p)"

definition file_holds :: "crypto \<Rightarrow> string \<Rightarrow> byte list list \<Rightarrow> byte list \<Rightarrow> disk \<Rightarrow> bool" where
  "file_holds cr i cs junk d \<longleftrightarrow> valid_transfer_id i \<and> lock_files d i \<and> chunked cs
     \<and> (\<exists>prefix. length prefix = 16 \<and> enc_files d i = Some (Magic @ prefix @ records cr i prefix 0 cs @ junk))"

lemma full_chunk_ok: "full p \<Longrightarrow> chunk_ok p"
  by (auto simp: full_def chunk_ok_def ChunkBytes_def)

lemma unat_chunk_length [simp]: "length p \<le> ChunkBytes \<Longrightarrow> unat (word_of_nat (length p) :: 32 word) = length p"
  by (simp add: ChunkBytes_def unat_of_nat)

lemma unat_ChunkBytes [simp]: "unat (word_of_nat ChunkBytes :: 32 word) = ChunkBytes"
  by (simp add: ChunkBytes_def)

lemma encrypt_ciphertext:
  assumes "aead_ok cr"
  shows "encrypt cr (transferKey cr i) (nonceFor prefix (word_of_nat k)) p = Some (ciphertext_of cr i prefix k p)"
    "length (ciphertext_of cr i prefix k p) = length p + 16"
    "decrypt cr (transferKey cr i) (nonceFor prefix (word_of_nat k)) (ciphertext_of cr i prefix k p) = Some p"
proof -
  obtain c where "encrypt cr (transferKey cr i) (nonceFor prefix (word_of_nat k)) p = Some c"
    "length c = length p + 16" "decrypt cr (transferKey cr i) (nonceFor prefix (word_of_nat k)) c = Some p"
    using assms unfolding aead_ok_def by blast
  then show "encrypt cr (transferKey cr i) (nonceFor prefix (word_of_nat k)) p = Some (ciphertext_of cr i prefix k p)"
    "length (ciphertext_of cr i prefix k p) = length p + 16"
    "decrypt cr (transferKey cr i) (nonceFor prefix (word_of_nat k)) (ciphertext_of cr i prefix k p) = Some p"
    by (simp_all add: ciphertext_of_def)
qed

lemma ciphertext_inj: "aead_ok cr \<Longrightarrow> ciphertext_of cr i prefix k p = ciphertext_of cr i prefix k q \<Longrightarrow> p = q"
  by (metis encrypt_ciphertext(3) option.inject)

lemma length_Magic [simp]: "length Magic = 9"
  by (simp add: Magic_def)

lemma read_header_file [simp]: "length prefix = 16 \<Longrightarrow> read_header (Magic @ prefix @ rest) = Some (prefix, rest)"
  by (simp add: read_header_def)

lemma readLength_record [simp]: "readLength (record_of cr i prefix k p @ xs) = Some (word_of_nat (length p))"
  by (simp add: record_of_def)

lemma drop_record [simp]:
  "drop 4 (record_of cr i prefix k p @ xs) = ciphertext_of cr i prefix k p @ xs"
  "drop 4 (record_of cr i prefix k p) = ciphertext_of cr i prefix k p"
  by (simp_all add: record_of_def)

lemma records_append:
  "records cr i prefix k (ps @ qs) = records cr i prefix k ps @ records cr i prefix (k + length ps) qs"
  by (induction ps arbitrary: k) simp_all

lemma skip_confirmed_step:
  assumes "aead_ok cr" and "full p"
  shows "skip_confirmed (Suc n) (record_of cr i prefix k p @ xs) = skip_confirmed n xs"
proof -
  have l: "unat (word_of_nat (length p) :: 32 word) = ChunkBytes" "length (ciphertext_of cr i prefix k p) = ChunkBytes + TagBytes"
    using assms(2) encrypt_ciphertext(2) [OF assms(1), of i prefix k p] by (simp_all add: full_def TagBytes_def)
  show ?thesis
    unfolding skip_confirmed.simps readLength_record option.case drop_record(1) l(1) using l(2) by simp
qed

lemma skip_confirmed_records:
  assumes "aead_ok cr" and "\<forall>p \<in> set ps. full p"
  shows "skip_confirmed (length ps) (records cr i prefix k ps @ rest) = Some rest"
  using assms(2)
  by (induction ps arbitrary: k) (simp_all add: skip_confirmed_step [OF assms(1)] del: skip_confirmed.simps(2))

lemma read_record_step:
  assumes "aead_ok cr" and "chunk_ok p"
  shows "read_record t (record_of cr i prefix k p @ xs) =
    (case t of 0 \<Rightarrow> Some (ciphertext_of cr i prefix k p) | Suc n \<Rightarrow> read_record n xs)"
proof -
  have l: "unat (word_of_nat (length p) :: 32 word) = length p"
    using assms(2) by (simp add: chunk_ok_def)
  then have z: "(word_of_nat (length p) :: 32 word) \<noteq> 0"
    using assms(2) by (metis chunk_ok_def length_0_conv unsigned_0)
  have c: "length (ciphertext_of cr i prefix k p) = length p + TagBytes"
    using encrypt_ciphertext(2) [OF assms(1), of i prefix k p] by (simp add: TagBytes_def)
  show ?thesis
    using assms(2) c z
    by (subst read_record.simps, unfold readLength_record option.case drop_record(1) l)
      (simp add: chunk_ok_def split: nat.split)
qed

lemma read_record_records:
  assumes "aead_ok cr" and "\<forall>p \<in> set (ps @ [q]). chunk_ok p"
  shows "read_record (length ps) (records cr i prefix k ps @ record_of cr i prefix (k + length ps) q @ rest)
    = Some (ciphertext_of cr i prefix (k + length ps) q)"
  using assms(2)
proof (induction ps arbitrary: k)
  case (Cons p ps)
  then show ?case
    using Cons.IH [of "Suc k"] by (simp add: read_record_step [OF assms(1)])
qed (simp add: read_record_step [OF assms(1)])

text \<open>The file, seen from its \<open>n\<close>-th chunk.\<close>

lemma records_nth:
  "n < length cs \<Longrightarrow> records cr i prefix 0 cs =
     records cr i prefix 0 (take n cs) @ record_of cr i prefix n (cs ! n) @ records cr i prefix (Suc n) (drop (Suc n) cs)"
proof -
  assume n: "n < length cs"
  have "records cr i prefix 0 cs = records cr i prefix 0 (take n cs @ drop n cs)"
    by simp
  also have "\<dots> = records cr i prefix 0 (take n cs) @ records cr i prefix n (drop n cs)"
    unfolding records_append using n by simp
  finally show ?thesis
    using n by (simp add: Cons_nth_drop_Suc [symmetric])
qed

lemma chunked_take_full:
  assumes "chunked cs" and "n < length cs"
  shows "\<forall>p \<in> set (take n cs). full p" "\<forall>p \<in> set (take n cs @ [cs ! n]). chunk_ok p" "length (take n cs) = n"
proof -
  have "take n cs = take n (butlast cs)"
    using assms(2) by (simp add: take_butlast)
  then show "\<forall>p \<in> set (take n cs). full p"
    using assms(1) unfolding chunked_def by (metis in_set_takeD)
  show "\<forall>p \<in> set (take n cs @ [cs ! n]). chunk_ok p"
    using assms unfolding chunked_def by (auto dest: in_set_takeD)
qed (use assms(2) in simp)

lemma skip_to_chunk:
  assumes "aead_ok cr" and "chunked cs" and "n < length cs"
  shows "skip_confirmed n (records cr i prefix 0 cs @ junk) =
    Some (record_of cr i prefix n (cs ! n) @ records cr i prefix (Suc n) (drop (Suc n) cs) @ junk)"
  using skip_confirmed_records [OF assms(1) chunked_take_full(1) [OF assms(2,3)], of i prefix 0]
    chunked_take_full(3) [OF assms(2,3)]
  by (simp add: records_nth [OF assms(3)])

lemma read_chunk:
  assumes "aead_ok cr" and "file_holds cr i cs junk d" and "n < length cs" and "length (cs ! n) \<le> m"
  shows "read cr i (n * ChunkBytes) m d = Returns (cs ! n)"
proof -
  obtain prefix where p: "length prefix = 16" "enc_files d i = Some (Magic @ prefix @ records cr i prefix 0 cs @ junk)"
    and g: "valid_transfer_id i" "lock_files d i" "chunked cs"
    using assms(2) unfolding file_holds_def by blast
  have "read_record n (records cr i prefix 0 cs @ junk) = Some (ciphertext_of cr i prefix n (cs ! n))"
    using read_record_records [OF assms(1) chunked_take_full(2) [OF g(3) assms(3)], of i prefix 0]
      chunked_take_full(3) [OF g(3) assms(3)]
    by (simp add: records_nth [OF assms(3)])
  moreover have "cs ! n \<noteq> []"
    using g(3) assms(3) by (auto simp: chunked_def chunk_ok_def)
  then have "m \<noteq> 0"
    using assms(4) by (metis le_0_eq length_0_conv)
  ultimately show ?thesis
    using p g assms(4) encrypt_ciphertext(3) [OF assms(1), of i prefix n "cs ! n"]
    by (auto simp: read_def ChunkBytes_def)
qed

text \<open>Appending after full chunks adds a chunk; on a torn write it leaves a part of the record.\<close>

lemma append_next:
  assumes "aead_ok cr" and "file_holds cr i cs [] d" and "\<forall>p \<in> set cs. full p" and "chunk_ok p"
  obtains prefix where "length prefix = 16"
    and "enc_files d i = Some (Magic @ prefix @ records cr i prefix 0 cs)"
    and "append_file cr fail i (length cs * ChunkBytes) p d =
      (case fail of
         None \<Rightarrow> (Returns (length cs * ChunkBytes + length p),
           d\<lparr>enc_files := (enc_files d)(i := Some (Magic @ prefix @ records cr i prefix 0 (cs @ [p])))\<rparr>)
       | Some k \<Rightarrow> (Throws, d\<lparr>enc_files := (enc_files d)(i := Some (Magic @ prefix @ records cr i prefix 0 cs
           @ take k (record_of cr i prefix (length cs) p)))\<rparr>))"
proof -
  obtain prefix where p: "length prefix = 16" "enc_files d i = Some (Magic @ prefix @ records cr i prefix 0 cs)"
    and g: "valid_transfer_id i" "lock_files d i"
    using assms(2) unfolding file_holds_def by auto
  have "skip_confirmed (length cs) (records cr i prefix 0 cs) = Some []"
    using skip_confirmed_records [OF assms(1,3), of i prefix 0 "[]"] by simp
  then have "append_file cr fail i (length cs * ChunkBytes) p d =
      (case fail of
         None \<Rightarrow> (Returns (length cs * ChunkBytes + length p),
           d\<lparr>enc_files := (enc_files d)(i := Some (Magic @ prefix @ records cr i prefix 0 (cs @ [p])))\<rparr>)
       | Some k \<Rightarrow> (Throws, d\<lparr>enc_files := (enc_files d)(i := Some (Magic @ prefix @ records cr i prefix 0 cs
           @ take k (record_of cr i prefix (length cs) p)))\<rparr>))"
    using p g assms(4) encrypt_ciphertext(1) [OF assms(1), of i prefix "length cs" p]
    by (auto simp: append_file_def chunk_ok_def records_append record_of_def Let_def ChunkBytes_def split: option.split)
  then show thesis
    using p that by blast
qed

text \<open>An offset that is already recorded is never written again.\<close>

lemma append_recorded:
  assumes "aead_ok cr" and "file_holds cr i cs junk d" and "n < length cs"
  shows "append_file cr fail i (n * ChunkBytes) p d =
    (if p = cs ! n \<and> fail = None then Returns (n * ChunkBytes + length p) else Throws, d)"
proof (cases "chunk_ok p")
  case False
  then have "p \<noteq> cs ! n"
    using assms(2,3) by (auto simp: file_holds_def chunked_def)
  with False show ?thesis
    by (auto simp: append_file_def chunk_ok_def)
next
  case True
  obtain prefix where p: "length prefix = 16" "enc_files d i = Some (Magic @ prefix @ records cr i prefix 0 cs @ junk)"
    and g: "valid_transfer_id i" "lock_files d i" "chunked cs"
    using assms(2) unfolding file_holds_def by blast
  define rest where "rest = records cr i prefix (Suc n) (drop (Suc n) cs) @ junk"
  have sk: "skip_confirmed n (records cr i prefix 0 cs @ junk) = Some (record_of cr i prefix n (cs ! n) @ rest)"
    using skip_to_chunk [OF assms(1) g(3) assms(3)] by (simp add: rest_def)
  have ne: "record_of cr i prefix n (cs ! n) @ rest \<noteq> []"
    by (simp add: record_of_def writeLength_def)
  have ok: "chunk_ok (cs ! n)"
    using g(3) assms(3) by (simp add: chunked_def)
  have len: "length (record_of cr i prefix n (cs ! n) @ rest) = 4 + length (cs ! n) + 16 + length rest"
    using encrypt_ciphertext(2) [OF assms(1)] by (simp add: record_of_def)
  have enc: "encrypt cr (transferKey cr i) (nonceFor prefix (word_of_nat n)) p = Some (ciphertext_of cr i prefix n p)"
    "length (ciphertext_of cr i prefix n p) = length p + 16"
    using encrypt_ciphertext [OF assms(1)] by auto
  have same: "take (length p + 16) (ciphertext_of cr i prefix n (cs ! n) @ rest) = ciphertext_of cr i prefix n p \<longleftrightarrow> p = cs ! n"
    if "length (cs ! n) = length p"
    using that encrypt_ciphertext(2) [OF assms(1), of i prefix n "cs ! n"]
      ciphertext_inj [OF assms(1), of i prefix n "cs ! n" p] by auto
  have "append_file cr fail i (n * ChunkBytes) p d =
      (if length (cs ! n) \<noteq> length p then (Throws, d)
       else if take (length p + 16) (ciphertext_of cr i prefix n (cs ! n) @ rest) \<noteq> ciphertext_of cr i prefix n p then (Throws, d)
       else if fail \<noteq> None then (Throws, d) else (Returns (n * ChunkBytes + length p), d))"
    using True g p sk ne enc ok len
    by (simp add: append_file_def chunk_ok_def ChunkBytes_def)
  then show ?thesis
    using same by auto
qed

text \<open>Sending all chunks of a file one after the other, as an uploading client does.\<close>

fun upload_all ::
  "(string \<Rightarrow> nat \<Rightarrow> byte list \<Rightarrow> 'd \<Rightarrow> nat outcome \<times> 'd) \<Rightarrow> string \<Rightarrow> nat \<Rightarrow> byte list list \<Rightarrow> 'd \<Rightarrow> bool \<times> 'd" where
  "upload_all append_fn i k [] d = (True, d)"
| "upload_all append_fn i k (p # ps) d =
     (case append_fn i (k * ChunkBytes) p d of
        (Throws, d1) \<Rightarrow> (False, d1)
      | (Returns _, d1) \<Rightarrow> upload_all append_fn i (Suc k) ps d1)"

lemma chunked_append_Cons: "chunked (cs @ p # ps) \<Longrightarrow> (\<forall>c \<in> set cs. full c) \<and> chunk_ok p"
  by (auto simp: chunked_def butlast_append)

lemma chunked_length:
  assumes "chunked cs"
  shows "k * ChunkBytes < length (concat cs) \<longleftrightarrow> k < length cs"
proof (cases cs rule: rev_cases)
  case (snoc ps p)
  have "length (concat ps) = length ps * ChunkBytes" if "\<forall>c \<in> set ps. full c" for ps
    using that by (induction ps) (auto simp: full_def)
  then have "length (concat cs) = length ps * ChunkBytes + length p"
    using assms snoc by (simp add: chunked_def)
  moreover have "0 < length p" "length p \<le> ChunkBytes"
    using assms snoc by (auto simp: chunked_def chunk_ok_def)
  moreover have "k * ChunkBytes < length ps * ChunkBytes + l \<longleftrightarrow> k \<le> length ps" if "0 < l" "l \<le> ChunkBytes" for l
  proof (cases "k \<le> length ps")
    case True
    then have "k * ChunkBytes \<le> length ps * ChunkBytes"
      by (rule mult_le_mono1)
    then show ?thesis
      using that True by linarith
  next
    case False
    then have "Suc (length ps) * ChunkBytes \<le> k * ChunkBytes"
      by (intro mult_le_mono1) simp
    then show ?thesis
      using that False by simp
  qed
  ultimately show ?thesis
    using snoc by (simp add: less_Suc_eq_le)
qed simp

lemma hash_chunks_from:
  assumes "aead_ok cr" and "file_holds cr i cs junk d" and "k \<le> length cs"
  shows "hash_chunks cr i (k * ChunkBytes) (length (concat cs)) acc d = Returns (acc @ concat (drop k cs))"
  using assms(3)
proof (induction "length cs - k" arbitrary: k acc)
  case 0
  then show ?case
    using assms(2) by (subst hash_chunks.simps) (simp add: file_holds_def chunked_length)
next
  case (Suc n)
  then have k: "k < length cs"
    by simp
  have "read cr i (k * ChunkBytes) ChunkBytes d = Returns (cs ! k)"
    by (rule read_chunk [OF assms(1,2) k]) (use assms(2) k in \<open>auto simp: file_holds_def chunked_def chunk_ok_def\<close>)
  moreover have "k * ChunkBytes < length (concat cs)"
    using assms(2) k by (simp add: file_holds_def chunked_length)
  moreover have "hash_chunks cr i (Suc k * ChunkBytes) (length (concat cs)) (acc @ cs ! k) d
      = Returns ((acc @ cs ! k) @ concat (drop (Suc k) cs))"
    using Suc k by (intro Suc.hyps) auto
  ultimately show ?case
    using k by (subst hash_chunks.simps) (simp add: add.commute Cons_nth_drop_Suc [symmetric])
qed

text \<open>
  The interface \<^verbatim>\<open>ResourceStore\<close> as its clients use it: \<open>holds i cs d\<close> says that the
  resource \<open>i\<close> consists of the chunks \<open>cs\<close>.
\<close>

locale resource_store =
  fixes good :: bool
    and holds :: "string \<Rightarrow> byte list list \<Rightarrow> 'd \<Rightarrow> bool"
    and digest :: "byte list \<Rightarrow> string"
    and create_r :: "string \<Rightarrow> 'd \<Rightarrow> unit outcome \<times> 'd"
    and append_r :: "string \<Rightarrow> nat \<Rightarrow> byte list \<Rightarrow> 'd \<Rightarrow> nat outcome \<times> 'd"
    and read_r :: "string \<Rightarrow> nat \<Rightarrow> nat \<Rightarrow> 'd \<Rightarrow> byte list outcome"
    and sha256_r :: "string \<Rightarrow> nat \<Rightarrow> 'd \<Rightarrow> string outcome"
    and remove_r :: "string \<Rightarrow> 'd \<Rightarrow> unit outcome \<times> 'd"
  assumes create_empty: "good \<Longrightarrow> create_r i d = (Returns (), d') \<Longrightarrow> holds i [] d'"
    and append_new: "good \<Longrightarrow> holds i cs d \<Longrightarrow> \<forall>p \<in> set cs. full p \<Longrightarrow> chunk_ok p \<Longrightarrow>
      \<exists>d'. append_r i (length cs * ChunkBytes) p d = (Returns (length cs * ChunkBytes + length p), d')
           \<and> holds i (cs @ [p]) d'"
    and append_again: "good \<Longrightarrow> holds i cs d \<Longrightarrow> n < length cs \<Longrightarrow>
      append_r i (n * ChunkBytes) p d = (if p = cs ! n then Returns (n * ChunkBytes + length p) else Throws, d)"
    and read_back: "good \<Longrightarrow> holds i cs d \<Longrightarrow> n < length cs \<Longrightarrow> length (cs ! n) \<le> m \<Longrightarrow>
      read_r i (n * ChunkBytes) m d = Returns (cs ! n)"
    and sha256_of: "good \<Longrightarrow> holds i cs d \<Longrightarrow> sha256_r i (length (concat cs)) d = Returns (digest (concat cs))"
    and remove_gone: "remove_r i d = (Returns (), d') \<Longrightarrow> \<not> holds i cs d'"
    and others: "j \<noteq> i \<Longrightarrow> holds j cs d \<Longrightarrow> holds j cs (snd (append_r i off p d))"
      "j \<noteq> i \<Longrightarrow> holds j cs d \<Longrightarrow> holds j cs (snd (create_r i d))"
      "j \<noteq> i \<Longrightarrow> holds j cs d \<Longrightarrow> holds j cs (snd (remove_r i d))"

begin

lemma upload_from:
  assumes "good" and "holds i cs d" and "chunked (cs @ ps)"
  shows "\<exists>d'. upload_all append_r i (length cs) ps d = (True, d') \<and> holds i (cs @ ps) d'"
  using assms(2,3)
proof (induction ps arbitrary: cs d)
  case (Cons p ps)
  obtain d1 where d1: "append_r i (length cs * ChunkBytes) p d = (Returns (length cs * ChunkBytes + length p), d1)"
    "holds i (cs @ [p]) d1"
    using append_new [OF assms(1) Cons.prems(1)] chunked_append_Cons [OF Cons.prems(2)] by blast
  then show ?case
    using Cons.IH [of "cs @ [p]" d1] Cons.prems(2) by simp
qed auto

lemma store_roundtrip:
  assumes "good" and "create_r i d = (Returns (), d0)" and "chunked cs"
  shows "\<exists>d'. upload_all append_r i 0 cs d0 = (True, d')
    \<and> (\<forall>n < length cs. read_r i (n * ChunkBytes) ChunkBytes d' = Returns (cs ! n))
    \<and> sha256_r i (length (concat cs)) d' = Returns (digest (concat cs))"
proof -
  obtain d' where d': "upload_all append_r i 0 cs d0 = (True, d')" "holds i cs d'"
    using upload_from [OF assms(1) create_empty [OF assms(1,2)], of cs] assms(3) by auto
  have "length (cs ! n) \<le> ChunkBytes" if "n < length cs" for n
    using assms(3) that by (auto simp: chunked_def chunk_ok_def)
  then show ?thesis
    using d' read_back [OF assms(1) d'(2)] sha256_of [OF assms(1) d'(2)] by blast
qed

text \<open>Sending the whole file a second time (after a lost answer, say) succeeds and changes nothing.\<close>

lemma upload_again:
  assumes "good" and "holds i cs d" and "k \<le> length cs"
  shows "upload_all append_r i k (drop k cs) d = (True, d)"
  using assms(3)
proof (induction "length cs - k" arbitrary: k)
  case (Suc n)
  then have k: "k < length cs"
    by simp
  then show ?case
    using Suc append_again [OF assms(1,2) k, of "cs ! k"] by (simp add: Cons_nth_drop_Suc [symmetric])
qed simp

end

lemma file_holds_other:
  assumes "enc_files d' j = enc_files d j" and "lock_files d j \<longrightarrow> lock_files d' j"
  shows "file_holds cr j cs junk d \<Longrightarrow> file_holds cr j cs junk d'"
  using assms by (auto simp: file_holds_def)

lemma append_other: "j \<noteq> i \<Longrightarrow> enc_files (snd (append_file cr fail i off p d)) j = enc_files d j
    \<and> lock_files (snd (append_file cr fail i off p d)) = lock_files d"
  by (auto simp: append_file_def Let_def split: option.split prod.split)

interpretation encrypted: resource_store "aead_ok cr \<and> length prefix = 16" "\<lambda>i cs d. file_holds cr i cs [] d" "sha256_hex cr"
  "create prefix None" "append_file cr None" "read cr" "sha256 cr" remove_file for cr prefix
proof (unfold_locales, goal_cases)
  case (1 i d d')
  then show ?case
    by (auto simp: create_def file_holds_def chunked_def Let_def split: if_splits)
next
  case (2 i cs d p)
  then obtain prefix' where "length prefix' = 16"
    and "append_file cr None i (length cs * ChunkBytes) p d = (Returns (length cs * ChunkBytes + length p),
      d\<lparr>enc_files := (enc_files d)(i := Some (Magic @ prefix' @ records cr i prefix' 0 (cs @ [p])))\<rparr>)"
    using append_next [of cr i cs d p None] by auto
  then show ?case
    using 2 by (auto simp: file_holds_def chunked_def butlast_append)
next
  case (3 i cs d n p)
  then show ?case
    using append_recorded [of cr i cs "[]" d n None p] by simp
next
  case (4 i cs d n m)
  then show ?case
    using read_chunk by blast
next
  case (5 i cs d)
  then show ?case
    using hash_chunks_from [of cr i cs "[]" d 0 "[]"] by (simp add: sha256_def)
next
  case (6 i d d' cs)
  then show ?case
    by (auto simp: remove_file_def file_holds_def split: if_splits)
next
  case (7 j i cs d off p)
  then show ?case
    using append_other [OF 7(1), of cr None off p d] file_holds_other by simp
next
  case (8 j i cs d)
  then show ?case
    by (auto simp: create_def file_holds_def Let_def)
next
  case (9 j i cs d)
  then show ?case
    by (auto simp: remove_file_def file_holds_def)
qed

text \<open>A stand-in for libsodium in the examples: it appends a tag of zeros.\<close>

definition plain_crypto :: crypto where
  "plain_crypto = \<lparr>transferKey = (\<lambda>_. []), encrypt = (\<lambda>k n p. Some (p @ replicate 16 0)),
     decrypt = (\<lambda>k n c. Some (take (length c - 16) c)), sha256_hex = (\<lambda>_. [])\<rparr>"

lemma plain_crypto_ok: "aead_ok plain_crypto"
  by (simp add: aead_ok_def plain_crypto_def)

definition sample_id :: string where
  "sample_id = replicate 36 (CHR ''a'')"

lemma sample_id_ok: "valid_transfer_id sample_id"
  by (simp add: valid_transfer_id_def sample_id_def list_all_iff)

definition empty_disk :: disk where
  "empty_disk = \<lparr>enc_files = (\<lambda>_. None), lock_files = (\<lambda>_. False)\<rparr>"

text \<open>
  C20: What is uploaded is what is downloaded. After creating an attachment and appending its
  chunks in order, every chunk reads back as it was sent and the digest computed by the store is
  that of the whole content, provided that the cipher decrypts what it encrypts.
\<close>

theorem upload_download:
  assumes "aead_ok cr" and "length prefix = 16" and "create prefix None i d = (Returns (), d0)" and "chunked cs"
  shows "\<exists>d'. upload_all (append_file cr None) i 0 cs d0 = (True, d')
    \<and> (\<forall>n < length cs. read cr i (n * ChunkBytes) ChunkBytes d' = Returns (cs ! n))
    \<and> sha256 cr i (length (concat cs)) d' = Returns (sha256_hex cr (concat cs))"
  using encrypted.store_roundtrip [of cr prefix i d d0 cs] assms by blast

theorem upload_download_witness:
  "\<exists>d0 d'. create (replicate 16 7) None sample_id empty_disk = (Returns (), d0)
     \<and> upload_all (append_file plain_crypto None) sample_id 0 [[1, 2, 3]] d0 = (True, d')
     \<and> read plain_crypto sample_id 0 ChunkBytes d' = Returns [1, 2, 3]"
proof -
  obtain d0 where "create (replicate 16 7) None sample_id empty_disk = (Returns (), d0)"
    by (simp add: create_def sample_id_ok empty_disk_def)
  moreover have "chunked [[1, 2, 3]]"
    by (simp add: chunked_def chunk_ok_def ChunkBytes_def)
  ultimately show ?thesis
    using upload_download [OF plain_crypto_ok, of "replicate 16 7" sample_id empty_disk d0 "[[1, 2, 3]]"] by auto
qed

lemma append_extends:
  assumes "append_file cr fail i off p d = (res, d')" and "enc_files d i = Some bs"
  shows "\<exists>new. d' = d\<lparr>enc_files := (enc_files d)(i \<mapsto> bs @ new)\<rparr>"
proof (cases "d' = d")
  case True
  have "d = d\<lparr>enc_files := (enc_files d)(i \<mapsto> bs @ [])\<rparr>"
    using assms(2) by (simp add: map_upd_triv)
  then show ?thesis
    using True by blast
next
  case False
  then show ?thesis
    using assms by (auto simp: append_file_def Let_def split: if_splits option.splits)
qed

lemma nonces_differ:
  assumes "m \<noteq> n" and "m < 2 ^ 64" and "n < 2 ^ 64"
  shows "nonceFor prefix (word_of_nat m) \<noteq> nonceFor prefix (word_of_nat n)"
proof
  assume "nonceFor prefix (word_of_nat m) = nonceFor prefix (word_of_nat n)"
  then have "(word_of_nat m :: 64 word) = word_of_nat n"
    by (rule nonceFor_inj)
  then have "unat (word_of_nat m :: 64 word) = unat (word_of_nat n :: 64 word)"
    by simp
  then show False
    using assms by (simp add: unat_of_nat)
qed


lemma sample_file:
  "file_holds plain_crypto sample_id [[5]] []
     \<lparr>enc_files = (\<lambda>_. Some (Magic @ replicate 16 0 @ records plain_crypto sample_id (replicate 16 0) 0 [[5]])),
      lock_files = (\<lambda>_. True)\<rparr>"
  unfolding file_holds_def
  by (intro conjI exI [of _ "replicate 16 0"])
    (simp_all add: sample_id_ok chunked_def chunk_ok_def ChunkBytes_def)


text \<open>
  C21: A torn write is harmless. If an append fails after part of the record reached the disk, every
  chunk recorded before still reads back, and sending the chunk again either succeeds, and then the
  file consists of the old chunks and this one, or is refused without touching the file.
\<close>

theorem torn_append_recoverable:
  assumes "aead_ok cr" and "file_holds cr i cs [] d" and "\<forall>c \<in> set cs. full c" and "chunk_ok p"
    and "append_file cr (Some k) i (length cs * ChunkBytes) p d = (res, d1)"
  shows "res = Throws \<and> (\<forall>n < length cs. read cr i (n * ChunkBytes) ChunkBytes d1 = Returns (cs ! n))
    \<and> (case append_file cr None i (length cs * ChunkBytes) p d1 of
         (Throws, d2) \<Rightarrow> d2 = d1
       | (Returns off, d2) \<Rightarrow> off = length cs * ChunkBytes + length p \<and> file_holds cr i (cs @ [p]) [] d2)"
proof -
  obtain prefix where pr: "length prefix = 16"
    and run: "res = Throws" "d1 = d\<lparr>enc_files := (enc_files d)(i := Some (Magic @ prefix @ records cr i prefix 0 cs
        @ take k (record_of cr i prefix (length cs) p)))\<rparr>"
    using append_next [OF assms(1-4), of "Some k"] assms(5) by auto
  define junk where "junk = take k (record_of cr i prefix (length cs) p)"
  have onfile: "enc_files d1 i = Some (Magic @ prefix @ records cr i prefix 0 cs @ junk)"
    and g: "valid_transfer_id i" "lock_files d1 i" "chunked cs"
    using assms(2) by (simp_all add: run(2) junk_def file_holds_def)
  have h1: "file_holds cr i cs junk d1"
    using pr onfile g by (auto simp: file_holds_def)
  have reads: "read cr i (n * ChunkBytes) ChunkBytes d1 = Returns (cs ! n)" if "n < length cs" for n
    by (rule read_chunk [OF assms(1) h1 that]) (use g(3) that in \<open>auto simp: chunked_def chunk_ok_def\<close>)
  have snoc_ok: "chunked (cs @ [p])"
    using assms(3,4) g(3) by (auto simp: chunked_def butlast_append)
  consider "junk = []" | "junk = record_of cr i prefix (length cs) p"
    | "junk \<noteq> []" "length junk < length (record_of cr i prefix (length cs) p)"
    unfolding junk_def by (cases "k < length (record_of cr i prefix (length cs) p)"; cases "k = 0";
        cases "record_of cr i prefix (length cs) p = []") auto
  then have "case append_file cr None i (length cs * ChunkBytes) p d1 of
         (Throws, d2) \<Rightarrow> d2 = d1
       | (Returns off, d2) \<Rightarrow> off = length cs * ChunkBytes + length p \<and> file_holds cr i (cs @ [p]) [] d2"
  proof cases
    case 1
    then show ?thesis
      using encrypted.append_new [of cr prefix i cs d1 p] assms(1,3,4) pr h1 by auto
  next
    case 2
    then have "file_holds cr i (cs @ [p]) [] d1"
      using pr onfile g snoc_ok by (auto simp: file_holds_def records_append)
    then show ?thesis
      using append_recorded [OF assms(1), of i "cs @ [p]" "[]" d1 "length cs" None p] by simp
  next
    case 3
    have "length junk < 4 + length (ciphertext_of cr i prefix (length cs) p)"
      using 3(2) by (simp add: record_of_def)
    then have "append_file cr None i (length cs * ChunkBytes) p d1 = (Throws, d1)"
      using onfile g pr assms(4) 3(1) encrypt_ciphertext(1) [OF assms(1), of i prefix "length cs" p]
        skip_confirmed_records [OF assms(1,3), of i prefix 0 junk]
      by (auto simp: append_file_def chunk_ok_def ChunkBytes_def split: option.split)
    then show ?thesis by simp
  qed
  then show ?thesis
    using run(1) reads by blast
qed

theorem torn_append_recoverable_witness:
  "\<exists>d. file_holds plain_crypto sample_id [] [] d
     \<and> fst (append_file plain_crypto (Some 3) sample_id (length ([] :: byte list list) * ChunkBytes) [5] d) = Throws"
proof -
  let ?d = "\<lparr>enc_files = (\<lambda>_. Some (Magic @ replicate 16 0)), lock_files = (\<lambda>_. True)\<rparr>"
  have h: "file_holds plain_crypto sample_id [] [] ?d"
    unfolding file_holds_def
    by (intro conjI exI [of _ "replicate 16 0"]) (simp_all add: sample_id_ok chunked_def)
  obtain res d1 where run: "append_file plain_crypto (Some 3) sample_id (length ([] :: byte list list) * ChunkBytes) [5] ?d = (res, d1)"
    by fastforce
  have "res = Throws"
    using torn_append_recoverable [OF plain_crypto_ok h _ _ run] by (simp add: chunk_ok_def ChunkBytes_def)
  then show ?thesis
    using h run by auto
qed

end
