(* ===== verification/Keyed_Executor.thy ===== *)
theory Keyed_Executor
  imports Prelude
begin

text \<open>
  The sharded executor of \<^verbatim>\<open>common/KeyedExecutor.h\<close>, on which the chat server runs its
  message handlers. Every critical section of the class is one operation: \<open>post\<close>,
  \<open>stop_shard\<close> (the body of the loop in \<^verbatim>\<open>stop\<close>), and, for the worker loop
  \<^verbatim>\<open>run\<close>, the locked part \<open>run_locked\<close> and the two unlocked parts \<open>tick_done\<close> and
  \<open>task_done\<close>. The threads interleave these operations freely, which the relation
  \<open>exec_step\<close> says. The atomic \<^verbatim>\<open>uint64_t\<close> counters are 64-bit words.
\<close>

record 'a task =
  enqueued :: time
  call :: 'a

datatype 'a phase = Waiting | Ticking | Running "'a task" time | Exited

record 'a shard =
  queue :: "'a task list"
  stopping :: bool
  phase :: "'a phase"
  next_tick :: time

record 'a executor =
  capacity :: nat
  interval :: time
  shards :: "'a shard list"
  cancelled :: "64 word"
  queued :: "64 word"
  completed :: "64 word"
  rejected :: "64 word"
  failures :: "64 word"
  wait_us :: "64 word"
  run_us :: "64 word"

definition new_shard :: "time \<Rightarrow> 'a shard" where
  "new_shard first_tick = \<lparr>queue = [], stopping = False, phase = Waiting, next_tick = first_tick\<rparr>"

definition make_executor :: "nat \<Rightarrow> nat \<Rightarrow> time \<Rightarrow> time \<Rightarrow> 'a executor option" where
  "make_executor cnt cap ivl now =
     (if cnt = 0 \<or> cap = 0 \<or> ivl \<le> 0 then None
      else Some \<lparr>capacity = cap, interval = ivl, shards = replicate cnt (new_shard (now + ivl)),
                 cancelled = 0, queued = 0, completed = 0, rejected = 0, failures = 0,
                 wait_us = 0, run_us = 0\<rparr>)"

definition shard_of :: "'a executor \<Rightarrow> nat \<Rightarrow> nat" where
  "shard_of ex key = key mod length (shards ex)"

definition upd_shard :: "nat \<Rightarrow> ('a shard \<Rightarrow> 'a shard) \<Rightarrow> 'a executor \<Rightarrow> 'a executor" where
  "upd_shard i f ex = ex\<lparr>shards := (shards ex)[i := f (shards ex ! i)]\<rparr>"

definition post :: "'a executor \<Rightarrow> nat \<Rightarrow> 'a \<Rightarrow> time \<Rightarrow> bool \<times> 'a executor" where
  "post ex key fn now =
     (let i = shard_of ex key; s = shards ex ! i in
      if stopping s \<or> length (queue s) \<ge> capacity ex
      then (False, ex\<lparr>rejected := rejected ex + 1\<rparr>)
      else (True, (upd_shard i (queue_update (\<lambda>q. q @ [\<lparr>enqueued = now, call = fn\<rparr>])) ex)
                    \<lparr>queued := queued ex + 1\<rparr>))"

definition stop_shard :: "bool \<Rightarrow> nat \<Rightarrow> 'a executor \<Rightarrow> 'a executor" where
  "stop_shard drain i ex =
     (let n = word_of_nat (length (queue (shards ex ! i)));
          ex1 = upd_shard i (stopping_update (\<lambda>_. True)) ex in
      if drain then ex1
      else (upd_shard i (queue_update (\<lambda>_. [])) ex1)
             \<lparr>cancelled := cancelled ex + n, queued := queued ex - n\<rparr>)"

definition stop :: "bool \<Rightarrow> 'a executor \<Rightarrow> 'a executor" where
  "stop drain ex = fold (stop_shard drain) [0..<length (shards ex)] ex"

text \<open>
  One pass of the worker loop up to the point where the lock is released: the worker returns, starts
  a tick, finds nothing to do, or pops the oldest task.
\<close>

definition run_locked :: "nat \<Rightarrow> time \<Rightarrow> 'a executor \<Rightarrow> 'a executor" where
  "run_locked i now ex =
     (let s = shards ex ! i in
      if stopping s \<and> queue s = [] then upd_shard i (phase_update (\<lambda>_. Exited)) ex
      else if \<not> stopping s \<and> now \<ge> next_tick s then upd_shard i (phase_update (\<lambda>_. Ticking)) ex
      else case queue s of
        [] \<Rightarrow> ex
      | t # ts \<Rightarrow>
          (upd_shard i (\<lambda>s. s\<lparr>queue := ts, phase := Running t now\<rparr>) ex)
            \<lparr>queued := queued ex - 1,
             wait_us := wait_us ex + word_of_int ((now - enqueued t) div 1000)\<rparr>)"

definition count_failure :: "bool \<Rightarrow> 'a executor \<Rightarrow> 'a executor" where
  "count_failure threw ex = (if threw then ex\<lparr>failures := failures ex + 1\<rparr> else ex)"

definition tick_done :: "nat \<Rightarrow> bool \<Rightarrow> time \<Rightarrow> 'a executor \<Rightarrow> 'a executor" where
  "tick_done i threw now ex =
     upd_shard i (\<lambda>s. s\<lparr>phase := Waiting, next_tick := now + interval ex\<rparr>) (count_failure threw ex)"

definition task_done :: "nat \<Rightarrow> time \<Rightarrow> bool \<Rightarrow> time \<Rightarrow> 'a executor \<Rightarrow> 'a executor" where
  "task_done i start threw now ex =
     (let ex1 = upd_shard i (phase_update (\<lambda>_. Waiting)) (count_failure threw ex) in
      ex1\<lparr>run_us := run_us ex1 + word_of_int ((now - start) div 1000),
          completed := completed ex1 + 1\<rparr>)"

text \<open>The interleaving of producers, the stopping thread and the workers.\<close>

datatype 'a event =
    Posted nat "'a task" bool
  | StoppedShard nat "'a task list"
  | Started nat "'a task"
  | Finished nat "'a task"
  | Internal

inductive exec_step :: "'a executor \<Rightarrow> 'a event \<Rightarrow> 'a executor \<Rightarrow> bool" where
  step_post: "post ex key fn now = (ok, ex') \<Longrightarrow>
    exec_step ex (Posted (shard_of ex key) \<lparr>enqueued = now, call = fn\<rparr> ok) ex'"
| step_stop: "i < length (shards ex) \<Longrightarrow>
    exec_step ex (StoppedShard i (if drain then [] else queue (shards ex ! i))) (stop_shard drain i ex)"
| step_start: "i < length (shards ex) \<Longrightarrow> phase (shards ex ! i) = Waiting \<Longrightarrow>
    ex' = run_locked i now ex \<Longrightarrow> phase (shards ex' ! i) = Running t now \<Longrightarrow>
    exec_step ex (Started i t) ex'"
| step_idle: "i < length (shards ex) \<Longrightarrow> phase (shards ex ! i) = Waiting \<Longrightarrow>
    ex' = run_locked i now ex \<Longrightarrow> (\<forall>t start. phase (shards ex' ! i) \<noteq> Running t start) \<Longrightarrow>
    exec_step ex Internal ex'"
| step_tick: "i < length (shards ex) \<Longrightarrow> phase (shards ex ! i) = Ticking \<Longrightarrow>
    exec_step ex Internal (tick_done i threw now ex)"
| step_finish: "i < length (shards ex) \<Longrightarrow> phase (shards ex ! i) = Running t start \<Longrightarrow>
    exec_step ex (Finished i t) (task_done i start threw now ex)"

inductive exec_trace :: "'a executor \<Rightarrow> 'a event list \<Rightarrow> 'a executor \<Rightarrow> bool" where
  trace_Nil: "exec_trace ex [] ex"
| trace_snoc: "exec_trace ex evs ex1 \<Longrightarrow> exec_step ex1 ev ex2 \<Longrightarrow> exec_trace ex (evs @ [ev]) ex2"

inductive_cases exec_step_cases: "exec_step ex ev ex'"

text \<open>What a history says of shard \<open>i\<close>: the tasks it accepted, started, finished and discarded.\<close>

definition accepted :: "nat \<Rightarrow> 'a event list \<Rightarrow> 'a task list" where
  "accepted i evs = concat (map (\<lambda>ev. case ev of Posted j t ok \<Rightarrow> if j = i \<and> ok then [t] else [] | _ \<Rightarrow> []) evs)"

definition started :: "nat \<Rightarrow> 'a event list \<Rightarrow> 'a task list" where
  "started i evs = concat (map (\<lambda>ev. case ev of Started j t \<Rightarrow> if j = i then [t] else [] | _ \<Rightarrow> []) evs)"

definition finished :: "nat \<Rightarrow> 'a event list \<Rightarrow> 'a task list" where
  "finished i evs = concat (map (\<lambda>ev. case ev of Finished j t \<Rightarrow> if j = i then [t] else [] | _ \<Rightarrow> []) evs)"

definition discarded :: "nat \<Rightarrow> 'a event list \<Rightarrow> 'a task list" where
  "discarded i evs = concat (map (\<lambda>ev. case ev of StoppedShard j ts \<Rightarrow> if j = i then ts else [] | _ \<Rightarrow> []) evs)"

definition in_hand :: "'a shard \<Rightarrow> 'a task list" where
  "in_hand s = (case phase s of Running t _ \<Rightarrow> [t] | _ \<Rightarrow> [])"

lemmas history_defs = accepted_def started_def finished_def discarded_def

lemma history_Nil [simp]:
  "accepted i [] = []" "started i [] = []" "finished i [] = []" "discarded i [] = []"
  by (simp_all add: history_defs)

lemma history_snoc [simp]:
  "accepted i (evs @ [ev]) = accepted i evs @ accepted i [ev]"
  "started i (evs @ [ev]) = started i evs @ started i [ev]"
  "finished i (evs @ [ev]) = finished i evs @ finished i [ev]"
  "discarded i (evs @ [ev]) = discarded i evs @ discarded i [ev]"
  by (simp_all add: history_defs)

lemma history_single [simp]:
  "accepted i [ev] = (case ev of Posted j t ok \<Rightarrow> if j = i \<and> ok then [t] else [] | _ \<Rightarrow> [])"
  "started i [ev] = (case ev of Started j t \<Rightarrow> if j = i then [t] else [] | _ \<Rightarrow> [])"
  "finished i [ev] = (case ev of Finished j t \<Rightarrow> if j = i then [t] else [] | _ \<Rightarrow> [])"
  "discarded i [ev] = (case ev of StoppedShard j ts \<Rightarrow> if j = i then ts else [] | _ \<Rightarrow> [])"
  by (simp_all add: history_defs)

lemma shards_upd_shard [simp]:
  "shards (upd_shard i f ex) = [] \<longleftrightarrow> shards ex = []"
  "length (shards (upd_shard i f ex)) = length (shards ex)"
  "i < length (shards ex) \<Longrightarrow>
     shards (upd_shard i f ex) ! j = (if j = i then f (shards ex ! i) else shards ex ! j)"
  "capacity (upd_shard i f ex) = capacity ex"
  by (simp_all add: upd_shard_def)

lemma shards_count_failure [simp]:
  "shards (count_failure threw ex) = shards ex" "capacity (count_failure threw ex) = capacity ex"
  by (simp_all add: count_failure_def)

lemma shard_of_less: "shards ex \<noteq> [] \<Longrightarrow> shard_of ex key < length (shards ex)"
  by (simp add: shard_of_def)

text \<open>
  The history of a shard explains its state: what was accepted is, in this order, what was started,
  what a cancelling stop discarded, and what still waits; what was started is what has finished
  and what is in the worker's hand.
\<close>

definition shard_ok :: "nat \<Rightarrow> 'a event list \<Rightarrow> nat \<Rightarrow> 'a shard \<Rightarrow> bool" where
  "shard_ok cap evs i s \<longleftrightarrow>
     accepted i evs = started i evs @ discarded i evs @ queue s
     \<and> started i evs = finished i evs @ in_hand s
     \<and> (discarded i evs \<noteq> [] \<longrightarrow> stopping s \<and> queue s = [])
     \<and> length (queue s) \<le> cap
     \<and> (phase s = Exited \<longrightarrow> stopping s \<and> queue s = [])"

definition exec_ok :: "'a executor \<Rightarrow> 'a event list \<Rightarrow> bool" where
  "exec_ok ex evs \<longleftrightarrow> shards ex \<noteq> [] \<and> (\<forall>i < length (shards ex). shard_ok (capacity ex) evs i (shards ex ! i))"

lemma exec_ok_init:
  "make_executor cnt cap ivl now = Some ex \<Longrightarrow> exec_ok ex []"
  by (auto simp: make_executor_def exec_ok_def shard_ok_def new_shard_def in_hand_def split: if_splits)

lemma exec_ok_post:
  assumes "exec_ok ex evs" and "post ex key fn now = (ok, ex')"
  shows "exec_ok ex' (evs @ [Posted (shard_of ex key) \<lparr>enqueued = now, call = fn\<rparr> ok])"
  using assms shard_of_less [of ex key] unfolding exec_ok_def post_def Let_def
  by (auto simp: shard_ok_def in_hand_def split: if_splits)

lemma exec_ok_stop:
  assumes "exec_ok ex evs" and "i < length (shards ex)"
  shows "exec_ok (stop_shard drain i ex)
           (evs @ [StoppedShard i (if drain then [] else queue (shards ex ! i))])"
  using assms unfolding exec_ok_def stop_shard_def Let_def
  by (auto simp: shard_ok_def in_hand_def)

lemma exec_ok_start:
  assumes "exec_ok ex evs" and "i < length (shards ex)" and "phase (shards ex ! i) = Waiting"
    and "phase (shards (run_locked i now ex) ! i) = Running t now"
  shows "exec_ok (run_locked i now ex) (evs @ [Started i t])"
  using assms unfolding exec_ok_def run_locked_def Let_def
  by (auto simp: shard_ok_def in_hand_def split: if_splits list.splits)

lemma exec_ok_idle:
  assumes "exec_ok ex evs" and "i < length (shards ex)" and "phase (shards ex ! i) = Waiting"
    and "\<forall>t start. phase (shards (run_locked i now ex) ! i) \<noteq> Running t start"
  shows "exec_ok (run_locked i now ex) (evs @ [Internal])"
  using assms unfolding exec_ok_def run_locked_def Let_def
  by (auto simp: shard_ok_def in_hand_def split: if_splits list.splits)

lemma exec_ok_tick:
  assumes "exec_ok ex evs" and "i < length (shards ex)" and "phase (shards ex ! i) = Ticking"
  shows "exec_ok (tick_done i threw now ex) (evs @ [Internal])"
  using assms unfolding exec_ok_def tick_done_def
  by (auto simp: shard_ok_def in_hand_def)

lemma exec_ok_finish:
  assumes "exec_ok ex evs" and "i < length (shards ex)" and "phase (shards ex ! i) = Running t start"
  shows "exec_ok (task_done i start threw now ex) (evs @ [Finished i t])"
  using assms unfolding exec_ok_def task_done_def Let_def
  by (auto simp: shard_ok_def in_hand_def)

lemma exec_ok_step: "exec_step ex ev ex' \<Longrightarrow> exec_ok ex evs \<Longrightarrow> exec_ok ex' (evs @ [ev])"
  by (erule exec_step_cases)
    (simp_all add: exec_ok_post exec_ok_stop exec_ok_start exec_ok_idle exec_ok_tick exec_ok_finish
      del: history_snoc)

lemma exec_ok_trace:
  "exec_trace ex evs ex' \<Longrightarrow> exec_ok ex [] \<Longrightarrow> exec_ok ex' evs"
  by (induction rule: exec_trace.induct) (auto intro: exec_ok_step)

text \<open>The counters agree with the queues and with the history, modulo \<^term>\<open>2 ^ 64 :: nat\<close>.\<close>

definition total :: "'a executor \<Rightarrow> (nat \<Rightarrow> 'b list) \<Rightarrow> 64 word" where
  "total ex f = word_of_nat (\<Sum>i<length (shards ex). length (f i))"

definition counters_ok :: "'a executor \<Rightarrow> 'a event list \<Rightarrow> bool" where
  "counters_ok ex evs \<longleftrightarrow>
     queued ex = total ex (\<lambda>i. queue (shards ex ! i))
     \<and> completed ex = total ex (\<lambda>i. finished i evs)
     \<and> cancelled ex = total ex (\<lambda>i. discarded i evs)"

lemma total_upd:
  assumes "length (shards ex') = length (shards ex)" and "i < length (shards ex)"
    and "\<And>j. j < length (shards ex) \<Longrightarrow> j \<noteq> i \<Longrightarrow> g j = f j"
  shows "total ex' g = total ex f + word_of_nat (length (g i)) - word_of_nat (length (f i))"
  unfolding total_def assms(1) using assms(2,3) by (intro word_of_nat_sum_upd) simp_all

lemma total_same:
  assumes "length (shards ex') = length (shards ex)"
    and "\<And>j. j < length (shards ex) \<Longrightarrow> length (g j) = length (f j)"
  shows "total ex' g = total ex f"
  unfolding total_def assms(1) using assms(2) by simp

lemma counters_ok_init: "make_executor cnt cap ivl now = Some ex \<Longrightarrow> counters_ok ex []"
  by (auto simp: make_executor_def counters_ok_def total_def new_shard_def split: if_splits)

lemma upd_shard_counters [simp]:
  "queued (upd_shard i f ex) = queued ex" "completed (upd_shard i f ex) = completed ex"
  "cancelled (upd_shard i f ex) = cancelled ex"
  by (simp_all add: upd_shard_def)

lemma count_failure_counters [simp]:
  "queued (count_failure b ex) = queued ex" "completed (count_failure b ex) = completed ex"
  "cancelled (count_failure b ex) = cancelled ex"
  by (simp_all add: count_failure_def)

lemma counters_ok_post:
  assumes "counters_ok ex evs" and "shards ex \<noteq> []" and "post ex key fn now = (ok, ex')"
  shows "counters_ok ex' (evs @ [Posted (shard_of ex key) \<lparr>enqueued = now, call = fn\<rparr> ok])"
proof -
  let ?i = "shard_of ex key"
  have i: "?i < length (shards ex)"
    using assms(2) by (rule shard_of_less)
  show ?thesis
  proof (cases ok)
    case False
    then have "ex' = ex\<lparr>rejected := rejected ex + 1\<rparr>"
      using assms(3) by (auto simp: post_def Let_def split: if_splits)
    then show ?thesis
      using assms(1) False by (simp add: counters_ok_def total_def)
  next
    case True
    then have ex': "ex' = (upd_shard ?i (queue_update (\<lambda>q. q @ [\<lparr>enqueued = now, call = fn\<rparr>])) ex)
        \<lparr>queued := queued ex + 1\<rparr>"
      using assms(3) by (auto simp: post_def Let_def split: if_splits)
    have "total ex' (\<lambda>j. queue (shards ex' ! j)) = total ex (\<lambda>j. queue (shards ex ! j)) + 1"
      by (subst total_upd [where f = "\<lambda>j. queue (shards ex ! j)" and i = ?i]) (use i in \<open>simp_all add: ex'\<close>)
    then show ?thesis
      using assms(1) by (simp add: counters_ok_def ex' total_def)
  qed
qed

lemma counters_ok_stop:
  assumes "counters_ok ex evs" and "i < length (shards ex)"
  shows "counters_ok (stop_shard drain i ex)
           (evs @ [StoppedShard i (if drain then [] else queue (shards ex ! i))])"
proof -
  let ?ex' = "stop_shard drain i ex" and ?evs' = "evs @ [StoppedShard i (if drain then [] else queue (shards ex ! i))]"
  have len: "length (shards ?ex') = length (shards ex)"
    by (simp add: stop_shard_def Let_def)
  have q: "total ?ex' (\<lambda>j. queue (shards ?ex' ! j)) =
      total ex (\<lambda>j. queue (shards ex ! j)) + word_of_nat (length (queue (shards ?ex' ! i)))
        - word_of_nat (length (queue (shards ex ! i)))"
    by (rule total_upd) (use assms(2) in \<open>simp_all add: stop_shard_def Let_def\<close>)
  have d: "total ?ex' (\<lambda>j. discarded j ?evs') = total ex (\<lambda>j. discarded j evs)
      + word_of_nat (length (discarded i ?evs')) - word_of_nat (length (discarded i evs))"
    by (rule total_upd) (use assms(2) len in simp_all)
  have f: "total ?ex' (\<lambda>j. finished j ?evs') = total ex (\<lambda>j. finished j evs)"
    by (rule total_same) (use len in simp_all)
  show ?thesis
    using assms unfolding counters_ok_def q d f by (simp add: stop_shard_def Let_def)
qed

lemma counters_ok_run:
  assumes "counters_ok ex evs" and "i < length (shards ex)"
    and "\<forall>j. finished j [ev] = [] \<and> discarded j [ev] = []"
  shows "counters_ok (run_locked i now ex) (evs @ [ev])"
proof -
  let ?ex' = "run_locked i now ex"
  have len: "length (shards ?ex') = length (shards ex)"
    by (simp add: run_locked_def Let_def split: list.split)
  have q: "total ?ex' (\<lambda>j. queue (shards ?ex' ! j)) =
      total ex (\<lambda>j. queue (shards ex ! j)) + word_of_nat (length (queue (shards ?ex' ! i)))
        - word_of_nat (length (queue (shards ex ! i)))"
    by (rule total_upd) (use assms(2) in \<open>simp_all add: run_locked_def Let_def split: list.split\<close>)
  have h: "total ?ex' (\<lambda>j. finished j (evs @ [ev])) = total ex (\<lambda>j. finished j evs)"
    "total ?ex' (\<lambda>j. discarded j (evs @ [ev])) = total ex (\<lambda>j. discarded j evs)"
    by (rule total_same; use len assms(3) in \<open>simp\<close>)+
  show ?thesis
    using assms(1,2) unfolding counters_ok_def q h
    by (auto simp: run_locked_def Let_def split: list.split)
qed

lemma counters_ok_tick:
  assumes "counters_ok ex evs" and "i < length (shards ex)"
  shows "counters_ok (tick_done i threw now ex) (evs @ [Internal])"
proof -
  have "total (tick_done i threw now ex) (\<lambda>j. queue (shards (tick_done i threw now ex) ! j))
      = total ex (\<lambda>j. queue (shards ex ! j))"
    by (rule total_same) (use assms(2) in \<open>simp_all add: tick_done_def\<close>)
  then show ?thesis
    using assms(1) by (simp add: counters_ok_def) (simp add: tick_done_def total_def)
qed

lemma counters_ok_finish:
  assumes "counters_ok ex evs" and "i < length (shards ex)"
  shows "counters_ok (task_done i start threw now ex) (evs @ [Finished i t])"
proof -
  let ?ex' = "task_done i start threw now ex"
  have len: "length (shards ?ex') = length (shards ex)"
    by (simp add: task_done_def Let_def)
  have q: "total ?ex' (\<lambda>j. queue (shards ?ex' ! j)) = total ex (\<lambda>j. queue (shards ex ! j))"
    by (rule total_same) (use assms(2) in \<open>simp_all add: task_done_def Let_def\<close>)
  have f: "total ?ex' (\<lambda>j. finished j (evs @ [Finished i t])) = total ex (\<lambda>j. finished j evs)
      + word_of_nat (length (finished i (evs @ [Finished i t]))) - word_of_nat (length (finished i evs))"
    by (rule total_upd) (use assms(2) len in simp_all)
  have d: "total ?ex' (\<lambda>j. discarded j (evs @ [Finished i t])) = total ex (\<lambda>j. discarded j evs)"
    by (rule total_same) (use len in simp_all)
  show ?thesis
    using assms(1) unfolding counters_ok_def q f d by (simp add: task_done_def Let_def)
qed

lemma counters_ok_step:
  assumes "exec_step ex ev ex'" and "counters_ok ex evs" and "shards ex \<noteq> []"
  shows "counters_ok ex' (evs @ [ev])"
  using assms(1)
  by (rule exec_step_cases)
    (use assms(2,3) in \<open>simp_all add: counters_ok_post counters_ok_stop counters_ok_run counters_ok_tick
      counters_ok_finish del: history_snoc\<close>)

lemma counters_ok_trace:
  assumes "exec_trace ex evs ex'" and "exec_ok ex []" and "counters_ok ex []"
  shows "counters_ok ex' evs"
  using assms
proof (induction rule: exec_trace.induct)
  case (trace_snoc ex evs ex1 ev ex2)
  then have "shards ex1 \<noteq> []"
    using exec_ok_trace by (auto simp: exec_ok_def)
  then show ?case
    using trace_snoc by (intro counters_ok_step)
qed

text \<open>The worker of a shard that nobody else touches, until it waits, ticks or returns.\<close>

lemma run_locked_Running:
  assumes "i < length (shards ex)" and "phase (shards ex ! i) = Waiting"
    and "phase (shards (run_locked i now ex) ! i) = Running t start"
  shows "start = now \<and> queue (shards ex ! i) = t # queue (shards (run_locked i now ex) ! i)
     \<and> i < length (shards (run_locked i now ex))
     \<and> stopping (shards (run_locked i now ex) ! i) = stopping (shards ex ! i)"
  using assms by (auto simp: run_locked_def Let_def split: if_splits list.splits)

lemma task_done_shard:
  assumes "i < length (shards ex)"
  shows "length (shards (task_done i start threw now ex)) = length (shards ex)"
    "shards (task_done i start threw now ex) ! i = (shards ex ! i)\<lparr>phase := Waiting\<rparr>"
  using assms by (simp_all add: task_done_def Let_def)

function run_worker :: "nat \<Rightarrow> ('a \<Rightarrow> bool) \<Rightarrow> time \<Rightarrow> 'a executor \<Rightarrow> 'a executor" where
  "run_worker i throws now ex =
     (if i < length (shards ex) \<and> phase (shards ex ! i) = Waiting
      then let ex1 = run_locked i now ex in
        (case phase (shards ex1 ! i) of
           Running t start \<Rightarrow> run_worker i throws now (task_done i start (throws (call t)) now ex1)
         | _ \<Rightarrow> ex1)
      else ex)"
  by pat_completeness auto
termination
proof (relation "measure (\<lambda>(i, throws, now, ex). length (queue (shards ex ! i)))", goal_cases)
  case (2 i throws now ex x t start)
  then show ?case
    using run_locked_Running [of i ex now t start] by (simp add: task_done_shard)
qed simp

declare run_worker.simps [simp del]

lemma exec_trace_append:
  "exec_trace ex2 evs2 ex3 \<Longrightarrow> exec_trace ex1 evs1 ex2 \<Longrightarrow> exec_trace ex1 (evs1 @ evs2) ex3"
  by (induction rule: exec_trace.induct) (auto simp flip: append_assoc intro: trace_snoc)

lemma exec_trace_Cons2:
  assumes "exec_step ex1 a ex2" and "exec_step ex2 b ex3" and "exec_trace ex3 evs ex4"
  shows "exec_trace ex1 ([a, b] @ evs) ex4"
proof -
  have "exec_trace ex1 (([] @ [a]) @ [b]) ex3"
    using trace_snoc [OF trace_snoc [OF trace_Nil assms(1)] assms(2)] .
  then show ?thesis
    using exec_trace_append [OF assms(3), of ex1 "[a, b]"] by simp
qed

lemma run_worker_stopping:
  assumes "i < length (shards ex)" and "phase (shards ex ! i) = Waiting" and "stopping (shards ex ! i)"
  shows "phase (shards (run_worker i throws now ex) ! i) = Exited
    \<and> exec_trace ex (concat (map (\<lambda>t. [Started i t, Finished i t]) (queue (shards ex ! i))) @ [Internal])
        (run_worker i throws now ex)"
  using assms
proof (induction i throws now ex rule: run_worker.induct)
  case (1 i throws now ex)
  let ?ex1 = "run_locked i now ex"
  show ?case
  proof (cases "queue (shards ex ! i)")
    case Nil
    then have ex1: "?ex1 = upd_shard i (phase_update (\<lambda>_. Exited)) ex"
      using 1 by (simp add: run_locked_def)
    then have "exec_step ex Internal ?ex1"
      using 1 by (intro step_idle [of i ex ?ex1 now]) simp_all
    then have "exec_trace ex ([] @ [Internal]) ?ex1"
      by (rule trace_snoc [OF trace_Nil])
    moreover have "run_worker i throws now ex = ?ex1"
      using 1 by (subst run_worker.simps) (simp add: ex1)
    ultimately show ?thesis
      using 1 Nil by (simp add: ex1)
  next
    case (Cons t ts)
    then have run: "phase (shards ?ex1 ! i) = Running t now"
      using 1 by (simp add: run_locked_def)
    note r = run_locked_Running [OF 1(2,3) run]
    let ?ex2 = "task_done i now (throws (call t)) now ?ex1"
    have unf: "run_worker i throws now ex = run_worker i throws now ?ex2"
      using 1 run by (subst run_worker.simps) simp
    have IH: "phase (shards (run_worker i throws now ?ex2) ! i) = Exited
      \<and> exec_trace ?ex2 (concat (map (\<lambda>t. [Started i t, Finished i t]) ts) @ [Internal])
          (run_worker i throws now ?ex2)"
      using "1.IH" [OF _ refl run] 1 r Cons by (simp add: task_done_shard)
    have "exec_step ex (Started i t) ?ex1"
      using 1 run by (intro step_start [of i ex ?ex1 now t]) simp_all
    moreover have "exec_step ?ex1 (Finished i t) ?ex2"
      using run r by (intro step_finish) simp_all
    ultimately have "exec_trace ex ([Started i t, Finished i t]
        @ (concat (map (\<lambda>t. [Started i t, Finished i t]) ts) @ [Internal])) (run_worker i throws now ?ex2)"
      by (rule exec_trace_Cons2 [OF _ _ conjunct2 [OF IH]])
    then show ?thesis
      using IH by (simp add: unf Cons)
  qed
qed

text \<open>
  C17: Order and conservation. In every history of an executor, for every shard, the tasks it
  accepted are, in the order of acceptance, those it started, then those a cancelling
  stop discarded, then those still queued; at most one of the started ones is unfinished. So
  tasks posted under one key run one after the other in posting order, and none is lost or run
  twice.
\<close>

theorem executor_fifo:
  assumes "make_executor cnt cap ivl now = Some ex0" and "exec_trace ex0 evs ex"
    and "i < length (shards ex)"
  shows "accepted i evs = started i evs @ discarded i evs @ queue (shards ex ! i)
    \<and> started i evs = finished i evs @ in_hand (shards ex ! i)
    \<and> (discarded i evs \<noteq> [] \<longrightarrow> queue (shards ex ! i) = [])"
  using exec_ok_trace [OF assms(2) exec_ok_init [OF assms(1)]] assms(3)
  by (simp add: exec_ok_def shard_ok_def)

theorem executor_fifo_witness:
  "\<exists>ex0 ex. make_executor 2 1 1 0 = Some ex0 \<and> post ex0 3 (7::nat) 0 = (True, ex)
     \<and> accepted 1 [Posted 1 \<lparr>enqueued = 0, call = 7\<rparr> True]
         = started 1 [Posted 1 \<lparr>enqueued = 0, call = 7\<rparr> True]
           @ discarded 1 [Posted 1 \<lparr>enqueued = 0, call = 7\<rparr> True] @ queue (shards ex ! 1)"
proof -
  obtain ex0 :: "nat executor" where mk: "make_executor 2 1 1 0 = Some ex0"
    by (simp add: make_executor_def)
  moreover obtain ex where p: "post ex0 3 7 0 = (True, ex)" and "length (shards ex) = 2"
    and "shard_of ex0 3 = 1"
    using mk by (auto simp: make_executor_def post_def Let_def shard_of_def new_shard_def)
  moreover have "exec_trace ex0 ([] @ [Posted 1 \<lparr>enqueued = 0, call = 7\<rparr> True]) ex"
    using step_post [OF p] \<open>shard_of ex0 3 = 1\<close> by (intro trace_snoc [OF trace_Nil]) simp
  ultimately show ?thesis
    using executor_fifo [OF mk, of "[Posted 1 \<lparr>enqueued = 0, call = 7\<rparr> True]" ex 1] by auto
qed

text \<open>
  C29: Bounds and accounting. In every history no queue is longer than the capacity, the counter of
  queued tasks equals the total length of the queues (it never wraps below zero), and the
  accepted tasks are those queued, completed, cancelled or in a worker's hand.
\<close>

theorem executor_accounting:
  assumes "make_executor cnt cap ivl now = Some ex0" and "exec_trace ex0 evs ex"
  shows "(\<forall>s \<in> set (shards ex). length (queue s) \<le> capacity ex)
    \<and> queued ex = total ex (\<lambda>i. queue (shards ex ! i))
    \<and> total ex (\<lambda>i. accepted i evs)
        = queued ex + completed ex + cancelled ex + total ex (\<lambda>i. in_hand (shards ex ! i))"
proof -
  have ok: "exec_ok ex evs"
    using exec_ok_trace [OF assms(2) exec_ok_init [OF assms(1)]] .
  have cnt: "counters_ok ex evs"
    using counters_ok_trace [OF assms(2) exec_ok_init [OF assms(1)] counters_ok_init [OF assms(1)]] .
  have "(\<Sum>i<length (shards ex). length (accepted i evs)) =
      (\<Sum>i<length (shards ex). length (queue (shards ex ! i)) + length (finished i evs)
         + length (discarded i evs) + length (in_hand (shards ex ! i)))"
    using ok by (intro sum.cong) (simp_all add: exec_ok_def shard_ok_def)
  then show ?thesis
    using ok cnt
    by (auto simp: counters_ok_def total_def sum.distrib exec_ok_def shard_ok_def in_set_conv_nth)
qed

theorem executor_accounting_witness:
  "\<exists>ex0 :: nat executor. make_executor 2 1 1 0 = Some ex0 \<and> queued ex0 = total ex0 (\<lambda>i. queue (shards ex0 ! i))"
proof -
  obtain ex0 :: "nat executor" where mk: "make_executor 2 1 1 0 = Some ex0"
    by (simp add: make_executor_def)
  then show ?thesis
    using executor_accounting [OF mk trace_Nil] by simp
qed

text \<open>
  C30: Stopping terminates. A worker that finds its shard stopped runs exactly the tasks
  left in its queue, in order, each to its end whether or not it throws, and then returns, so
  the \<^verbatim>\<open>join\<close> of \<^verbatim>\<open>stop\<close> returns once the running tasks do; if the stop
  cancelled the queue, it runs nothing more.
\<close>

theorem executor_stop_drains:
  assumes "i < length (shards ex)" and "phase (shards ex ! i) = Waiting"
  shows "phase (shards (run_worker i throws now (stop_shard drain i ex)) ! i) = Exited
    \<and> exec_trace (stop_shard drain i ex)
        (concat (map (\<lambda>t. [Started i t, Finished i t]) (if drain then queue (shards ex ! i) else []))
          @ [Internal])
        (run_worker i throws now (stop_shard drain i ex))"
proof -
  have "queue (shards (stop_shard drain i ex) ! i) = (if drain then queue (shards ex ! i) else [])"
    using assms by (simp add: stop_shard_def Let_def)
  then show ?thesis
    using run_worker_stopping [of i "stop_shard drain i ex" throws now] assms
    by (simp add: stop_shard_def Let_def)
qed

theorem executor_stop_drains_witness:
  "let ex = \<lparr>capacity = 4, interval = 1,
             shards = [\<lparr>queue = [\<lparr>enqueued = 0, call = 7\<rparr>], stopping = False, phase = Waiting, next_tick = 9\<rparr>],
             cancelled = 0, queued = 1, completed = 0, rejected = 0, failures = 0, wait_us = 0, run_us = 0\<rparr>
   in phase (shards (run_worker 0 (\<lambda>n :: nat. False) 5 (stop_shard True 0 ex)) ! 0) = Exited"
  using executor_stop_drains [of 0 "\<lparr>capacity = 4, interval = 1,
      shards = [\<lparr>queue = [\<lparr>enqueued = 0, call = 7 :: nat\<rparr>], stopping = False, phase = Waiting, next_tick = 9\<rparr>],
      cancelled = 0, queued = 1, completed = 0, rejected = 0, failures = 0, wait_us = 0, run_us = 0\<rparr>"
      "\<lambda>_. False" 5 True]
  by simp

end
