(* ===== verification/Connection_Pool.thy ===== *)
theory Connection_Pool
  imports Prelude
begin

text \<open>
  What the MySQL and the Redis connection pools (\<^verbatim>\<open>common/MysqlConnectionPool.h\<close>,
  \<^verbatim>\<open>common/RedisConnectionPool.h\<close>) have in common: the state that their mutex
  protects, the contract of their critical sections (locale \<open>connection_pool\<close>), and the
  interleavings of borrowing threads, the health worker and the closing thread
  (\<open>pool_step\<close>). \<^verbatim>\<open>Mysql_Pool\<close> and \<^verbatim>\<open>Redis_Pool\<close> give the
  operations of the two classes and interpret the locale.
\<close>

record 'c pool =
  connections :: "'c list"
  live_connections :: nat
  stopped :: bool
  pool_size :: nat

definition empty_pool :: "nat \<Rightarrow> 'c pool" where
  "empty_pool n = \<lparr>connections = [], live_connections = 0, stopped = False, pool_size = n\<rparr>"

text \<open>
  A step is one critical section, together with what it does to the connections the program holds
  outside the pool (\<open>out\<close>: lent to a caller or taken by the health worker) and to the number of
  slots reserved for connections under construction. A factory returns a new object.
\<close>

record 'c pool_sys =
  pool :: "'c pool"
  out :: "'c list"
  creating :: nat

inductive pool_step ::
  "('c pool \<Rightarrow> 'c option \<times> 'c pool) \<Rightarrow> ('c \<Rightarrow> 'c pool \<Rightarrow> 'c pool) \<Rightarrow> ('c pool \<Rightarrow> bool \<times> 'c pool)
   \<Rightarrow> ('c option \<Rightarrow> 'c pool \<Rightarrow> bool \<times> 'c pool) \<Rightarrow> ('c pool \<Rightarrow> 'c pool) \<Rightarrow> ('c pool \<Rightarrow> 'c pool)
   \<Rightarrow> ('c pool \<Rightarrow> 'c pool) \<Rightarrow> 'c pool_sys \<Rightarrow> 'c pool_sys \<Rightarrow> bool"
  for get give_back reserve publish discard shut clear where
  step_get: "get (pool s) = (Some c, p) \<Longrightarrow>
    pool_step get give_back reserve publish discard shut clear s (s\<lparr>pool := p, out := c # out s\<rparr>)"
| step_get_none: "get (pool s) = (None, p) \<Longrightarrow>
    pool_step get give_back reserve publish discard shut clear s (s\<lparr>pool := p\<rparr>)"
| step_give_back: "c \<in> set (out s) \<Longrightarrow>
    pool_step get give_back reserve publish discard shut clear s
      (s\<lparr>pool := give_back c (pool s), out := remove1 c (out s)\<rparr>)"
| step_discard: "c \<in> set (out s) \<Longrightarrow>
    pool_step get give_back reserve publish discard shut clear s
      (s\<lparr>pool := discard (pool s), out := remove1 c (out s)\<rparr>)"
| step_reserve: "reserve (pool s) = (ok, p) \<Longrightarrow>
    pool_step get give_back reserve publish discard shut clear s
      (s\<lparr>pool := p, creating := creating s + (if ok then 1 else 0)\<rparr>)"
| step_publish: "0 < creating s \<Longrightarrow> publish made (pool s) = (ok, p) \<Longrightarrow>
    (\<forall>c. made = Some c \<longrightarrow> c \<notin> set (connections (pool s)) \<union> set (out s)) \<Longrightarrow>
    pool_step get give_back reserve publish discard shut clear s
      (s\<lparr>pool := p, creating := creating s - 1\<rparr>)"
| step_shut: "pool_step get give_back reserve publish discard shut clear s (s\<lparr>pool := shut (pool s)\<rparr>)"
| step_clear: "stopped (pool s) \<Longrightarrow>
    pool_step get give_back reserve publish discard shut clear s (s\<lparr>pool := clear (pool s)\<rparr>)"

text \<open>The connections that exist but are not idle, as the counter of the class sees them.\<close>

definition held :: "'c pool \<Rightarrow> int" where
  "held p = int (live_connections p) - int (length (connections p))"

definition pool_inv :: "'c pool_sys \<Rightarrow> bool" where
  "pool_inv s \<longleftrightarrow> held (pool s) = int (length (out s) + creating s)
     \<and> live_connections (pool s) \<le> pool_size (pool s)
     \<and> distinct (connections (pool s) @ out s)"

text \<open>
  The contract of a pool. Borrowing takes the oldest idle connection and makes it held; giving back,
  discarding and finishing a construction each make one connection less held, whether or not
  the pool has been stopped meanwhile; a slot is reserved only below the configured size, and
  no section ever raises the count beyond that size.
\<close>

locale connection_pool =
  fixes get :: "'c pool \<Rightarrow> 'c option \<times> 'c pool"
    and give_back :: "'c \<Rightarrow> 'c pool \<Rightarrow> 'c pool"
    and reserve :: "'c pool \<Rightarrow> bool \<times> 'c pool"
    and publish :: "'c option \<Rightarrow> 'c pool \<Rightarrow> bool \<times> 'c pool"
    and discard :: "'c pool \<Rightarrow> 'c pool"
    and shut :: "'c pool \<Rightarrow> 'c pool"
    and clear :: "'c pool \<Rightarrow> 'c pool"
  assumes get_none: "get p = (None, p') \<Longrightarrow> p' = p"
    and get_some: "get p = (Some c, p') \<Longrightarrow>
      connections p = c # connections p' \<and> live_connections p' = live_connections p \<and> pool_size p' = pool_size p"
    and give_back_held: "held p > 0 \<Longrightarrow> held (give_back c p) = held p - 1"
    and give_back_conns: "connections (give_back c p) \<in> {connections p, connections p @ [c]}"
    and reserve_ok: "reserve p = (True, p') \<Longrightarrow>
      connections p' = connections p \<and> live_connections p' = live_connections p + 1
      \<and> live_connections p' \<le> pool_size p"
    and reserve_full: "reserve p = (False, p') \<Longrightarrow> p' = p"
    and publish_held: "held p > 0 \<Longrightarrow> held (snd (publish made p)) = held p - 1"
    and publish_conns: "connections (snd (publish made p)) = connections p
      \<or> (\<exists>c. made = Some c \<and> connections (snd (publish made p)) = connections p @ [c])"
    and discard_held: "held p > 0 \<Longrightarrow> held (discard p) = held p - 1"
    and discard_conns: "connections (discard p) = connections p"
    and shut_same: "connections (shut p) = connections p" "live_connections (shut p) = live_connections p"
    and clear_held: "held p \<ge> 0 \<Longrightarrow> held (clear p) = held p"
    and clear_conns: "connections (clear p) = []"
    and live_le: "live_connections (give_back c p) \<le> live_connections p"
      "live_connections (snd (publish made p)) \<le> live_connections p"
      "live_connections (discard p) \<le> live_connections p" "live_connections (clear p) \<le> live_connections p"
    and size_same: "pool_size (give_back c p) = pool_size p" "pool_size (snd (reserve p)) = pool_size p"
      "pool_size (snd (publish made p)) = pool_size p" "pool_size (discard p) = pool_size p"
      "pool_size (shut p) = pool_size p" "pool_size (clear p) = pool_size p"
begin

lemma pool_inv_give_back:
  assumes "pool_inv s" and "c \<in> set (out s)"
  shows "pool_inv (s\<lparr>pool := give_back c (pool s), out := remove1 c (out s)\<rparr>)"
proof -
  have pos: "0 < length (out s)" and h: "held (pool s) > 0"
    using assms by (cases "out s"; auto simp: pool_inv_def)+
  have "length (out s) = Suc (length (remove1 c (out s)))"
    using assms(2) pos by (simp add: length_remove1)
  moreover have "distinct (connections (give_back c (pool s)) @ remove1 c (out s))"
    using give_back_conns [of c "pool s"] assms by (auto simp: pool_inv_def dest: notin_set_remove1)
  ultimately show ?thesis
    using assms(1) give_back_held [OF h] live_le(1) [of c "pool s"] size_same(1) [of c "pool s"]
    by (auto simp: pool_inv_def)
qed

lemma pool_inv_discard:
  assumes "pool_inv s" and "c \<in> set (out s)"
  shows "pool_inv (s\<lparr>pool := discard (pool s), out := remove1 c (out s)\<rparr>)"
proof -
  have pos: "0 < length (out s)" and h: "held (pool s) > 0"
    using assms by (cases "out s"; auto simp: pool_inv_def)+
  have "length (out s) = Suc (length (remove1 c (out s)))"
    using assms(2) pos by (simp add: length_remove1)
  then show ?thesis
    using assms(1) discard_held [OF h] live_le(3) [of "pool s"] size_same(4) [of "pool s"]
    by (auto simp: pool_inv_def discard_conns dest: notin_set_remove1)
qed

lemma pool_inv_publish:
  assumes "pool_inv s" and "0 < creating s" and "publish made (pool s) = (ok, p)"
    and "\<forall>c. made = Some c \<longrightarrow> c \<notin> set (connections (pool s)) \<union> set (out s)"
  shows "pool_inv (s\<lparr>pool := p, creating := creating s - 1\<rparr>)"
proof -
  have p: "p = snd (publish made (pool s))"
    using assms(3) by simp
  have h: "held (pool s) > 0"
    using assms(1,2) by (simp add: pool_inv_def)
  have "distinct (connections p @ out s)"
    using publish_conns [of made "pool s"] assms(1,4) unfolding p by (auto simp: pool_inv_def)
  then show ?thesis
    using assms(1,2) publish_held [OF h, of made] live_le(2) [of made "pool s"]
      size_same(3) [of made "pool s"]
    by (simp add: pool_inv_def p of_nat_diff)
qed

lemma pool_inv_step:
  assumes "pool_step get give_back reserve publish discard shut clear s s'" and "pool_inv s"
  shows "pool_inv s'"
  using assms(1)
proof cases
  case (step_get c p)
  then show ?thesis
    using get_some [of "pool s" c p] assms(2) by (auto simp: pool_inv_def held_def)
next
  case (step_get_none p)
  then show ?thesis
    using get_none assms(2) by (auto simp: pool_inv_def)
next
  case (step_reserve ok p)
  then show ?thesis
    using reserve_ok [of "pool s" p] reserve_full [of "pool s" p] size_same(2) [of "pool s"] assms(2)
    by (cases ok) (auto simp: pool_inv_def held_def)
next
  case step_shut
  then show ?thesis
    using assms(2) shut_same size_same(5) [of "pool s"] by (simp add: pool_inv_def held_def)
next
  case step_clear
  then show ?thesis
    using assms(2) clear_held [of "pool s"] live_le(4) [of "pool s"] size_same(6) [of "pool s"]
    by (simp add: pool_inv_def clear_conns)
qed (use assms(2) pool_inv_give_back pool_inv_discard pool_inv_publish in blast)+

lemma pool_inv_reachable:
  assumes "(pool_step get give_back reserve publish discard shut clear)\<^sup>*\<^sup>* s s'" and "pool_inv s"
  shows "pool_inv s'"
  using assms by (induction rule: rtranclp_induct) (auto intro: pool_inv_step)

end

lemma pool_inv_empty: "pool_inv \<lparr>pool = empty_pool n, out = [], creating = 0\<rparr>"
  by (simp add: pool_inv_def empty_pool_def held_def)

lemma pool_inv_live: "pool_inv s \<Longrightarrow>
  live_connections (pool s) = length (connections (pool s)) + length (out s) + creating s"
  by (simp add: pool_inv_def held_def)

end
