(* ===== verification/Mysql_Pool.thy ===== *)
theory Mysql_Pool
  imports Connection_Pool
begin

text \<open>
  \<^verbatim>\<open>MySqlPool\<close> of \<^verbatim>\<open>common/MysqlConnectionPool.h\<close>. The critical sections
  come first; the methods compose them as the class does. The connection factory, the sanitizer
  and the health check are the three \<^verbatim>\<open>std::function\<close> members: their results (a
  connection or none, success or an exception) are arguments.
\<close>

definition getConnection :: "'c pool \<Rightarrow> 'c option \<times> 'c pool" where
  "getConnection p =
     (if stopped p \<or> connections p = [] then (None, p)
      else (Some (hd (connections p)), p\<lparr>connections := tl (connections p)\<rparr>))"

definition give_back :: "'c \<Rightarrow> 'c pool \<Rightarrow> 'c pool" where
  "give_back c p =
     (if stopped p
      then (if live_connections p > 0 then p\<lparr>live_connections := live_connections p - 1\<rparr> else p)
      else p\<lparr>connections := connections p @ [c]\<rparr>)"

definition reserve_slot :: "'c pool \<Rightarrow> bool \<times> 'c pool" where
  "reserve_slot p =
     (if stopped p \<or> live_connections p \<ge> pool_size p then (False, p)
      else (True, p\<lparr>live_connections := live_connections p + 1\<rparr>))"

definition publish_connection :: "'c option \<Rightarrow> 'c pool \<Rightarrow> bool \<times> 'c pool" where
  "publish_connection made p =
     (case made of
        None \<Rightarrow> (False, p\<lparr>live_connections := live_connections p - 1\<rparr>)
      | Some c \<Rightarrow>
          if stopped p then (False, p\<lparr>live_connections := live_connections p - 1\<rparr>)
          else (True, p\<lparr>connections := connections p @ [c]\<rparr>))"

definition DiscardConnection :: "'c pool \<Rightarrow> 'c pool" where
  "DiscardConnection p =
     (if live_connections p > 0 then p\<lparr>live_connections := live_connections p - 1\<rparr> else p)"

definition shut_pool :: "'c pool \<Rightarrow> 'c pool" where
  "shut_pool p = p\<lparr>stopped := True\<rparr>"

function clear_pool :: "'c pool \<Rightarrow> 'c pool" where
  "clear_pool p =
     (if connections p = [] then p
      else let p1 = p\<lparr>connections := tl (connections p)\<rparr> in
        clear_pool (if live_connections p1 > 0
                    then p1\<lparr>live_connections := live_connections p1 - 1\<rparr> else p1))"
  by pat_completeness auto
termination
  by (relation "measure (\<lambda>p. length (connections p))") auto

declare clear_pool.simps [simp del]

definition CreateOneConnection :: "'c option \<Rightarrow> 'c pool \<Rightarrow> bool \<times> 'c pool" where
  "CreateOneConnection made p =
     (case reserve_slot p of (ok, p1) \<Rightarrow> if ok then publish_connection made p1 else (False, p1))"

definition returnConnection :: "'c option \<Rightarrow> bool \<Rightarrow> 'c option \<Rightarrow> 'c pool \<Rightarrow> 'c pool" where
  "returnConnection connection sanitizer_throws made p =
     (case connection of
        None \<Rightarrow> p
      | Some c \<Rightarrow>
          if sanitizer_throws then snd (CreateOneConnection made (DiscardConnection p))
          else give_back c p)"

definition Close :: "'c pool \<Rightarrow> 'c pool" where
  "Close p = clear_pool (shut_pool p)"

fun check_idle :: "('c \<Rightarrow> bool) \<Rightarrow> nat \<Rightarrow> 'c pool \<Rightarrow> 'c pool" where
  "check_idle healthy 0 p = p"
| "check_idle healthy (Suc n) p =
     (if stopped p \<or> connections p = [] then p
      else let c = hd (connections p); p1 = p\<lparr>connections := tl (connections p)\<rparr> in
        check_idle healthy n (if healthy c then give_back c p1 else DiscardConnection p1))"

definition CheckIdleConnections :: "('c \<Rightarrow> bool) \<Rightarrow> 'c pool \<Rightarrow> 'c pool" where
  "CheckIdleConnections healthy p = check_idle healthy (length (connections p)) p"

text \<open>\<open>factory k\<close> is what the \<open>k\<close>-th call of the factory returns from here on.\<close>

lemma CreateOneConnection_True:
  "CreateOneConnection made p = (True, p') \<Longrightarrow>
     pool_size p' = pool_size p \<and> live_connections p' = live_connections p + 1
     \<and> live_connections p < pool_size p"
  by (auto simp: CreateOneConnection_def reserve_slot_def publish_connection_def
      split: if_splits option.splits)

function ReplenishConnections :: "(nat \<Rightarrow> 'c option) \<Rightarrow> nat \<Rightarrow> 'c pool \<Rightarrow> 'c pool" where
  "ReplenishConnections factory k p =
     (case CreateOneConnection (factory k) p of
        (True, p1) \<Rightarrow> ReplenishConnections factory (Suc k) p1
      | (False, p1) \<Rightarrow> p1)"
  by pat_completeness auto
termination
  by (relation "measure (\<lambda>(factory, k, p). pool_size p - live_connections p)")
    (auto dest: CreateOneConnection_True [OF sym])

declare ReplenishConnections.simps [simp del]

fun construct :: "(nat \<Rightarrow> 'c option) \<Rightarrow> nat \<Rightarrow> nat \<Rightarrow> 'c pool \<Rightarrow> 'c pool" where
  "construct factory 0 k p = p"
| "construct factory (Suc n) k p =
     (case CreateOneConnection (factory k) p of
        (True, p1) \<Rightarrow> construct factory n (Suc k) p1
      | (False, p1) \<Rightarrow> p1)"

definition make_pool :: "(nat \<Rightarrow> 'c option) \<Rightarrow> nat \<Rightarrow> 'c pool" where
  "make_pool factory n = construct factory n 0 (empty_pool n)"

definition health_round :: "('c \<Rightarrow> bool) \<Rightarrow> (nat \<Rightarrow> 'c option) \<Rightarrow> 'c pool \<Rightarrow> 'c pool" where
  "health_round healthy factory p = ReplenishConnections factory 0 (CheckIdleConnections healthy p)"

lemma clear_pool_eq:
  "clear_pool p = p\<lparr>connections := [], live_connections := live_connections p - length (connections p)\<rparr>"
proof (induction p rule: clear_pool.induct)
  case (1 p)
  show ?case
  proof (cases "connections p")
    case Nil
    then show ?thesis by (subst clear_pool.simps) simp
  next
    case (Cons c cs)
    then show ?thesis
      using 1 by (subst clear_pool.simps) (simp add: Let_def)
  qed
qed

interpretation mysql: connection_pool getConnection give_back reserve_slot publish_connection
  DiscardConnection shut_pool clear_pool
  by unfold_locales
    (auto simp: getConnection_def give_back_def reserve_slot_def publish_connection_def
      DiscardConnection_def shut_pool_def clear_pool_eq held_def split: if_splits option.splits)

text \<open>
  C28: The MySQL pool never loses or over-creates connections. Under any interleaving of
  borrowers, the health worker, constructions that succeed or fail and a closing thread, the live
  counter is the number of idle, lent and under-construction connections, it never exceeds the
  configured size, and no connection is idle and lent, or lent twice, at the same time.
\<close>

theorem mysql_pool_accounting:
  assumes "(pool_step getConnection give_back reserve_slot publish_connection DiscardConnection
      shut_pool clear_pool)\<^sup>*\<^sup>* \<lparr>pool = empty_pool n, out = [], creating = 0\<rparr> s"
  shows "live_connections (pool s) = length (connections (pool s)) + length (out s) + creating s
    \<and> live_connections (pool s) \<le> pool_size (pool s) \<and> distinct (connections (pool s) @ out s)"
  using mysql.pool_inv_reachable [OF assms pool_inv_empty] pool_inv_live [of s]
  by (simp add: pool_inv_def)

theorem mysql_pool_accounting_witness:
  "let s = \<lparr>pool = \<lparr>connections = [], live_connections = 1, stopped = False, pool_size = 2\<rparr>, out = [7 :: nat],
            creating = 0\<rparr>
   in live_connections (pool s) = length (connections (pool s)) + length (out s) + creating s"
proof -
  let ?step = "pool_step getConnection give_back reserve_slot publish_connection DiscardConnection
    shut_pool clear_pool"
  let ?s0 = "\<lparr>pool = empty_pool 2, out = [], creating = 0\<rparr> :: nat pool_sys"
  let ?p1 = "\<lparr>connections = [], live_connections = 1, stopped = False, pool_size = 2\<rparr> :: nat pool"
  let ?p2 = "\<lparr>connections = [7], live_connections = 1, stopped = False, pool_size = 2\<rparr> :: nat pool"
  have "?step ?s0 \<lparr>pool = ?p1, out = [], creating = 1\<rparr>"
    using step_reserve [of reserve_slot ?s0 True ?p1]
    by (simp add: reserve_slot_def empty_pool_def)
  moreover have "?step \<lparr>pool = ?p1, out = [], creating = 1\<rparr> \<lparr>pool = ?p2, out = [], creating = 0\<rparr>"
    using step_publish [of "\<lparr>pool = ?p1, out = [], creating = 1\<rparr>" publish_connection "Some 7" True ?p2]
    by (simp add: publish_connection_def)
  moreover have "?step \<lparr>pool = ?p2, out = [], creating = 0\<rparr> \<lparr>pool = ?p1, out = [7], creating = 0\<rparr>"
    using step_get [of getConnection "\<lparr>pool = ?p2, out = [], creating = 0\<rparr>" 7 ?p1]
    by (simp add: getConnection_def)
  ultimately have "?step\<^sup>*\<^sup>* ?s0 \<lparr>pool = ?p1, out = [7], creating = 0\<rparr>"
    by (meson converse_rtranclp_into_rtranclp rtranclp.rtrancl_refl)
  then show ?thesis
    using mysql_pool_accounting [of 2 "\<lparr>pool = ?p1, out = [7], creating = 0\<rparr>"] by (simp add: Let_def)
qed

lemma check_idle_eq:
  "connections p = xs @ ys \<Longrightarrow> \<not> stopped p \<Longrightarrow> length (connections p) \<le> live_connections p \<Longrightarrow>
   check_idle healthy (length xs) p =
     p\<lparr>connections := ys @ filter healthy xs,
       live_connections := live_connections p - length (filter (\<lambda>c. \<not> healthy c) xs)\<rparr>"
proof (induction xs arbitrary: p ys)
  case Nil
  then show ?case by simp
next
  case (Cons c xs)
  show ?case
  proof (cases "healthy c")
    case True
    then show ?thesis
      using Cons.prems Cons.IH [of "p\<lparr>connections := xs @ ys @ [c]\<rparr>" "ys @ [c]"]
      by (simp add: Let_def give_back_def)
  next
    case False
    then show ?thesis
      using Cons.prems Cons.IH [of "p\<lparr>connections := xs @ ys, live_connections := live_connections p - 1\<rparr>" ys]
      by (auto simp: Let_def DiscardConnection_def)
  qed
qed

lemma CheckIdleConnections_eq:
  "\<not> stopped p \<Longrightarrow> length (connections p) \<le> live_connections p \<Longrightarrow>
   CheckIdleConnections healthy p =
     p\<lparr>connections := filter healthy (connections p),
       live_connections := live_connections p - length (filter (\<lambda>c. \<not> healthy c) (connections p))\<rparr>"
  using check_idle_eq [of p "connections p" "[]" healthy] by (simp add: CheckIdleConnections_def)

lemma ReplenishConnections_eq:
  assumes "\<forall>j. factory j \<noteq> None" and "\<not> stopped p" and "live_connections p \<le> pool_size p"
  shows "ReplenishConnections factory k p =
    p\<lparr>live_connections := pool_size p,
      connections := connections p @ map (\<lambda>j. the (factory (k + j))) [0..<pool_size p - live_connections p]\<rparr>"
  using assms
proof (induction factory k p rule: ReplenishConnections.induct)
  case (1 factory k p)
  obtain c where c: "factory k = Some c"
    using 1 by blast
  show ?case
  proof (cases "live_connections p < pool_size p")
    case True
    let ?p1 = "p\<lparr>live_connections := live_connections p + 1, connections := connections p @ [c]\<rparr>"
    have create: "CreateOneConnection (factory k) p = (True, ?p1)"
      using True c 1 by (simp add: CreateOneConnection_def reserve_slot_def publish_connection_def)
    have "[0..<pool_size p - live_connections p] = 0 # map Suc [0..<pool_size p - Suc (live_connections p)]"
      using True by (simp add: map_Suc_upt upt_conv_Cons Suc_diff_Suc)
    then show ?thesis
      using 1 True create c by (subst ReplenishConnections.simps) (simp add: comp_def)
  next
    case False
    then show ?thesis
      using 1 by (subst ReplenishConnections.simps) (simp add: CreateOneConnection_def reserve_slot_def)
  qed
qed

lemma health_round_eq:
  assumes "\<not> stopped p" and "length (connections p) \<le> live_connections p"
    and "live_connections p \<le> pool_size p" and "\<forall>j. factory j \<noteq> None"
  shows "health_round healthy factory p =
    p\<lparr>live_connections := pool_size p,
      connections := filter healthy (connections p) @ map (\<lambda>j. the (factory j))
        [0..<pool_size p - (live_connections p - length (filter (\<lambda>c. \<not> healthy c) (connections p)))]\<rparr>"
proof -
  have "live_connections p - length (filter (\<lambda>c. \<not> healthy c) (connections p)) \<le> pool_size p"
    using assms(3) by simp
  then show ?thesis
    using assms(1,2,4) by (simp add: health_round_def CheckIdleConnections_eq ReplenishConnections_eq)
qed

text \<open>
  C31: Self-healing. Take a pool that is not stopped and counts no more connections than its size, and a factory that
  opens a connection at every call. One round of the health worker that no other thread interrupts ends, restores
  the pool to its full size, keeps in the pool only connections that passed the check or are new, and does not touch
  the lent ones.
\<close>

theorem mysql_health_round_restores:
  assumes "\<not> stopped p" and "length (connections p) \<le> live_connections p"
    and "live_connections p \<le> pool_size p" and "\<forall>j. factory j \<noteq> None"
  shows "live_connections (health_round healthy factory p) = pool_size p
    \<and> held (health_round healthy factory p) = held p
    \<and> (\<forall>c \<in> set (connections (health_round healthy factory p)).
          (c \<in> set (connections p) \<and> healthy c) \<or> (\<exists>j. factory j = Some c))"
proof -
  have n: "length (filter healthy (connections p)) + length (filter (\<lambda>c. \<not> healthy c) (connections p))
      = length (connections p)"
    by (simp add: sum_length_filter_compl)
  have "\<exists>j. factory j = Some (the (factory i))" for i
    using assms(4) by (metis option.collapse)
  then show ?thesis
    using n assms(1-3) unfolding health_round_eq [OF assms] by (auto simp: held_def)
qed

theorem mysql_health_round_restores_witness:
  "let p = \<lparr>connections = [1, 2], live_connections = 3, stopped = False, pool_size = 5\<rparr>
   in live_connections (health_round (\<lambda>c. c \<noteq> 2) (\<lambda>j. Some (10 + j)) p) = 5
      \<and> held (health_round (\<lambda>c. c \<noteq> 2) (\<lambda>j. Some (10 + j)) p) = 1"
  using mysql_health_round_restores [of "\<lparr>connections = [1, 2], live_connections = 3, stopped = False,
      pool_size = 5\<rparr>" "\<lambda>j. Some (10 + j)" "\<lambda>c. c \<noteq> 2"]
  by (simp add: Let_def held_def)

end
