(* ===== verification/Redis_Pool.thy ===== *)
theory Redis_Pool
  imports Connection_Pool
begin

text \<open>
  \<^verbatim>\<open>RedisConnectionPool\<close> of \<^verbatim>\<open>common/RedisConnectionPool.h\<close>. hiredis is
  reached through the class's \<^verbatim>\<open>RedisApi\<close> member, which is an argument here: what the
  \<open>k\<close>-th connection attempt returns, whether a context is free of errors after a given
  command (the empty list stands for the connection itself), and the reply to a command.
  Replies are those of the Redis protocol.
\<close>

datatype redis_reply =
    RStatus string | RError string | RString string | RInteger int | RNil | RArray "redis_reply list"

record 'c redis_api =
  connect :: "nat \<Rightarrow> 'c option"
  context_ok :: "'c \<Rightarrow> string list \<Rightarrow> bool"
  command :: "'c \<Rightarrow> string list \<Rightarrow> redis_reply option"

definition redis_getConnection :: "'c pool \<Rightarrow> 'c option \<times> 'c pool" where
  "redis_getConnection p =
     (if stopped p \<or> connections p = [] then (None, p)
      else (Some (hd (connections p)), p\<lparr>connections := tl (connections p)\<rparr>))"

definition getConNonBlock :: "'c pool \<Rightarrow> 'c option \<times> 'c pool" where
  "getConNonBlock p =
     (if stopped p \<or> connections p = [] then (None, p)
      else (Some (hd (connections p)), p\<lparr>connections := tl (connections p)\<rparr>))"

definition redis_returnConnection :: "'c option \<Rightarrow> 'c pool \<Rightarrow> 'c pool" where
  "redis_returnConnection ctx p =
     (case ctx of
        None \<Rightarrow> p
      | Some c \<Rightarrow>
          if stopped p
          then (if live_connections p > 0 then p\<lparr>live_connections := live_connections p - 1\<rparr> else p)
          else p\<lparr>connections := connections p @ [c]\<rparr>)"

function ClearConnections :: "'c pool \<Rightarrow> 'c pool" where
  "ClearConnections p =
     (if connections p = [] then p
      else let p1 = p\<lparr>connections := tl (connections p)\<rparr> in
        ClearConnections (if live_connections p1 > 0
                          then p1\<lparr>live_connections := live_connections p1 - 1\<rparr> else p1))"
  by pat_completeness auto
termination
  by (relation "measure (\<lambda>p. length (connections p))") auto

declare ClearConnections.simps [simp del]

definition redis_shut :: "'c pool \<Rightarrow> 'c pool" where
  "redis_shut p = p\<lparr>stopped := True\<rparr>"

definition redis_Close :: "'c pool \<Rightarrow> 'c pool" where
  "redis_Close p = ClearConnections (redis_shut p)"

definition auth_command :: "string \<Rightarrow> string \<Rightarrow> string list" where
  "auth_command user password = ''AUTH'' # (if user = [] then [] else [user]) @ [password]"

definition Authenticate :: "'c redis_api \<Rightarrow> string \<Rightarrow> string \<Rightarrow> 'c \<Rightarrow> bool" where
  "Authenticate api user password c =
     (if password = [] then True
      else case command api c (auth_command user password) of
        Some (RStatus str) \<Rightarrow> str = ''OK'' \<or> str = ''ok''
      | _ \<Rightarrow> False)"

definition redis_reserve :: "'c pool \<Rightarrow> bool \<times> 'c pool" where
  "redis_reserve p =
     (if stopped p \<or> live_connections p \<ge> pool_size p then (False, p)
      else (True, p\<lparr>live_connections := live_connections p + 1\<rparr>))"

definition redis_open :: "'c redis_api \<Rightarrow> string \<Rightarrow> string \<Rightarrow> nat \<Rightarrow> 'c option" where
  "redis_open api user password k =
     (case connect api k of
        None \<Rightarrow> None
      | Some c \<Rightarrow>
          if \<not> context_ok api c [] \<or> \<not> Authenticate api user password c
             \<or> \<not> context_ok api c (if password = [] then [] else auth_command user password)
          then None else Some c)"

definition redis_publish :: "'c option \<Rightarrow> 'c pool \<Rightarrow> bool \<times> 'c pool" where
  "redis_publish made p =
     (case made of
        None \<Rightarrow> (False, p\<lparr>live_connections := live_connections p - 1\<rparr>)
      | Some c \<Rightarrow>
          if stopped p then (False, p\<lparr>live_connections := live_connections p - 1\<rparr>)
          else (True, p\<lparr>connections := connections p @ [c]\<rparr>))"

definition redis_CreateOneConnection ::
  "'c redis_api \<Rightarrow> string \<Rightarrow> string \<Rightarrow> nat \<Rightarrow> 'c pool \<Rightarrow> bool \<times> 'c pool" where
  "redis_CreateOneConnection api user password k p =
     (case redis_reserve p of
        (ok, p1) \<Rightarrow> if ok then redis_publish (redis_open api user password k) p1 else (False, p1))"

definition redis_DiscardConnection :: "'c pool \<Rightarrow> 'c pool" where
  "redis_DiscardConnection p =
     (if live_connections p > 0 then p\<lparr>live_connections := live_connections p - 1\<rparr> else p)"

definition ping_healthy :: "'c redis_api \<Rightarrow> 'c \<Rightarrow> bool" where
  "ping_healthy api c \<longleftrightarrow> command api c [''PING''] = Some (RStatus ''PONG'') \<and> context_ok api c [''PING'']"

fun redis_check_idle :: "'c redis_api \<Rightarrow> nat \<Rightarrow> 'c pool \<Rightarrow> 'c pool" where
  "redis_check_idle api 0 p = p"
| "redis_check_idle api (Suc n) p =
     (case getConNonBlock p of
        (None, p1) \<Rightarrow> p1
      | (Some c, p1) \<Rightarrow>
          redis_check_idle api n
            (if \<not> ping_healthy api c then redis_DiscardConnection p1
             else redis_returnConnection (Some c) p1))"

definition redis_CheckIdleConnections :: "'c redis_api \<Rightarrow> 'c pool \<Rightarrow> 'c pool" where
  "redis_CheckIdleConnections api p = redis_check_idle api (length (connections p)) p"

lemma redis_CreateOneConnection_True:
  "redis_CreateOneConnection api user password k p = (True, p') \<Longrightarrow>
     pool_size p' = pool_size p \<and> live_connections p' = live_connections p + 1
     \<and> live_connections p < pool_size p"
  by (auto simp: redis_CreateOneConnection_def redis_reserve_def redis_publish_def
      split: if_splits option.splits)

function redis_ReplenishConnections ::
  "'c redis_api \<Rightarrow> string \<Rightarrow> string \<Rightarrow> nat \<Rightarrow> 'c pool \<Rightarrow> 'c pool" where
  "redis_ReplenishConnections api user password k p =
     (case redis_CreateOneConnection api user password k p of
        (True, p1) \<Rightarrow> redis_ReplenishConnections api user password (Suc k) p1
      | (False, p1) \<Rightarrow> p1)"
  by pat_completeness auto
termination
  by (relation "measure (\<lambda>(api, user, password, k, p). pool_size p - live_connections p)")
    (auto dest: redis_CreateOneConnection_True [OF sym])

declare redis_ReplenishConnections.simps [simp del]

lemma ClearConnections_eq:
  "ClearConnections p = p\<lparr>connections := [], live_connections := live_connections p - length (connections p)\<rparr>"
proof (induction p rule: ClearConnections.induct)
  case (1 p)
  show ?case
  proof (cases "connections p")
    case Nil
    then show ?thesis by (subst ClearConnections.simps) simp
  next
    case (Cons c cs)
    then show ?thesis
      using 1 by (subst ClearConnections.simps) (simp add: Let_def)
  qed
qed

lemmas redis_pool_defs = redis_getConnection_def redis_returnConnection_def redis_reserve_def
  redis_publish_def redis_DiscardConnection_def redis_shut_def ClearConnections_eq held_def

interpretation redis: connection_pool redis_getConnection "\<lambda>c. redis_returnConnection (Some c)"
  redis_reserve redis_publish redis_DiscardConnection redis_shut ClearConnections
  by unfold_locales (auto simp: redis_pool_defs split: if_splits option.splits)

text \<open>The health worker takes connections with \<open>getConNonBlock\<close>, which borrows just as callers do.\<close>

lemma getConNonBlock_eq: "getConNonBlock = redis_getConnection"
  by (simp add: fun_eq_iff getConNonBlock_def redis_getConnection_def)

text \<open>
  The Redis pool never loses or over-creates connections: under any interleaving of borrowers,
  the health worker, constructions that succeed or fail and a closing thread, its live counter
  is the number of idle, lent and under-construction contexts, never exceeds the configured
  size, and no context is idle and lent, or lent twice, at the same time.
\<close>

theorem redis_pool_accounting:
  assumes "(pool_step redis_getConnection (\<lambda>c. redis_returnConnection (Some c)) redis_reserve redis_publish
      redis_DiscardConnection redis_shut ClearConnections)\<^sup>*\<^sup>* \<lparr>pool = empty_pool n, out = [], creating = 0\<rparr> s"
  shows "live_connections (pool s) = length (connections (pool s)) + length (out s) + creating s
    \<and> live_connections (pool s) \<le> pool_size (pool s) \<and> distinct (connections (pool s) @ out s)"
  using redis.pool_inv_reachable [OF assms pool_inv_empty] pool_inv_live [of s]
  by (simp add: pool_inv_def)

theorem redis_pool_accounting_witness:
  "let s = \<lparr>pool = empty_pool 3, out = [] :: nat list, creating = 0\<rparr>
   in live_connections (pool s) = length (connections (pool s)) + length (out s) + creating s"
  using redis_pool_accounting [of 3 "\<lparr>pool = empty_pool 3, out = [] :: nat list, creating = 0\<rparr>"]
  by (simp add: Let_def)

end
