(* ===== verification/Wire_Protocol.thy ===== *)
theory Wire_Protocol
  imports Prelude
begin

unbundle bit_operations_syntax

text \<open>
  The constants and frame format of the chat protocol: \<^verbatim>\<open>servers/chat/core/const.h\<close>
  (message identifiers, limits, error codes) and \<^verbatim>\<open>servers/chat/network/MsgNode.cpp\<close>
  (the four byte header: identifier and length, 16 bits each, in network byte order).
\<close>


abbreviation MAX_LENGTH :: nat where "MAX_LENGTH \<equiv> 2048"
abbreviation MAX_FILE_FRAME_LENGTH :: nat where "MAX_FILE_FRAME_LENGTH \<equiv> 61440"
abbreviation HEAD_TOTAL_LEN :: nat where "HEAD_TOTAL_LEN \<equiv> 4"
abbreviation MAX_SENDQUE :: nat where "MAX_SENDQUE \<equiv> 1000"
abbreviation MAX_CHAT_SESSIONS :: nat where "MAX_CHAT_SESSIONS \<equiv> 10000"

datatype error_code =
    ERROR_CODE_OK | JSON_ERROR | RPC_ERROR | VarifyExpired | VarifyCodeErr | UserExist | PasswdErr
  | EmailNotMatch | PasswdUpFailed | PasswdInvalid | TokenInvalid | UidInvalid

fun error_number :: "error_code \<Rightarrow> int" where
  "error_number ERROR_CODE_OK = 0"
| "error_number JSON_ERROR = 1001"
| "error_number RPC_ERROR = 1002"
| "error_number VarifyExpired = 1003"
| "error_number VarifyCodeErr = 1004"
| "error_number UserExist = 1005"
| "error_number PasswdErr = 1006"
| "error_number EmailNotMatch = 1007"
| "error_number PasswdUpFailed = 1008"
| "error_number PasswdInvalid = 1009"
| "error_number TokenInvalid = 1010"
| "error_number UidInvalid = 1011"

abbreviation MSG_CHAT_LOGIN :: "16 word" where "MSG_CHAT_LOGIN \<equiv> 1005"
abbreviation MSG_CHAT_LOGIN_RSP :: "16 word" where "MSG_CHAT_LOGIN_RSP \<equiv> 1006"
abbreviation ID_SEARCH_USER_REQ :: "16 word" where "ID_SEARCH_USER_REQ \<equiv> 1007"
abbreviation ID_SEARCH_USER_RSP :: "16 word" where "ID_SEARCH_USER_RSP \<equiv> 1008"
abbreviation ID_ADD_FRIEND_REQ :: "16 word" where "ID_ADD_FRIEND_REQ \<equiv> 1009"
abbreviation ID_ADD_FRIEND_RSP :: "16 word" where "ID_ADD_FRIEND_RSP \<equiv> 1010"
abbreviation ID_NOTIFY_ADD_FRIEND_REQ :: "16 word" where "ID_NOTIFY_ADD_FRIEND_REQ \<equiv> 1011"
abbreviation ID_AUTH_FRIEND_REQ :: "16 word" where "ID_AUTH_FRIEND_REQ \<equiv> 1013"
abbreviation ID_AUTH_FRIEND_RSP :: "16 word" where "ID_AUTH_FRIEND_RSP \<equiv> 1014"
abbreviation ID_NOTIFY_AUTH_FRIEND_REQ :: "16 word" where "ID_NOTIFY_AUTH_FRIEND_REQ \<equiv> 1015"
abbreviation ID_TEXT_CHAT_MSG_REQ :: "16 word" where "ID_TEXT_CHAT_MSG_REQ \<equiv> 1017"
abbreviation ID_TEXT_CHAT_MSG_RSP :: "16 word" where "ID_TEXT_CHAT_MSG_RSP \<equiv> 1018"
abbreviation ID_NOTIFY_TEXT_CHAT_MSG_REQ :: "16 word" where "ID_NOTIFY_TEXT_CHAT_MSG_REQ \<equiv> 1019"
abbreviation ID_TEXT_CHAT_MSG_ACK :: "16 word" where "ID_TEXT_CHAT_MSG_ACK \<equiv> 1020"
abbreviation ID_NOTIFY_OFF_LINE_REQ :: "16 word" where "ID_NOTIFY_OFF_LINE_REQ \<equiv> 1021"
abbreviation ID_HEART_BEAT_REQ :: "16 word" where "ID_HEART_BEAT_REQ \<equiv> 1023"
abbreviation ID_HEARTBEAT_RSP :: "16 word" where "ID_HEARTBEAT_RSP \<equiv> 1024"
abbreviation ID_UPLOAD_FILE_REQ :: "16 word" where "ID_UPLOAD_FILE_REQ \<equiv> 1025"
abbreviation ID_UPLOAD_FILE_CHUNK_REQ :: "16 word" where "ID_UPLOAD_FILE_CHUNK_REQ \<equiv> 1027"
abbreviation ID_UPLOAD_FILE_FINISH_REQ :: "16 word" where "ID_UPLOAD_FILE_FINISH_REQ \<equiv> 1029"
abbreviation ID_DOWNLOAD_FILE_REQ :: "16 word" where "ID_DOWNLOAD_FILE_REQ \<equiv> 1032"
abbreviation ID_DOWNLOAD_FILE_DONE :: "16 word" where "ID_DOWNLOAD_FILE_DONE \<equiv> 1034"
abbreviation ID_FILE_TRANSFER_CANCEL :: "16 word" where "ID_FILE_TRANSFER_CANCEL \<equiv> 1035"
abbreviation ID_RESOURCE_TOKEN_REQ :: "16 word" where "ID_RESOURCE_TOKEN_REQ \<equiv> 1036"
abbreviation ID_RESOURCE_REVOKE_REQ :: "16 word" where "ID_RESOURCE_REVOKE_REQ \<equiv> 1038"

definition IsFileTransferMessage :: "16 word \<Rightarrow> bool" where
  "IsFileTransferMessage i \<longleftrightarrow> i \<ge> ID_UPLOAD_FILE_REQ \<and> i \<le> ID_FILE_TRANSFER_CANCEL"

definition IsClientRequestMessage :: "16 word \<Rightarrow> bool" where
  "IsClientRequestMessage i \<longleftrightarrow>
     i \<in> {MSG_CHAT_LOGIN, ID_SEARCH_USER_REQ, ID_ADD_FRIEND_REQ, ID_AUTH_FRIEND_REQ, ID_TEXT_CHAT_MSG_REQ,
           ID_TEXT_CHAT_MSG_ACK, ID_HEART_BEAT_REQ, ID_RESOURCE_TOKEN_REQ, ID_RESOURCE_REVOKE_REQ,
           ID_UPLOAD_FILE_REQ, ID_UPLOAD_FILE_CHUNK_REQ, ID_UPLOAD_FILE_FINISH_REQ, ID_DOWNLOAD_FILE_REQ,
           ID_DOWNLOAD_FILE_DONE, ID_FILE_TRANSFER_CANCEL}"

text \<open>Sixteen bits in network byte order.\<close>

definition host_to_network_short :: "16 word \<Rightarrow> byte list" where
  "host_to_network_short v = [ucast (drop_bit 8 v), ucast v]"

definition network_to_host_short :: "byte \<Rightarrow> byte \<Rightarrow> 16 word" where
  "network_to_host_short hi lo = push_bit 8 (ucast hi) OR ucast lo"

definition SendNode :: "byte list \<Rightarrow> 16 word \<Rightarrow> byte list" where
  "SendNode msg msg_id =
     host_to_network_short msg_id @ host_to_network_short (word_of_nat (length msg)) @ msg"

definition allowed_length :: "16 word \<Rightarrow> nat" where
  "allowed_length i = (if IsFileTransferMessage i then MAX_FILE_FRAME_LENGTH else MAX_LENGTH)"

text \<open>The header a reader sees: identifier and announced length.\<close>

definition read_head :: "byte list \<Rightarrow> (16 word \<times> 16 word) option" where
  "read_head bs =
     (case bs of
        [b0, b1, b2, b3] \<Rightarrow> Some (network_to_host_short b0 b1, network_to_host_short b2 b3)
      | _ \<Rightarrow> None)"

lemma network_short_roundtrip [simp]:
  "network_to_host_short (ucast (drop_bit 8 v)) (ucast v) = v"
proof (rule bit_word_eqI)
  fix n
  assume "n < LENGTH(16)"
  then show "bit (network_to_host_short (ucast (drop_bit 8 v)) (ucast v)) n = bit v n"
    by (cases "n < 8") (auto simp: network_to_host_short_def bit_simps)
qed

lemma length_host_to_network_short [simp]: "length (host_to_network_short v) = 2"
  by (simp add: host_to_network_short_def)

lemma length_SendNode [simp]: "length (SendNode msg i) = HEAD_TOTAL_LEN + length msg"
  by (simp add: SendNode_def)

lemma read_head_SendNode:
  "length msg < 2 ^ 16 \<Longrightarrow>
   \<exists>n. read_head (take HEAD_TOTAL_LEN (SendNode msg i)) = Some (i, n) \<and> unat n = length msg"
  by (simp add: SendNode_def read_head_def host_to_network_short_def unat_of_nat)

lemma drop_SendNode [simp]: "drop HEAD_TOTAL_LEN (SendNode msg i @ rest) = msg @ rest"
  by (simp add: SendNode_def host_to_network_short_def)

lemma allowed_length_bound: "allowed_length i \<le> MAX_FILE_FRAME_LENGTH"
  by (simp add: allowed_length_def)

end
