(* ===== verification/Send_Queue.thy ===== *)
theory Send_Queue
  imports Wire_Protocol
begin

text \<open>
  The outgoing half of a chat session, \<^verbatim>\<open>Send\<close>, \<^verbatim>\<open>StartWrite\<close>, \<^verbatim>\<open>HandleWrite\<close> and \<^verbatim>\<open>Close\<close> of
  \<^verbatim>\<open>servers/chat/network/CSession.cpp\<close>. The queue is filled by any thread under the session's lock
  and written from the socket's executor; \<open>start_posted\<close> counts the \<^verbatim>\<open>StartWrite\<close> handlers
  that are posted and have not run, \<open>writing\<close> says whether an \<^verbatim>\<open>async_write\<close> is in progress.
\<close>

record send_side =
  b_close :: bool
  send_que :: "byte list list"
  send_bytes :: "64 word"
  start_posted :: nat
  writing :: bool

definition SendByteLimit :: "64 word" where
  "SendByteLimit = 4 * 1024 * 1024"

definition new_send_side :: send_side where
  "new_send_side = \<lparr>b_close = False, send_que = [], send_bytes = 0, start_posted = 0, writing = False\<rparr>"

definition close_send :: "send_side \<Rightarrow> send_side" where
  "close_send s = s\<lparr>b_close := True\<rparr>"

definition Send :: "byte list \<Rightarrow> 16 word \<Rightarrow> send_side \<Rightarrow> bool \<times> send_side" where
  "Send msg msgid s =
     (if length msg > 65535 then (False, close_send s)
      else if b_close s then (False, s)
      else let frame_bytes = word_of_nat (length msg + HEAD_TOTAL_LEN) in
        if length (send_que s) \<ge> MAX_SENDQUE \<or> frame_bytes > SendByteLimit - send_bytes s then (False, s)
        else let t = s\<lparr>send_que := send_que s @ [SendNode msg msgid], send_bytes := send_bytes s + frame_bytes\<rparr> in
          if length (send_que s) > 0 then (True, t)
          else (True, t\<lparr>start_posted := start_posted s + 1\<rparr>))"

definition StartWrite :: "send_side \<Rightarrow> send_side" where
  "StartWrite s =
     (let s = s\<lparr>start_posted := start_posted s - 1\<rparr>
      in if b_close s then s
         else if send_que s = [] then s
         else s\<lparr>writing := True\<rparr>)"

definition HandleWrite :: "bool \<Rightarrow> send_side \<Rightarrow> send_side" where
  "HandleWrite error s =
     (let s = s\<lparr>writing := False\<rparr>
      in if \<not> error then
           let s = s\<lparr>send_bytes := send_bytes s - word_of_nat (length (hd (send_que s))), send_que := tl (send_que s)\<rparr>
           in if send_que s \<noteq> [] \<and> \<not> b_close s then s\<lparr>writing := True\<rparr> else s
         else close_send s)"

text \<open>
  The executions of a session: the state with the frames that \<^verbatim>\<open>Send\<close> has accepted so far and
  the frames that have been written to the socket completely.
\<close>

type_synonym send_run = "send_side \<times> byte list list \<times> byte list list"

inductive send_step :: "send_run \<Rightarrow> send_run \<Rightarrow> bool" where
  step_send: "Send msg i s = (r, s') \<Longrightarrow>
     send_step (s, acc, out) (s', if r then acc @ [SendNode msg i] else acc, out)"
| step_close: "send_step (s, acc, out) (close_send s, acc, out)"
| step_start: "start_posted s > 0 \<Longrightarrow> send_step (s, acc, out) (StartWrite s, acc, out)"
| step_written: "writing s \<Longrightarrow> send_step (s, acc, out) (HandleWrite False s, acc, out @ [hd (send_que s)])"
| step_failed: "writing s \<Longrightarrow> send_step (s, acc, out) (HandleWrite True s, acc, out)"

definition queued_bytes :: "send_side \<Rightarrow> nat" where
  "queued_bytes s = sum_list (map length (send_que s))"

text \<open>
  The bytes are counted exactly and within the limit, at most one write is pending or in progress,
  there is one whenever an open session has something to send, and nothing is written from an
  empty queue.
\<close>

definition send_inv :: "send_side \<Rightarrow> bool" where
  "send_inv s \<longleftrightarrow>
     unat (send_bytes s) = queued_bytes s \<and> queued_bytes s \<le> 4 * 1024 * 1024 \<and> length (send_que s) \<le> MAX_SENDQUE
     \<and> start_posted s + (if writing s then 1 else 0) \<le> (if send_que s = [] then 0 else 1)
     \<and> (\<not> b_close s \<and> send_que s \<noteq> [] \<longrightarrow> start_posted s > 0 \<or> writing s)"

lemma send_inv_new: "send_inv new_send_side"
  by (simp add: send_inv_def new_send_side_def queued_bytes_def)

lemma send_inv_close: "send_inv s \<Longrightarrow> send_inv (close_send s)"
  by (simp add: send_inv_def close_send_def queued_bytes_def)

lemma room_left:
  assumes "unat (send_bytes s) \<le> 4 * 1024 * 1024" and "n \<le> 65539"
    and "\<not> word_of_nat n > SendByteLimit - send_bytes s"
  shows "unat (send_bytes s + word_of_nat n) = unat (send_bytes s) + n \<and> unat (send_bytes s) + n \<le> 4 * 1024 * 1024"
proof -
  have "send_bytes s \<le> SendByteLimit"
    using assms(1) by (simp add: word_le_nat_alt SendByteLimit_def)
  then have "unat (SendByteLimit - send_bytes s) = 4 * 1024 * 1024 - unat (send_bytes s)"
    by (simp add: unat_sub SendByteLimit_def)
  moreover have n: "unat (word_of_nat n :: 64 word) = n"
    using assms(2) by (simp add: unat_of_nat)
  ultimately have le: "unat (send_bytes s) + n \<le> 4 * 1024 * 1024"
    using assms(1,3) by (simp add: word_less_nat_alt)
  then have "unat (send_bytes s + word_of_nat n) = unat (send_bytes s) + unat (word_of_nat n :: 64 word)"
    using n by (intro unat_add_lem [THEN iffD1]) simp
  then show ?thesis
    using n le by simp
qed

lemma Send_cases:
  obtains (refused) "Send msg i s = (False, s)"
  | (oversized) "length msg > 65535" "Send msg i s = (False, close_send s)"
  | (queued) s' where "Send msg i s = (True, s')" "length msg \<le> 65535" "\<not> b_close s" "length (send_que s) < MAX_SENDQUE"
      "\<not> word_of_nat (length msg + HEAD_TOTAL_LEN) > SendByteLimit - send_bytes s"
      "s' = s\<lparr>send_que := send_que s @ [SendNode msg i],
              send_bytes := send_bytes s + word_of_nat (length msg + HEAD_TOTAL_LEN),
              start_posted := (if send_que s = [] then start_posted s + 1 else start_posted s)\<rparr>"
proof -
  consider "length msg > 65535"
    | "length msg \<le> 65535" "b_close s \<or> length (send_que s) \<ge> MAX_SENDQUE
        \<or> word_of_nat (length msg + HEAD_TOTAL_LEN) > SendByteLimit - send_bytes s"
    | "length msg \<le> 65535" "\<not> b_close s" "length (send_que s) < MAX_SENDQUE"
        "\<not> word_of_nat (length msg + HEAD_TOTAL_LEN) > SendByteLimit - send_bytes s"
    by linarith
  then show thesis
  proof cases
    case 1
    then show ?thesis using oversized by (simp add: Send_def)
  next
    case 2
    then show ?thesis using refused by (auto simp: Send_def Let_def)
  next
    case 3
    show ?thesis
      by (rule queued [OF _ 3 refl]) (use 3 in \<open>simp add: Send_def\<close>)
  qed
qed

lemma send_inv_Send:
  assumes "send_inv s"
  shows "send_inv (snd (Send msg i s))"
proof (cases rule: Send_cases [of msg i s])
  case (queued s')
  have "unat (send_bytes s) \<le> 4 * 1024 * 1024" "length msg + HEAD_TOTAL_LEN \<le> 65539"
    using assms queued(2) by (simp_all add: send_inv_def)
  from room_left [OF this queued(5)] have
    "unat (send_bytes s') = queued_bytes s' \<and> queued_bytes s' \<le> 4 * 1024 * 1024"
    using assms by (simp add: queued(6) send_inv_def queued_bytes_def)
  then show ?thesis
    using assms queued by (auto simp: send_inv_def split: if_splits)
qed (use assms send_inv_close in auto)

lemma send_inv_StartWrite: "send_inv s \<Longrightarrow> start_posted s > 0 \<Longrightarrow> send_inv (StartWrite s)"
  by (auto simp: send_inv_def StartWrite_def Let_def queued_bytes_def split: if_splits)

lemma send_inv_HandleWrite:
  assumes "send_inv s" and "writing s"
  shows "send_inv (HandleWrite err s)"
proof -
  obtain f fs where q: "send_que s = f # fs" and posted: "start_posted s = 0"
    using assms by (cases "send_que s") (auto simp: send_inv_def split: if_splits)
  have len: "unat (word_of_nat (length f) :: 64 word) = length f" "length f \<le> unat (send_bytes s)"
    using assms(1) by (simp_all add: q send_inv_def queued_bytes_def unat_of_nat)
  then have "unat (send_bytes s - word_of_nat (length f)) = unat (send_bytes s) - length f"
    by (simp add: unat_sub word_le_nat_alt)
  then show ?thesis
    using assms posted by (auto simp: HandleWrite_def close_send_def Let_def send_inv_def queued_bytes_def q)
qed

lemma send_step_inv:
  assumes "send_step x y" and "send_inv (fst x)" and "fst (snd x) = snd (snd x) @ send_que (fst x)"
  shows "send_inv (fst y) \<and> fst (snd y) = snd (snd y) @ send_que (fst y)"
  using assms
proof cases
  case (step_send msg i s r s' acc out)
  have "send_inv s'"
    using send_inv_Send [of s msg i] assms(2) step_send by simp
  moreover have "send_que s' = (if r then send_que s @ [SendNode msg i] else send_que s)"
    using step_send(3) by (cases rule: Send_cases [of msg i s]) (auto simp: close_send_def)
  ultimately show ?thesis
    using assms(3) step_send by simp
next
  case (step_close s acc out)
  then show ?thesis
    using assms(2,3) send_inv_close by (simp add: close_send_def)
next
  case (step_start s acc out)
  then show ?thesis
    using assms(2,3) send_inv_StartWrite by (simp add: StartWrite_def Let_def)
next
  case (step_written s acc out)
  moreover have "send_que s \<noteq> []"
    using step_written assms(2) by (auto simp: send_inv_def split: if_splits)
  ultimately show ?thesis
    using assms(2,3) send_inv_HandleWrite [of s False] by (simp add: HandleWrite_def Let_def)
next
  case (step_failed s acc out)
  then show ?thesis
    using assms(2,3) send_inv_HandleWrite [of s True] by (simp add: HandleWrite_def close_send_def Let_def)
qed

lemma send_run_inv:
  assumes "send_step\<^sup>*\<^sup>* (new_send_side, [], []) x"
  shows "send_inv (fst x) \<and> fst (snd x) = snd (snd x) @ send_que (fst x)"
  using assms
proof induction
  case base
  then show ?case using send_inv_new by (simp add: new_send_side_def)
next
  case (step y z)
  then show ?case using send_step_inv by blast
qed

text \<open>
  C26: In every interleaving of senders, write completions, write errors and closing, the frames
  written to the socket are the accepted frames in the order of acceptance, with none lost,
  repeated or mixed: what is not written yet is in the queue. The queue holds at most 1000 frames
  and 4 MiB, counted exactly (the 64 bit counter never wraps), at most one write is posted or in
  progress at a time, and an open session with queued frames always has one.
\<close>

theorem send_queue_fifo:
  assumes "send_step\<^sup>*\<^sup>* (new_send_side, [], []) (s, acc, out)"
  shows "acc = out @ send_que s
    \<and> length (send_que s) \<le> MAX_SENDQUE \<and> unat (send_bytes s) = queued_bytes s \<and> queued_bytes s \<le> 4 * 1024 * 1024
    \<and> start_posted s + (if writing s then 1 else 0) \<le> 1
    \<and> (\<not> b_close s \<and> send_que s \<noteq> [] \<longrightarrow> start_posted s > 0 \<or> writing s)"
  using send_run_inv [OF assms] by (auto simp: send_inv_def split: if_splits)

theorem send_queue_fifo_witness:
  "\<exists>s. send_step\<^sup>*\<^sup>* (new_send_side, [], []) (s, [SendNode [7] 1018], [SendNode [7] 1018]) \<and> send_que s = []"
proof -
  let ?s1 = "snd (Send [7] 1018 new_send_side)"
  have ok: "Send [7] 1018 new_send_side = (True, ?s1)" "start_posted ?s1 > 0" "send_que ?s1 = [SendNode [7] 1018]"
      "\<not> b_close ?s1"
    by (simp_all add: Send_def new_send_side_def SendByteLimit_def word_less_nat_alt)
  have "send_step\<^sup>*\<^sup>* (new_send_side, [], []) (?s1, [SendNode [7] 1018], [])"
    using step_send [OF ok(1), of "[]" "[]"] by auto
  from rtranclp.rtrancl_into_rtrancl [OF this step_start [OF ok(2)]]
  have start: "send_step\<^sup>*\<^sup>* (new_send_side, [], []) (StartWrite ?s1, [SendNode [7] 1018], [])" .
  have w: "writing (StartWrite ?s1)" "send_que (StartWrite ?s1) = [SendNode [7] 1018]"
    using ok by (simp_all add: StartWrite_def)
  from rtranclp.rtrancl_into_rtrancl [OF start step_written [OF w(1)]]
  have run: "send_step\<^sup>*\<^sup>* (new_send_side, [], [])
      (HandleWrite False (StartWrite ?s1), [SendNode [7] 1018], [SendNode [7] 1018])"
    by (simp only: w(2) append_Nil list.sel)
  then show ?thesis
    using send_queue_fifo [OF run] by auto
qed

end
