(* ===== verification/Token_Bucket.thy ===== *)
theory Token_Bucket
  imports Complex_Main Prelude
begin

text \<open>
  The rate limiter \<^verbatim>\<open>common/TokenBucket.h\<close>. The C++ code computes in \<open>double\<close>: here the numbers
  are reals and every operation that may round applies the argument \<open>rnd\<close>, of which \<open>rounding_ok\<close>
  names the facts of IEEE arithmetic that are used. Time is counted in nanoseconds.
\<close>

record token_bucket =
  capacity :: real
  rate :: real
  tokens :: real
  last_refill :: time

definition make_bucket :: "real \<Rightarrow> real \<Rightarrow> time \<Rightarrow> token_bucket outcome" where
  "make_bucket cap per_second now =
     (if \<not> cap > 0 \<or> \<not> per_second > 0 then Throws
      else Returns \<lparr>capacity = cap, rate = per_second, tokens = cap, last_refill = now\<rparr>)"

definition duration_seconds :: "(real \<Rightarrow> real) \<Rightarrow> time \<Rightarrow> real" where
  "duration_seconds rnd d = rnd (rnd (real_of_int d) / 1000000000)"

definition refill :: "(real \<Rightarrow> real) \<Rightarrow> time \<Rightarrow> token_bucket \<Rightarrow> token_bucket" where
  "refill rnd now b =
     (if now > last_refill b
      then b\<lparr>tokens := min (capacity b)
                 (rnd (tokens b + rnd (duration_seconds rnd (now - last_refill b) * rate b))),
             last_refill := now\<rparr>
      else b)"

definition consume :: "(real \<Rightarrow> real) \<Rightarrow> real \<Rightarrow> time \<Rightarrow> token_bucket \<Rightarrow> bool \<times> token_bucket" where
  "consume rnd amount now b =
     (let b = refill rnd now b
      in if \<not> amount \<ge> 0 \<or> amount > tokens b then (False, b)
         else (True, b\<lparr>tokens := rnd (tokens b - amount)\<rparr>))"

text \<open>
  Rounding is monotone, rounded numbers are not rounded again, and whole numbers up to
  \<open>2 ^ 53\<close> are exact.
\<close>

definition rounding_ok :: "(real \<Rightarrow> real) \<Rightarrow> bool" where
  "rounding_ok rnd \<longleftrightarrow> mono rnd \<and> (\<forall>x. rnd (rnd x) = rnd x) \<and> (\<forall>n. n \<le> 2 ^ 53 \<longrightarrow> rnd (real n) = real n)"

definition bucket_ok :: "(real \<Rightarrow> real) \<Rightarrow> token_bucket \<Rightarrow> bool" where
  "bucket_ok rnd b \<longleftrightarrow>
     0 \<le> tokens b \<and> tokens b \<le> capacity b \<and> 0 < rate b \<and> rnd (tokens b) = tokens b \<and> rnd (capacity b) = capacity b"

lemma rounding_okD:
  assumes "rounding_ok rnd"
  shows "x \<le> y \<Longrightarrow> rnd x \<le> rnd y" "rnd (rnd x) = rnd x" "n \<le> 2 ^ 53 \<Longrightarrow> rnd (real n) = real n" "rnd 0 = 0"
  using assms by (auto simp: rounding_ok_def mono_def dest: spec [of _ "0::nat"])

lemma rounding_nonneg: "rounding_ok rnd \<Longrightarrow> 0 \<le> x \<Longrightarrow> 0 \<le> rnd x"
  using rounding_okD(1,4) by metis

lemma rounding_ok_id [simp]: "rounding_ok (\<lambda>x. x)"
  by (simp add: rounding_ok_def mono_def)

lemma refill_params [simp]: "capacity (refill rnd now b) = capacity b" "rate (refill rnd now b) = rate b"
  by (simp_all add: refill_def)

lemma consume_params [simp]:
  "capacity (snd (consume rnd a now b)) = capacity b" "rate (snd (consume rnd a now b)) = rate b"
  by (simp_all add: consume_def Let_def)

lemma refill_gain:
  assumes "rounding_ok rnd" and "bucket_ok rnd b"
  shows "tokens b \<le> tokens (refill rnd now b)"
proof (cases "now > last_refill b")
  case True
  have "0 \<le> rnd (real_of_int (now - last_refill b))"
    using True by (intro rounding_nonneg [OF assms(1)]) simp
  then have "0 \<le> duration_seconds rnd (now - last_refill b)"
    unfolding duration_seconds_def by (intro rounding_nonneg [OF assms(1)]) simp
  then have "0 \<le> rnd (duration_seconds rnd (now - last_refill b) * rate b)"
    using assms(2) by (intro rounding_nonneg [OF assms(1)] mult_nonneg_nonneg) (simp_all add: bucket_ok_def)
  then have "rnd (tokens b) \<le> rnd (tokens b + rnd (duration_seconds rnd (now - last_refill b) * rate b))"
    by (intro rounding_okD(1) [OF assms(1)]) simp
  then show ?thesis
    using assms(2) True by (simp add: refill_def bucket_ok_def)
qed (simp add: refill_def)

lemma refill_bucket_ok:
  assumes "rounding_ok rnd" and "bucket_ok rnd b"
  shows "bucket_ok rnd (refill rnd now b)"
  using refill_gain [OF assms, of now] assms rounding_okD(2) [OF assms(1)]
  by (auto simp: bucket_ok_def refill_def min_def)

lemma consume_bucket_ok:
  assumes "rounding_ok rnd" and "bucket_ok rnd b"
  shows "bucket_ok rnd (snd (consume rnd a now b))"
proof -
  let ?b = "refill rnd now b"
  have b: "bucket_ok rnd ?b"
    by (rule refill_bucket_ok [OF assms])
  have "rnd (tokens ?b - a) \<le> tokens ?b" if "0 \<le> a"
    using rounding_okD(1) [OF assms(1), of "tokens ?b - a" "tokens ?b"] b that by (simp add: bucket_ok_def)
  then show ?thesis
    using b rounding_nonneg [OF assms(1), of "tokens ?b - a"] rounding_okD(2) [OF assms(1)]
    by (auto simp: consume_def Let_def bucket_ok_def)
qed

lemma consume_enough:
  assumes "rounding_ok rnd" and "bucket_ok rnd b" and "real (n + a) \<le> tokens b" and "n \<le> 2 ^ 53"
  shows "fst (consume rnd (real a) now b) \<and> real n \<le> tokens (snd (consume rnd (real a) now b))"
proof -
  have *: "real (n + a) \<le> tokens (refill rnd now b)"
    using assms(3) refill_gain [OF assms(1,2), of now] by linarith
  then have "rnd (real n) \<le> rnd (tokens (refill rnd now b) - real a)"
    by (intro rounding_okD(1) [OF assms(1)]) simp
  then show ?thesis
    using * rounding_okD(3) [OF assms(1,4)] by (auto simp: consume_def Let_def)
qed

text \<open>Requests that arrive at one instant, with the amounts they ask for.\<close>

primrec burst :: "(real \<Rightarrow> real) \<Rightarrow> time \<Rightarrow> nat list \<Rightarrow> token_bucket \<Rightarrow> nat list \<times> token_bucket" where
  "burst rnd now [] b = ([], b)"
| "burst rnd now (a # as) b =
     (let (granted, b) = consume rnd (real a) now b; (rest, b) = burst rnd now as b
      in ((if granted then a # rest else rest), b))"

lemma burst_sum:
  assumes "rounding_ok rnd" and "bucket_ok rnd b" and "now \<le> last_refill b" and "tokens b \<le> real n" and "n \<le> 2 ^ 53"
  shows "sum_list (fst (burst rnd now as b)) \<le> n"
  using assms(2-)
proof (induction as arbitrary: b n)
  case (Cons a as)
  let ?b = "snd (consume rnd (real a) now b)"
  have same: "refill rnd now b = b"
    using Cons.prems by (simp add: refill_def)
  have ok: "bucket_ok rnd ?b"
    by (rule consume_bucket_ok [OF assms(1) Cons.prems(1)])
  have last: "now \<le> last_refill ?b"
    using Cons.prems(2) same by (simp add: consume_def)
  show ?case
  proof (cases "real a \<le> tokens b")
    case True
    then have an: "a \<le> n"
      using Cons.prems(3) by linarith
    have "rnd (tokens b - real a) \<le> rnd (real (n - a))"
      using Cons.prems(3) an by (intro rounding_okD(1) [OF assms(1)]) (simp add: of_nat_diff)
    then have "tokens ?b \<le> real (n - a)"
      using True same rounding_okD(3) [OF assms(1), of "n - a"] Cons.prems(4) by (simp add: consume_def)
    then have "sum_list (fst (burst rnd now as ?b)) \<le> n - a"
      using Cons.IH [OF ok last] Cons.prems(4) by simp
    then show ?thesis
      using True an same by (auto simp: consume_def split: prod.splits)
  next
    case False
    then have "?b = b" "\<not> fst (consume rnd (real a) now b)"
      using same by (auto simp: consume_def)
    then show ?thesis
      using Cons.IH [OF Cons.prems] by (auto split: prod.splits)
  qed
qed simp

lemma burst_all:
  assumes "rounding_ok rnd" and "bucket_ok rnd b" and "real (sum_list as) \<le> tokens b" and "sum_list as \<le> 2 ^ 53"
  shows "fst (burst rnd now as b) = as"
  using assms(2-)
proof (induction as arbitrary: b)
  case (Cons a as)
  have "fst (consume rnd (real a) now b) \<and> real (sum_list as) \<le> tokens (snd (consume rnd (real a) now b))"
    using Cons.prems by (intro consume_enough [OF assms(1)]) (simp_all add: add.commute)
  then show ?case
    using Cons.IH [OF consume_bucket_ok [OF assms(1) Cons.prems(1), of "real a" now]] Cons.prems(3)
    by (auto split: prod.splits)
qed simp

text \<open>
  C38: Whatever the rounding of the floating point arithmetic, a bucket of whole capacity grants at
  one instant, and so after any time of silence, no more than its capacity in total; and a bucket
  that is full grants every burst whose total is within its capacity.
\<close>

theorem burst_within_capacity:
  assumes "rounding_ok rnd" and "bucket_ok rnd b" and "capacity b = real n" and "n \<le> 2 ^ 53" and "last_refill b \<le> now"
  shows "sum_list (fst (burst rnd now as b)) \<le> n
    \<and> (tokens b = capacity b \<and> sum_list as \<le> n \<longrightarrow> fst (burst rnd now as b) = as)"
proof
  let ?b = "refill rnd now b"
  have ok: "bucket_ok rnd ?b" and le: "tokens ?b \<le> real n" and last: "now \<le> last_refill ?b"
    using refill_bucket_ok [OF assms(1,2), of now] assms(3,5) by (auto simp: bucket_ok_def refill_def)
  have "refill rnd now ?b = ?b"
    by (simp add: refill_def)
  then have "burst rnd now as b = burst rnd now as ?b" if "as \<noteq> []"
    using that by (cases as) (simp_all add: consume_def)
  then show "sum_list (fst (burst rnd now as b)) \<le> n"
    using burst_sum [OF assms(1) ok last le assms(4), of as] by (cases "as = []") simp_all
  show "tokens b = capacity b \<and> sum_list as \<le> n \<longrightarrow> fst (burst rnd now as b) = as"
    using burst_all [OF assms(1,2)] assms(3,4) by auto
qed

theorem burst_within_capacity_witness:
  "sum_list (fst (burst (\<lambda>x. x) 5 [1, 2, 1] \<lparr>capacity = 3, rate = 1, tokens = 2, last_refill = 0\<rparr>)) \<le> 3"
  using burst_within_capacity [of "\<lambda>x. x" "\<lparr>capacity = 3, rate = 1, tokens = 2, last_refill = 0\<rparr>" 3 5 "[1, 2, 1]"]
  by (simp add: bucket_ok_def)

end
