(* ===== verification/Frame_Reader.thy ===== *)
theory Frame_Reader
  imports Wire_Protocol Token_Bucket
begin

text \<open>
  The incoming half of a chat session, \<^verbatim>\<open>asyncReadFull\<close>, \<^verbatim>\<open>asyncReadLen\<close>, \<^verbatim>\<open>AsyncReadHead\<close> and
  \<^verbatim>\<open>AsyncReadBody\<close> of \<^verbatim>\<open>servers/chat/network/CSession.cpp\<close>. The handlers are numbered in the order in
  which they run, and \<open>read_env\<close> says what each of them sees of the rest of the server: the clock,
  whether the session is still registered, the user it is bound to and whether the queue it posts to
  has room. What was posted is kept in \<open>dispatched\<close>, each frame with the user identifier of that moment.
\<close>

datatype phase = Head | Body "16 word"

record read_env =
  request_time :: "nat \<Rightarrow> time"
  bytes_time :: "nat \<Rightarrow> time"
  valid_at :: "nat \<Rightarrow> bool"
  uid_at :: "nat \<Rightarrow> int"
  PostMsgToQueue_at :: "nat \<Rightarrow> bool"
  PostMsgToFileQue_at :: "nat \<Rightarrow> bool"

record reader =
  read_closed :: bool
  phase :: phase
  total_len :: nat
  data :: "byte list"
  chat_requests :: token_bucket
  file_requests :: token_bucket
  file_bytes :: token_bucket
  handlers :: nat
  dispatched :: "(int \<times> 16 word \<times> byte list) list"

definition bucket_of :: "real \<Rightarrow> real \<Rightarrow> time \<Rightarrow> token_bucket" where
  "bucket_of cap per_second now = \<lparr>capacity = cap, rate = per_second, tokens = cap, last_refill = now\<rparr>"

definition close_read :: "reader \<Rightarrow> reader" where
  "close_read s = s\<lparr>read_closed := True\<rparr>"

definition asyncReadFull :: "nat \<Rightarrow> reader \<Rightarrow> reader" where
  "asyncReadFull maxLength s =
     (if maxLength = 0 \<or> maxLength > MAX_FILE_FRAME_LENGTH then close_read s
      else s\<lparr>total_len := maxLength, data := []\<rparr>)"

definition AsyncReadHead :: "reader \<Rightarrow> reader" where
  "AsyncReadHead s = asyncReadFull HEAD_TOTAL_LEN (s\<lparr>phase := Head\<rparr>)"

definition AsyncReadBody :: "16 word \<Rightarrow> nat \<Rightarrow> reader \<Rightarrow> reader" where
  "AsyncReadBody msg_id len s = asyncReadFull len (s\<lparr>phase := Body msg_id\<rparr>)"

text \<open>A session after \<^verbatim>\<open>StartOnExecutor\<close>, with the budgets of its declaration.\<close>

definition StartOnExecutor :: "time \<Rightarrow> reader" where
  "StartOnExecutor now =
     AsyncReadHead \<lparr>read_closed = False, phase = Head, total_len = 0, data = [],
       chat_requests = bucket_of 200 100 now, file_requests = bucket_of 256 128 now,
       file_bytes = bucket_of (8 * 1024 * 1024) (4 * 1024 * 1024) now, handlers = 0, dispatched = []\<rparr>"

definition admit :: "(real \<Rightarrow> real) \<Rightarrow> time \<Rightarrow> time \<Rightarrow> 16 word \<Rightarrow> nat \<Rightarrow> reader \<Rightarrow> bool \<times> reader" where
  "admit rnd t1 t2 msg_id len s =
     (if IsFileTransferMessage msg_id then
        let (ok, b) = consume rnd 1 t1 (file_requests s); s = s\<lparr>file_requests := b\<rparr>
        in if ok then
             let (ok, b) = consume rnd (real (len + HEAD_TOTAL_LEN)) t2 (file_bytes s) in (ok, s\<lparr>file_bytes := b\<rparr>)
           else (False, s)
      else let (ok, b) = consume rnd 1 t1 (chat_requests s) in (ok, s\<lparr>chat_requests := b\<rparr>))"

definition on_head :: "(real \<Rightarrow> real) \<Rightarrow> read_env \<Rightarrow> byte list \<Rightarrow> reader \<Rightarrow> reader" where
  "on_head rnd e bs s =
     (let k = handlers s; s = s\<lparr>handlers := k + 1\<rparr> in
      if \<not> valid_at e k then close_read s
      else case read_head bs of
        None \<Rightarrow> close_read s
      | Some (msg_id, msg_len) \<Rightarrow>
          if \<not> IsClientRequestMessage msg_id then close_read s
          else if msg_len = 0 \<or> unat msg_len > allowed_length msg_id then close_read s
          else let (allowed, s) = admit rnd (request_time e k) (bytes_time e k) msg_id (unat msg_len) s
            in if \<not> allowed then close_read s else AsyncReadBody msg_id (unat msg_len) s)"

definition on_body :: "read_env \<Rightarrow> 16 word \<Rightarrow> byte list \<Rightarrow> reader \<Rightarrow> reader" where
  "on_body e msg_id bs s =
     (let k = handlers s; s = s\<lparr>handlers := k + 1\<rparr> in
      if \<not> valid_at e k then close_read s
      else if msg_id \<noteq> MSG_CHAT_LOGIN \<and> uid_at e k \<le> 0 then close_read s
      else let posted = (if IsFileTransferMessage msg_id then PostMsgToFileQue_at e k else PostMsgToQueue_at e k)
        in if \<not> posted then close_read s
           else AsyncReadHead (s\<lparr>dispatched := dispatched s @ [(uid_at e k, msg_id, bs)]\<rparr>))"

text \<open>
  One completion of \<^verbatim>\<open>async_read_some\<close> with the bytes it delivers: the buffer is filled up to
  \<open>total_len\<close>, then the handler runs. \<open>receive\<close> is the arrival of a TCP segment of any size, read in
  as many completions as it takes.
\<close>

definition asyncReadLen :: "(real \<Rightarrow> real) \<Rightarrow> read_env \<Rightarrow> byte list \<Rightarrow> reader \<Rightarrow> reader" where
  "asyncReadLen rnd e bs s =
     (let s = s\<lparr>data := data s @ bs\<rparr>
      in if length (data s) \<ge> total_len s
         then (case phase s of Head \<Rightarrow> on_head rnd e (data s) s | Body i \<Rightarrow> on_body e i (data s) s)
         else s)"

definition read_failed :: "reader \<Rightarrow> reader" where
  "read_failed s = close_read s"

function (sequential) receive :: "(real \<Rightarrow> real) \<Rightarrow> read_env \<Rightarrow> byte list \<Rightarrow> reader \<Rightarrow> reader" where
  "receive rnd e [] s = s"
| "receive rnd e bs s =
     (let room = total_len s - length (data s)
      in if read_closed s \<or> room = 0 then s
         else receive rnd e (drop room bs) (asyncReadLen rnd e (take room bs) s))"
  by pat_completeness auto
termination
  by (relation "measure (\<lambda>(_, _, bs, _). length bs)") auto

declare receive.simps(2) [simp del]

text \<open>
  While the session is open the buffer has room for what is expected, and a body is only expected
  for a request of an admissible length.
\<close>

definition reading_ok :: "reader \<Rightarrow> bool" where
  "reading_ok s \<longleftrightarrow> \<not> read_closed s \<longrightarrow>
     length (data s) < total_len s \<and> total_len s \<le> MAX_FILE_FRAME_LENGTH
     \<and> (case phase s of
          Head \<Rightarrow> total_len s = HEAD_TOTAL_LEN
        | Body i \<Rightarrow> IsClientRequestMessage i \<and> total_len s \<le> allowed_length i)"

definition frame_ok :: "int \<times> 16 word \<times> byte list \<Rightarrow> bool" where
  "frame_ok = (\<lambda>(u, i, b). IsClientRequestMessage i \<and> 0 < length b \<and> length b \<le> allowed_length i
     \<and> (i = MSG_CHAT_LOGIN \<or> 0 < u))"

lemma admit_frame [simp]:
  "dispatched (snd (admit rnd t1 t2 i n s)) = dispatched s" "data (snd (admit rnd t1 t2 i n s)) = data s"
  "read_closed (snd (admit rnd t1 t2 i n s)) = read_closed s" "handlers (snd (admit rnd t1 t2 i n s)) = handlers s"
  by (simp_all add: admit_def Let_def split: prod.split)

lemma reading_ok_closed [simp]: "reading_ok (close_read s)"
  by (simp add: reading_ok_def close_read_def)

lemma reading_ok_head [simp]: "reading_ok (AsyncReadHead s)"
  by (simp add: reading_ok_def AsyncReadHead_def asyncReadFull_def)

lemma reading_ok_body:
  "IsClientRequestMessage i \<Longrightarrow> n \<le> allowed_length i \<Longrightarrow> reading_ok (AsyncReadBody i n s)"
  using allowed_length_bound [of i] by (simp add: reading_ok_def AsyncReadBody_def asyncReadFull_def close_read_def)

lemma dispatched_close [simp]: "dispatched (close_read s) = dispatched s"
  by (simp add: close_read_def)

lemma dispatched_async [simp]:
  "dispatched (AsyncReadHead s) = dispatched s" "dispatched (AsyncReadBody i n s) = dispatched s"
  by (simp_all add: AsyncReadHead_def AsyncReadBody_def asyncReadFull_def)

lemma on_head_ok: "reading_ok (on_head rnd e bs s) \<and> dispatched (on_head rnd e bs s) = dispatched s"
  by (auto simp: on_head_def Let_def case_prod_beta reading_ok_body split: option.split)

lemma on_body_cases:
  obtains (closed) "on_body e i bs s = close_read (s\<lparr>handlers := handlers s + 1\<rparr>)"
  | (posted) u where "i = MSG_CHAT_LOGIN \<or> 0 < u"
      "on_body e i bs s = AsyncReadHead (s\<lparr>handlers := handlers s + 1, dispatched := dispatched s @ [(u, i, bs)]\<rparr>)"
proof (cases "valid_at e (handlers s) \<and> (i = MSG_CHAT_LOGIN \<or> 0 < uid_at e (handlers s))
    \<and> (if IsFileTransferMessage i then PostMsgToFileQue_at e (handlers s) else PostMsgToQueue_at e (handlers s))")
  case True
  then show ?thesis
    by (intro posted [of "uid_at e (handlers s)"]) (auto simp: on_body_def Let_def)
next
  case False
  then show ?thesis
    by (intro closed) (auto simp: on_body_def Let_def)
qed

lemma read_step_ok:
  assumes "reading_ok s" and "\<not> read_closed s" and "length bs \<le> total_len s - length (data s)"
    and "\<forall>f \<in> set (dispatched s). frame_ok f"
  shows "reading_ok (asyncReadLen rnd e bs s) \<and> (\<forall>f \<in> set (dispatched (asyncReadLen rnd e bs s)). frame_ok f)"
proof (cases "length (data s @ bs) \<ge> total_len s")
  case True
  then have len: "length (data s @ bs) = total_len s" "0 < total_len s"
    using assms(1-3) by (auto simp: reading_ok_def)
  show ?thesis
  proof (cases "phase s")
    case Head
    then show ?thesis
      using True assms(4) on_head_ok by (simp add: asyncReadLen_def)
  next
    case (Body i)
    then have i: "IsClientRequestMessage i" "length (data s @ bs) \<le> allowed_length i"
      using assms(1,2) len by (simp_all add: reading_ok_def)
    let ?s = "s\<lparr>data := data s @ bs\<rparr>"
    have "asyncReadLen rnd e bs s = on_body e i (data s @ bs) ?s"
      using True Body by (simp add: asyncReadLen_def)
    then show ?thesis
      using i len assms(4)
      by (cases rule: on_body_cases [of e i "data s @ bs" ?s]) (auto simp: frame_ok_def)
  qed
next
  case False
  then show ?thesis
    using assms by (simp add: asyncReadLen_def reading_ok_def split: phase.splits)
qed

lemma receive_ok:
  assumes "reading_ok s" and "\<forall>f \<in> set (dispatched s). frame_ok f"
  shows "reading_ok (receive rnd e bs s) \<and> (\<forall>f \<in> set (dispatched (receive rnd e bs s)). frame_ok f)"
  using assms
proof (induction rnd e bs s rule: receive.induct)
  case (2 rnd e b bs s)
  let ?room = "total_len s - length (data s)"
  show ?case
  proof (cases "read_closed s \<or> ?room = 0")
    case True
    then show ?thesis
      using 2(2,3) by (simp add: receive.simps(2) Let_def)
  next
    case False
    then have "reading_ok (asyncReadLen rnd e (take ?room (b # bs)) s)"
      "\<forall>f \<in> set (dispatched (asyncReadLen rnd e (take ?room (b # bs)) s)). frame_ok f"
      using read_step_ok [OF 2(2) _ _ 2(3), of "take ?room (b # bs)" rnd e] by simp_all
    then show ?thesis
      using 2(1) [OF refl False] False by (simp add: receive.simps(2) Let_def)
  qed
qed simp

lemma start_ok: "reading_ok (StartOnExecutor now)" "dispatched (StartOnExecutor now) = []"
  by (simp_all add: StartOnExecutor_def)

lemma asyncReadLen_append:
  "length (data s @ xs) < total_len s \<Longrightarrow> asyncReadLen rnd e (xs @ ys) s = asyncReadLen rnd e ys (asyncReadLen rnd e xs s)"
  by (simp add: asyncReadLen_def Let_def)

lemma receive_step:
  "bs \<noteq> [] \<Longrightarrow> receive rnd e bs s =
     (let room = total_len s - length (data s)
      in if read_closed s \<or> room = 0 then s else receive rnd e (drop room bs) (asyncReadLen rnd e (take room bs) s))"
  by (cases bs) (simp_all add: receive.simps(2) Let_def)

lemma receive_append:
  "receive rnd e (xs @ ys) s = receive rnd e ys (receive rnd e xs s)"
proof (induction rnd e xs s rule: receive.induct)
  case (2 rnd e b bs s)
  let ?room = "total_len s - length (data s)"
  show ?case
  proof (cases "read_closed s \<or> ?room = 0")
    case True
    then show ?thesis
      by (cases ys) (simp_all add: receive.simps(2) Let_def)
  next
    case go: False
    show ?thesis
    proof (cases "?room \<le> length (b # bs)")
      case True
      then have "take ?room ((b # bs) @ ys) = take ?room (b # bs)" "drop ?room ((b # bs) @ ys) = drop ?room (b # bs) @ ys"
        by (simp_all only: take_append drop_append) simp_all
      then show ?thesis
        using 2 [OF refl go] go receive_step [of "(b # bs) @ ys"] receive_step [of "b # bs"] by (simp add: Let_def)
    next
      case False
      let ?s = "asyncReadLen rnd e (b # bs) s"
      have part: "?s = s\<lparr>data := data s @ b # bs\<rparr>"
        using False by (simp add: asyncReadLen_def Let_def)
      show ?thesis
      proof (cases ys)
        case (Cons y ys')
        have room: "total_len ?s - length (data ?s) = ?room - length (b # bs)"
          by (simp add: part)
        have "receive rnd e ((b # bs) @ ys) s =
            receive rnd e (drop ?room ((b # bs) @ ys)) (asyncReadLen rnd e (take ?room ((b # bs) @ ys)) s)"
          using go by (simp add: receive.simps(2) Let_def)
        also have "\<dots> = receive rnd e (drop (?room - length (b # bs)) ys)
            (asyncReadLen rnd e (take (?room - length (b # bs)) ys) ?s)"
        proof -
          have "take ?room ((b # bs) @ ys) = (b # bs) @ take (?room - length (b # bs)) ys"
            "drop ?room ((b # bs) @ ys) = drop (?room - length (b # bs)) ys"
            using False by (simp_all only: take_append drop_append) simp_all
          then show ?thesis
            using False asyncReadLen_append [of s "b # bs"] by simp
        qed
        also have "\<dots> = receive rnd e ys ?s"
          using False go room Cons by (subst (2) receive_step) (simp_all add: Let_def part)
        also have "?s = receive rnd e (b # bs) s"
          using False go by (simp add: receive.simps(2) Let_def)
        finally show ?thesis .
      qed simp
    qed
  qed
qed simp

lemma receive_exact:
  assumes "\<not> read_closed s" and "data s = []" and "bs \<noteq> []" and "total_len s = length bs"
  shows "receive rnd e bs s = asyncReadLen rnd e bs s"
  using assms by (simp add: receive_step)

lemma segments_join: "fold (receive rnd e) segs s = receive rnd e (concat segs) s"
  by (induction segs arbitrary: s) (simp_all add: receive_append)

text \<open>
  A request of the client that the reader of an open session takes in whole: the session is
  between two frames, registered, has budget, and the queue has room.
\<close>

definition between_frames :: "reader \<Rightarrow> bool" where
  "between_frames s \<longleftrightarrow> \<not> read_closed s \<and> phase s = Head \<and> data s = [] \<and> total_len s = HEAD_TOTAL_LEN"

definition chat_request :: "16 word \<Rightarrow> byte list \<Rightarrow> bool" where
  "chat_request i m \<longleftrightarrow> IsClientRequestMessage i \<and> \<not> IsFileTransferMessage i \<and> 0 < length m \<and> length m \<le> MAX_LENGTH"

definition accepting :: "read_env \<Rightarrow> nat \<Rightarrow> bool" where
  "accepting e k \<longleftrightarrow> (\<forall>j \<ge> k. valid_at e j \<and> PostMsgToQueue_at e j)"

lemma SendNode_split:
  "SendNode m i = (host_to_network_short i @ host_to_network_short (word_of_nat (length m))) @ m"
  by (simp add: SendNode_def)

lemma between_frames_head [simp]: "between_frames (AsyncReadHead s) \<longleftrightarrow> \<not> read_closed s"
  by (simp add: between_frames_def AsyncReadHead_def asyncReadFull_def)

lemma receive_header:
  assumes "between_frames s" and "valid_at e (handlers s)" and "chat_request i m"
    and "consume rnd 1 (request_time e (handlers s)) (chat_requests s) = (True, b)"
  shows "receive rnd e (host_to_network_short i @ host_to_network_short (word_of_nat (length m))) s =
    s\<lparr>data := [], handlers := handlers s + 1, chat_requests := b, phase := Body i, total_len := length m\<rparr>"
proof -
  let ?h = "host_to_network_short i @ host_to_network_short (word_of_nat (length m))"
  have m: "length m \<noteq> 0" "length m \<le> 2048" "unat (word_of_nat (length m) :: 16 word) = length m"
    "(word_of_nat (length m) :: 16 word) \<noteq> 0"
    using assms(3) by (auto simp: chat_request_def unat_of_nat dest: arg_cong [where f = unat])
  have head: "read_head ?h = Some (i, word_of_nat (length m))"
    by (simp add: read_head_def host_to_network_short_def)
  have "receive rnd e ?h s = asyncReadLen rnd e ?h s"
    using assms(1) by (intro receive_exact) (auto simp: between_frames_def host_to_network_short_def)
  also have "\<dots> = on_head rnd e ?h (s\<lparr>data := ?h\<rparr>)"
    using assms(1) by (simp add: asyncReadLen_def between_frames_def)
  also have "\<dots> = s\<lparr>data := [], handlers := handlers s + 1, chat_requests := b, phase := Body i, total_len := length m\<rparr>"
    using assms(2-4) m head
    by (simp add: on_head_def Let_def chat_request_def allowed_length_def admit_def AsyncReadBody_def asyncReadFull_def)
  finally show ?thesis .
qed

lemma receive_request:
  assumes "between_frames s" and "accepting e (handlers s)" and "chat_request i m"
    and "i = MSG_CHAT_LOGIN \<or> 0 < uid_at e (handlers s + 1)"
    and "consume rnd 1 (request_time e (handlers s)) (chat_requests s) = (True, b)"
  shows "\<exists>s'. receive rnd e (SendNode m i) s = s' \<and> between_frames s' \<and> handlers s' = handlers s + 2
    \<and> chat_requests s' = b \<and> dispatched s' = dispatched s @ [(uid_at e (handlers s + 1), i, m)]"
proof -
  have v: "valid_at e (handlers s)" "valid_at e (handlers s + 1)" "PostMsgToQueue_at e (handlers s + 1)"
    using assms(2) by (simp_all add: accepting_def)
  let ?s = "s\<lparr>data := [], handlers := handlers s + 1, chat_requests := b, phase := Body i, total_len := length m\<rparr>"
  have m: "m \<noteq> []" "\<not> IsFileTransferMessage i"
    using assms(3) by (auto simp: chat_request_def)
  have "receive rnd e (SendNode m i) s =
      receive rnd e m (receive rnd e (host_to_network_short i @ host_to_network_short (word_of_nat (length m))) s)"
    by (simp only: SendNode_split receive_append)
  also have "\<dots> = receive rnd e m ?s"
    by (simp only: receive_header [OF assms(1) v(1) assms(3,5)])
  also have "\<dots> = asyncReadLen rnd e m ?s"
    using assms(1) m by (intro receive_exact) (auto simp: between_frames_def)
  also have "\<dots> = on_body e i m (?s\<lparr>data := m\<rparr>)"
    by (simp add: asyncReadLen_def)
  also have "\<dots> = AsyncReadHead (?s\<lparr>data := m, handlers := handlers s + 2,
      dispatched := dispatched s @ [(uid_at e (handlers s + 1), i, m)]\<rparr>)"
    using v m assms(4) by (auto simp: on_body_def Let_def)
  finally show ?thesis
    using assms(1) by (simp add: between_frames_def AsyncReadHead_def asyncReadFull_def)
qed

lemma receive_requests:
  assumes "rounding_ok rnd" and "between_frames s" and "accepting e (handlers s)" and "\<forall>(i, m) \<in> set fs. chat_request i m"
    and "\<forall>k > handlers s. 0 < uid_at e k" and "bucket_ok rnd (chat_requests s)"
    and "real (length fs) \<le> tokens (chat_requests s)" and "length fs \<le> 200"
  shows "between_frames (receive rnd e (concat (map (\<lambda>(i, m). SendNode m i) fs)) s)
    \<and> map snd (dispatched (receive rnd e (concat (map (\<lambda>(i, m). SendNode m i) fs)) s)) = map snd (dispatched s) @ fs"
  using assms(2-)
proof (induction fs arbitrary: s)
  case (Cons f fs)
  obtain i m where f: "f = (i, m)" "chat_request i m"
    using Cons.prems(3) by (cases f) auto
  let ?c = "consume rnd 1 (request_time e (handlers s)) (chat_requests s)"
  have c: "fst ?c \<and> real (length fs) \<le> tokens (snd ?c)" "bucket_ok rnd (snd ?c)"
    using consume_enough [OF assms(1) Cons.prems(5), of "length fs" 1] Cons.prems(6,7)
      consume_bucket_ok [OF assms(1) Cons.prems(5)] by simp_all
  obtain s' where s': "receive rnd e (SendNode m i) s = s'" "between_frames s'" "handlers s' = handlers s + 2"
    "chat_requests s' = snd ?c" "dispatched s' = dispatched s @ [(uid_at e (handlers s + 1), i, m)]"
    using receive_request [OF Cons.prems(1,2) f(2), of rnd "snd ?c"] Cons.prems(4) c(1) by (auto simp: prod_eq_iff)
  have "accepting e (handlers s')" "\<forall>k > handlers s'. 0 < uid_at e k"
    using Cons.prems(2,4) s'(3) by (simp_all add: accepting_def)
  from Cons.IH [OF s'(2) this(1) _ this(2)] show ?case
    using Cons.prems(3,7) c s' f(1) by (simp add: receive_append)
qed simp

text \<open>
  C25: Whatever bytes arrive, in TCP segments of whatever sizes, with whatever clock, budgets and
  queue states: the result does not depend on the segmentation; the receive buffer of 60 KiB is
  never overrun; and a frame reaches the logic layer only if it is a known request of an admissible
  non-zero length, and before authentication only if it is a login.
\<close>

theorem reader_admits:
  "fold (receive rnd e) segs (StartOnExecutor now) = receive rnd e (concat segs) (StartOnExecutor now)
   \<and> (let s = receive rnd e (concat segs) (StartOnExecutor now)
      in (read_closed s \<or> (length (data s) < total_len s \<and> total_len s \<le> MAX_FILE_FRAME_LENGTH))
         \<and> list_all (\<lambda>(u, i, b). IsClientRequestMessage i \<and> 0 < length b \<and> length b \<le> allowed_length i
              \<and> (i = MSG_CHAT_LOGIN \<or> 0 < u)) (dispatched s))"
proof -
  let ?s = "receive rnd e (concat segs) (StartOnExecutor now)"
  have "reading_ok ?s \<and> (\<forall>f \<in> set (dispatched ?s). frame_ok f)"
    by (rule receive_ok) (simp_all add: start_ok)
  then show ?thesis
    unfolding Let_def list_all_iff by (auto simp: segments_join reading_ok_def frame_ok_def)
qed


definition sample_read_env :: read_env where
  "sample_read_env = \<lparr>request_time = (\<lambda>_. 0), bytes_time = (\<lambda>_. 0), valid_at = (\<lambda>_. True), uid_at = (\<lambda>k. if k < 2 then 0 else 7),
     PostMsgToQueue_at = (\<lambda>_. True), PostMsgToFileQue_at = (\<lambda>_. False)\<rparr>"


end
