(* ===== verification/Decimal.thy ===== *)
theory Decimal
  imports Prelude
begin

text \<open>
  Numbers as text: \<^verbatim>\<open>std::to_string\<close> and the whole-string use of \<^verbatim>\<open>std::from_chars\<close> for
  \<^verbatim>\<open>int\<close>, with their round trip, and C strings.
\<close>

definition digit_char :: "nat \<Rightarrow> char" where
  "digit_char d = char_of (48 + d)"

definition is_digit :: "char \<Rightarrow> bool" where
  "is_digit c \<longleftrightarrow> 48 \<le> (of_char c :: nat) \<and> (of_char c :: nat) \<le> 57"

definition digit_value :: "char \<Rightarrow> nat" where
  "digit_value c = of_char c - 48"

fun decimal :: "nat \<Rightarrow> string" where
  "decimal n = (if n < 10 then [digit_char n] else decimal (n div 10) @ [digit_char (n mod 10)])"

declare decimal.simps [simp del]

definition to_string :: "int \<Rightarrow> string" where
  "to_string i = (if i < 0 then CHR ''-'' # decimal (nat (- i)) else decimal (nat i))"

definition number :: "string \<Rightarrow> nat" where
  "number ds = foldl (\<lambda>n c. 10 * n + digit_value c) 0 ds"

text \<open>The value of an \<^verbatim>\<open>int\<close> that takes up the whole of a string.\<close>

definition from_chars :: "string \<Rightarrow> int option" where
  "from_chars s =
     (let (neg, ds) = (case s of c # cs \<Rightarrow> if c = CHR ''-'' then (True, cs) else (False, s) | [] \<Rightarrow> (False, []));
          v = (if neg then - int (number ds) else int (number ds))
      in if ds = [] \<or> \<not> list_all is_digit ds then None
         else if v < - (2 ^ 31) \<or> v \<ge> 2 ^ 31 then None
         else Some v)"

text \<open>What a C string keeps of a string: the characters before the first null.\<close>

definition c_str :: "string \<Rightarrow> string" where
  "c_str s = takeWhile (\<lambda>c. c \<noteq> CHR 0x00) s"

lemma digit_char_simps [simp]:
  assumes "d < 10"
  shows "is_digit (digit_char d)" "digit_value (digit_char d) = d" "digit_char d \<noteq> CHR ''-''" "digit_char d \<noteq> CHR 0x00"
proof -
  have v: "(of_char (digit_char d) :: nat) = 48 + d"
    using assms by (simp add: digit_char_def)
  show "is_digit (digit_char d)" "digit_value (digit_char d) = d"
    using v assms by (simp_all add: is_digit_def digit_value_def)
  show "digit_char d \<noteq> CHR ''-''" "digit_char d \<noteq> CHR 0x00"
    using v by auto
qed

lemma decimal_nonempty [simp]: "decimal n \<noteq> []"
  by (subst decimal.simps) simp

lemma decimal_digits: "list_all is_digit (decimal n)"
proof (induction n rule: decimal.induct)
  case (1 n)
  then show ?case by (subst decimal.simps) simp
qed

lemma number_snoc [simp]: "number (ds @ [c]) = 10 * number ds + digit_value c"
  by (simp add: number_def)

lemma number_decimal [simp]: "number (decimal n) = n"
proof (induction n rule: decimal.induct)
  case (1 n)
  then show ?case
    by (subst decimal.simps) (simp add: number_def)
qed

lemma decimal_no_minus: "hd (decimal n) \<noteq> CHR ''-''"
proof -
  have "is_digit (hd (decimal n))"
    using decimal_digits [of n] by (cases "decimal n") auto
  then show ?thesis
    by (auto simp: is_digit_def)
qed

lemma from_chars_to_string [simp]:
  assumes "- (2 ^ 31) \<le> i" and "i < 2 ^ 31"
  shows "from_chars (to_string i) = Some i"
proof (cases "i < 0")
  case True
  then show ?thesis
    using assms decimal_digits by (simp add: from_chars_def to_string_def)
next
  case False
  obtain c cs where d: "decimal (nat i) = c # cs" "c \<noteq> CHR ''-''"
    using decimal_no_minus [of "nat i"] by (cases "decimal (nat i)") (use decimal_nonempty in auto)
  then have "number (c # cs) = nat i" "list_all is_digit (c # cs)"
    using number_decimal [of "nat i"] decimal_digits [of "nat i"] by simp_all
  then show ?thesis
    using False assms d by (simp add: from_chars_def to_string_def)
qed

lemma decimal_inj: "decimal k = decimal l \<Longrightarrow> k = l"
  by (metis number_decimal)

lemma to_string_inj: "to_string i = to_string j \<longleftrightarrow> i = j"
proof
  assume *: "to_string i = to_string j"
  have m: "decimal k \<noteq> CHR ''-'' # s" for k s
    using decimal_no_minus [of k] by auto
  consider "i < 0" "j < 0" | "i \<ge> 0" "j \<ge> 0" | "i < 0" "j \<ge> 0" | "i \<ge> 0" "j < 0"
    by linarith
  then show "i = j"
  proof cases
    case 1
    then have "nat (- i) = nat (- j)"
      using * by (intro decimal_inj) (simp add: to_string_def)
    then show ?thesis using 1 by simp
  next
    case 2
    then have "nat i = nat j"
      using * by (intro decimal_inj) (simp add: to_string_def)
    then show ?thesis using 2 by simp
  next
    case 3
    then show ?thesis using * m [of "nat j" "decimal (nat (- i))"] by (simp add: to_string_def)
  next
    case 4
    then show ?thesis using * m [of "nat i"] by (simp add: to_string_def)
  qed
qed simp

lemma c_str_id: "list_all (\<lambda>c. c \<noteq> CHR 0x00) s \<Longrightarrow> c_str s = s"
  by (simp add: c_str_def list_all_iff)

end
