(* ===== verification/Redis_Keys.thy ===== *)
theory Redis_Keys
  imports Decimal
begin

text \<open>
  The keys of a Redis server with their values and times of expiry, and the documented effect of the
  single commands on them.
\<close>

datatype reply = RStatus string | RInteger int | RString string | RNil | RError string

datatype rvalue = VStr string | VList "string list" | VHash "(string \<times> string) list"

type_synonym keyspace = "string \<Rightarrow> (rvalue \<times> time option) option"

definition live :: "time \<Rightarrow> keyspace \<Rightarrow> string \<Rightarrow> rvalue option" where
  "live t ks k =
     (case ks k of
        None \<Rightarrow> None
      | Some (v, None) \<Rightarrow> Some v
      | Some (v, Some e) \<Rightarrow> if t < e then Some v else None)"

definition store_kept :: "keyspace \<Rightarrow> string \<Rightarrow> rvalue \<Rightarrow> keyspace" where
  "store_kept ks k v = ks(k \<mapsto> (v, case ks k of Some (_, e) \<Rightarrow> e | None \<Rightarrow> None))"

definition wrong_type :: reply where
  "wrong_type = RError ''WRONGTYPE Operation against a key holding the wrong kind of value''"

definition push_effect :: "(string \<Rightarrow> string list \<Rightarrow> string list) \<Rightarrow> time \<Rightarrow> string \<Rightarrow> string \<Rightarrow> keyspace \<Rightarrow> reply \<times> keyspace" where
  "push_effect add t k v ks =
     (case live t ks k of
        None \<Rightarrow> (RInteger 1, ks(k \<mapsto> (VList [v], None)))
      | Some (VList vs) \<Rightarrow> (RInteger (int (length vs) + 1), store_kept ks k (VList (add v vs)))
      | Some _ \<Rightarrow> (wrong_type, ks))"

definition pop_effect :: "(string list \<Rightarrow> string) \<Rightarrow> (string list \<Rightarrow> string list) \<Rightarrow> time \<Rightarrow> string \<Rightarrow> keyspace \<Rightarrow> reply \<times> keyspace" where
  "pop_effect this rest t k ks =
     (case live t ks k of
        None \<Rightarrow> (RNil, ks)
      | Some (VList vs) \<Rightarrow>
          if vs = [] then (RNil, ks)
          else (RString (this vs), if rest vs = [] then ks(k := None) else store_kept ks k (VList (rest vs)))
      | Some _ \<Rightarrow> (wrong_type, ks))"

definition hash_effect :: "((string \<times> string) list \<Rightarrow> reply \<times> (string \<times> string) list) \<Rightarrow> time \<Rightarrow> string \<Rightarrow> keyspace \<Rightarrow> reply \<times> keyspace" where
  "hash_effect f t k ks =
     (case live t ks k of
        None \<Rightarrow> (case f [] of (r, h) \<Rightarrow> (r, if h = [] then ks else ks(k \<mapsto> (VHash h, None))))
      | Some (VHash h) \<Rightarrow> (case f h of (r, h') \<Rightarrow> (r, if h' = [] then ks(k := None) else store_kept ks k (VHash h')))
      | Some _ \<Rightarrow> (wrong_type, ks))"

definition delete_effect :: "time \<Rightarrow> string \<Rightarrow> keyspace \<Rightarrow> reply \<times> keyspace" where
  "delete_effect t k ks = (RInteger (if live t ks k = None then 0 else 1), ks(k := None))"

definition get_effect :: "time \<Rightarrow> string \<Rightarrow> keyspace \<Rightarrow> reply" where
  "get_effect t k ks =
     (case live t ks k of None \<Rightarrow> RNil | Some (VStr v) \<Rightarrow> RString v | Some _ \<Rightarrow> wrong_type)"

definition expiry :: "time \<Rightarrow> string \<Rightarrow> time option" where
  "expiry t ttl = map_option (\<lambda>n. t + seconds n) (from_chars ttl)"

end
