(* ===== verification/Code_Script.thy ===== *)
theory Code_Script
  imports Redis_Keys
begin

text \<open>
  The two Lua scripts that keep verification codes in Redis: the one of the verification service that issues
  a code, in \<^verbatim>\<open>VarifyServer/redis.js\<close>, and the one of the gate that consumes it, in
  \<^verbatim>\<open>servers/gate/storage/RedisMgr.cpp\<close>. Redis runs a script as one step; a command
  that fails ends it with the error, and what it wrote before stays.
\<close>

section \<open>Commands of the scripts\<close>

text \<open>The integer that Redis reads from a value: its only decimal writing, within 64 bits.\<close>

definition redis_integer :: "string \<Rightarrow> int option" where
  "redis_integer v =
     (let n = (case v of c # cs \<Rightarrow> if c = CHR ''-'' then - int (number cs) else int (number v) | [] \<Rightarrow> 0)
      in if to_string n = v \<and> - (2 ^ 63) \<le> n \<and> n < 2 ^ 63 then Some n else None)"

definition not_an_integer :: reply where
  "not_an_integer = RError ''ERR value is not an integer or out of range''"

definition incr_effect :: "time \<Rightarrow> string \<Rightarrow> keyspace \<Rightarrow> reply \<times> keyspace" where
  "incr_effect t k ks =
     (case live t ks k of
        None \<Rightarrow> (RInteger 1, ks(k \<mapsto> (VStr ''1'', None)))
      | Some (VStr v) \<Rightarrow>
          (case redis_integer v of
             Some n \<Rightarrow>
               if n = 2 ^ 63 - 1 then (RError ''ERR increment or decrement would overflow'', ks)
               else (RInteger (n + 1), store_kept ks k (VStr (to_string (n + 1))))
           | None \<Rightarrow> (not_an_integer, ks))
      | Some _ \<Rightarrow> (wrong_type, ks))"

text \<open>The remaining life in seconds, rounded to the nearest; -1 without expiry and -2 without the key.\<close>

definition ttl_effect :: "time \<Rightarrow> string \<Rightarrow> keyspace \<Rightarrow> int" where
  "ttl_effect t k ks =
     (if live t ks k = None then -2
      else case ks k of Some (_, Some e) \<Rightarrow> (e - t + millis 500) div seconds 1 | _ \<Rightarrow> -1)"

definition expire_effect :: "time \<Rightarrow> string \<Rightarrow> int \<Rightarrow> keyspace \<Rightarrow> keyspace" where
  "expire_effect t k n ks =
     (case live t ks k of
        None \<Rightarrow> ks
      | Some v \<Rightarrow> if n \<le> 0 then ks(k := None) else ks(k \<mapsto> (v, Some (t + seconds n))))"

section \<open>The scripts\<close>

definition consume_script :: "time \<Rightarrow> string \<Rightarrow> string \<Rightarrow> string \<Rightarrow> string \<Rightarrow> keyspace \<Rightarrow> reply \<times> keyspace" where
  "consume_script t code_key attempts_key submitted max_attempts ks =
     (case get_effect t code_key ks of
        RString expected \<Rightarrow>
          if expected \<noteq> submitted then
            case incr_effect t attempts_key ks of
              (RInteger attempts, ks1) \<Rightarrow>
                let ttl = ttl_effect t code_key ks1;
                    ks2 = (if attempts = 1 then expire_effect t attempts_key (if ttl < 1 then 300 else ttl) ks1 else ks1)
                in (case from_chars max_attempts of
                      None \<Rightarrow> (RError ''ERR attempt to compare nil with number'', ks2)
                    | Some m \<Rightarrow>
                        if attempts \<ge> m then (RInteger (-3), ks2(code_key := None, attempts_key := None))
                        else (RInteger (-2), ks2))
            | failed \<Rightarrow> failed
          else (RInteger 1, ks(code_key := None, attempts_key := None))
      | RNil \<Rightarrow> (RInteger (-1), ks)
      | e \<Rightarrow> (e, ks))"

text \<open>A counter of a window: incremented, and given the length of the window when it starts.\<close>

definition count_window :: "time \<Rightarrow> string \<Rightarrow> string \<Rightarrow> keyspace \<Rightarrow> reply \<times> keyspace" where
  "count_window t k window ks =
     (case incr_effect t k ks of
        (RInteger n, ks1) \<Rightarrow>
          if n = 1 then
            case from_chars window of
              None \<Rightarrow> (not_an_integer, ks1)
            | Some w \<Rightarrow> (RInteger n, expire_effect t k w ks1)
          else (RInteger n, ks1)
      | failed \<Rightarrow> failed)"

definition store_code :: "time \<Rightarrow> string \<Rightarrow> string \<Rightarrow> string \<Rightarrow> string \<Rightarrow> string \<Rightarrow> string \<Rightarrow> keyspace \<Rightarrow> reply \<times> keyspace" where
  "store_code t code_key cooldown_key attempts_key code cooldown ttl ks =
     (case (from_chars cooldown, from_chars ttl) of
        (Some c, Some l) \<Rightarrow>
          if c \<le> 0 then (RError ''ERR invalid expire time in 'set' command'', ks)
          else let ks1 = ks(cooldown_key \<mapsto> (VStr ''1'', Some (t + seconds c)))
               in if l \<le> 0 then (RError ''ERR invalid expire time in 'set' command'', ks1)
                  else (RInteger 1, ks1(code_key \<mapsto> (VStr code, Some (t + seconds l)), attempts_key := None))
      | (None, _) \<Rightarrow> (not_an_integer, ks)
      | (Some c, None) \<Rightarrow>
          if c \<le> 0 then (RError ''ERR invalid expire time in 'set' command'', ks)
          else (not_an_integer, ks(cooldown_key \<mapsto> (VStr ''1'', Some (t + seconds c)))))"

definition issue_script where
  "issue_script t code_key cooldown_key hourly_key attempts_key global_key code cooldown window limit ttl global_limit ks =
     (if live t ks cooldown_key \<noteq> None then (RInteger 2, ks)
      else case count_window t hourly_key window ks of
        (RInteger hourly, ks1) \<Rightarrow>
          (case from_chars limit of
             None \<Rightarrow> (RError ''ERR attempt to compare nil with number'', ks1)
           | Some l \<Rightarrow>
               if hourly > l then (RInteger 3, ks1)
               else case count_window t global_key window ks1 of
                 (RInteger global_hourly, ks2) \<Rightarrow>
                   (case from_chars global_limit of
                      None \<Rightarrow> (RError ''ERR attempt to compare nil with number'', ks2)
                    | Some g \<Rightarrow>
                        if global_hourly > g then (RInteger 4, ks2)
                        else store_code t code_key cooldown_key attempts_key code cooldown ttl ks2)
               | failed \<Rightarrow> failed)
      | failed \<Rightarrow> failed)"

section \<open>The scripts as commands\<close>

text \<open>The text of a script is sent with every call; a line ends with a line feed.\<close>

definition lines_text :: "string list \<Rightarrow> string" where
  "lines_text ls = concat (map (\<lambda>l. l @ [CHR 0x0A]) ls)"

definition consume_text :: string where
  "consume_text = lines_text [
     '''',
     ''local expected = redis.call('GET', KEYS[1])'',
     ''if not expected then'',
     ''  return -1'',
     ''end'',
     ''if expected ~= ARGV[1] then'',
     ''  local attempts = redis.call('INCR', KEYS[2])'',
     ''  if attempts == 1 then'',
     ''    local ttl = redis.call('TTL', KEYS[1])'',
     ''    if ttl < 1 then ttl = 300 end'',
     ''    redis.call('EXPIRE', KEYS[2], ttl)'',
     ''  end'',
     ''  if attempts >= tonumber(ARGV[2]) then'',
     ''    redis.call('DEL', KEYS[1])'',
     ''    redis.call('DEL', KEYS[2])'',
     ''    return -3'',
     ''  end'',
     ''  return -2'',
     ''end'',
     ''redis.call('DEL', KEYS[1])'',
     ''redis.call('DEL', KEYS[2])'',
     ''return 1'']"

definition ISSUE_CODE_SCRIPT :: string where
  "ISSUE_CODE_SCRIPT = lines_text [
     '''',
     ''if redis.call('EXISTS', KEYS[2]) == 1 then'',
     ''  return 2'',
     ''end'',
     ''local hourly = redis.call('INCR', KEYS[3])'',
     ''if hourly == 1 then'',
     ''  redis.call('EXPIRE', KEYS[3], ARGV[3])'',
     ''end'',
     ''if hourly > tonumber(ARGV[4]) then'',
     ''  return 3'',
     ''end'',
     ''local global_hourly = redis.call('INCR', KEYS[5])'',
     ''if global_hourly == 1 then'',
     ''  redis.call('EXPIRE', KEYS[5], ARGV[3])'',
     ''end'',
     ''if global_hourly > tonumber(ARGV[6]) then'',
     ''  return 4'',
     ''end'',
     ''redis.call('SET', KEYS[2], '1', 'EX', ARGV[2])'',
     ''redis.call('SET', KEYS[1], ARGV[1], 'EX', ARGV[5])'',
     ''redis.call('DEL', KEYS[4])'',
     ''return 1'']"

definition code_effect :: "time \<Rightarrow> string list \<Rightarrow> keyspace \<Rightarrow> reply \<times> keyspace" where
  "code_effect t args ks =
     (case args of
        [cmd, script, n, k1, k2, a1, a2] \<Rightarrow>
          if cmd = ''EVAL'' \<and> script = consume_text \<and> n = ''2'' then consume_script t k1 k2 a1 a2 ks
          else (RError ''ERR unknown command'', ks)
      | [cmd, script, n, k1, k2, k3, k4, k5, a1, a2, a3, a4, a5, a6] \<Rightarrow>
          if cmd = ''EVAL'' \<and> script = ISSUE_CODE_SCRIPT \<and> n = ''5'' then
            issue_script t k1 k2 k3 k4 k5 a1 a2 a3 a4 a5 a6 ks
          else (RError ''ERR unknown command'', ks)
      | _ \<Rightarrow> (RError ''ERR unknown command'', ks))"

section \<open>Consuming a code\<close>

lemma live_cases:
  assumes "live t ks k = Some v"
  obtains e where "ks k = Some (v, e)" "e = None \<or> (\<exists>x. e = Some x \<and> t < x)"
  using assms by (auto simp: live_def split: option.splits if_splits)

lemma decimal_cons: "\<exists>c cs. decimal n = c # cs \<and> c \<noteq> CHR ''-''"
proof -
  have "list_all is_digit (decimal n)"
    by (rule decimal_digits)
  then show ?thesis
    by (cases "decimal n") (auto simp: is_digit_def)
qed

lemma redis_integer_to_string [simp]: "redis_integer (to_string (int n)) = (if int n < 2 ^ 63 then Some (int n) else None)"
proof -
  obtain c cs where c: "decimal n = c # cs" "c \<noteq> CHR ''-''"
    using decimal_cons by blast
  have "number (decimal n) = n"
    by simp
  then show ?thesis
    using c by (simp add: redis_integer_def to_string_def)
qed

end
