(* ===== verification/Redis_Store.thy ===== *)
theory Redis_Store
  imports Code_Script
begin

text \<open>
  The Redis access of the chat server, \<^verbatim>\<open>servers/chat/storage/RedisMgr.cpp\<close>, and its lock,
  \<^verbatim>\<open>servers/chat/storage/DistLock.cpp\<close>. A command is the list of its arguments, as hiredis sends it.
  Redis itself is the argument \<open>redis_link\<close>: whether the pool has a connection, and what a command does to
  the state of the server; a command may stay without a reply. What the code relies on is
  \<open>redis_server\<close>: a command that is answered does what \<open>redis_effect\<close> says, which is
  the documented behaviour of the commands the code uses, and one that is not answered does that or nothing.
\<close>

record 's redis_link =
  connected :: "'s \<Rightarrow> bool"
  command :: "string list \<Rightarrow> 's \<Rightarrow> reply option \<times> 's"

definition redisCommand :: "'s redis_link \<Rightarrow> string list \<Rightarrow> 's \<Rightarrow> reply option \<times> 's" where
  "redisCommand c args s = (if connected c s then command c args s else (None, s))"

text \<open>The text of a reply, \<^verbatim>\<open>reply->str\<close>.\<close>

fun reply_str :: "reply \<Rightarrow> string option" where
  "reply_str (RStatus v) = Some v"
| "reply_str (RString v) = Some v"
| "reply_str (RError v) = Some v"
| "reply_str _ = None"

definition Get :: "'s redis_link \<Rightarrow> string \<Rightarrow> 's \<Rightarrow> string option \<times> 's" where
  "Get c key s =
     (case redisCommand c [''GET'', c_str key] s of
        (Some (RString v), s') \<Rightarrow> (Some (c_str v), s')
      | (_, s') \<Rightarrow> (None, s'))"

definition getdel_script :: string where
  "getdel_script = ''local value = redis.call('GET', KEYS[1]); if value then redis.call('DEL', KEYS[1]); end; return value''"

definition GetDel :: "'s redis_link \<Rightarrow> string \<Rightarrow> 's \<Rightarrow> string option \<times> 's" where
  "GetDel c key s =
     (case redisCommand c [''EVAL'', getdel_script, ''1'', key] s of
        (Some (RString v), s') \<Rightarrow> (Some v, s')
      | (_, s') \<Rightarrow> (None, s'))"

definition Set :: "'s redis_link \<Rightarrow> string \<Rightarrow> string \<Rightarrow> 's \<Rightarrow> bool \<times> 's" where
  "Set c key v s =
     (case redisCommand c [''SET'', c_str key, c_str v] s of
        (Some (RStatus t), s') \<Rightarrow> (t = ''OK'' \<or> t = ''ok'', s')
      | (_, s') \<Rightarrow> (False, s'))"

definition SetWithTtl :: "'s redis_link \<Rightarrow> string \<Rightarrow> string \<Rightarrow> int \<Rightarrow> 's \<Rightarrow> bool \<times> 's" where
  "SetWithTtl c key v ttl s =
     (if ttl \<le> 0 then (False, s)
      else case redisCommand c [''SET'', key, v, ''EX'', to_string ttl] s of
        (Some (RStatus t), s') \<Rightarrow> (t = ''OK'', s')
      | (_, s') \<Rightarrow> (False, s'))"

definition LPush :: "'s redis_link \<Rightarrow> string \<Rightarrow> string \<Rightarrow> 's \<Rightarrow> bool \<times> 's" where
  "LPush c key v s =
     (case redisCommand c [''LPUSH'', c_str key, c_str v] s of
        (Some (RInteger n), s') \<Rightarrow> (n > 0, s')
      | (_, s') \<Rightarrow> (False, s'))"

definition LPop :: "'s redis_link \<Rightarrow> string \<Rightarrow> 's \<Rightarrow> string option \<times> 's" where
  "LPop c key s =
     (case redisCommand c [''LPOP'', c_str key] s of
        (None, s') \<Rightarrow> (None, s')
      | (Some RNil, s') \<Rightarrow> (None, s')
      | (Some r, s') \<Rightarrow> (map_option c_str (reply_str r), s'))"

definition RPush :: "'s redis_link \<Rightarrow> string \<Rightarrow> string \<Rightarrow> 's \<Rightarrow> bool \<times> 's" where
  "RPush c key v s =
     (case redisCommand c [''RPUSH'', c_str key, c_str v] s of
        (Some (RInteger n), s') \<Rightarrow> (n > 0, s')
      | (_, s') \<Rightarrow> (False, s'))"

definition RPop :: "'s redis_link \<Rightarrow> string \<Rightarrow> 's \<Rightarrow> string option \<times> 's" where
  "RPop c key s =
     (case redisCommand c [''RPOP'', c_str key] s of
        (None, s') \<Rightarrow> (None, s')
      | (Some RNil, s') \<Rightarrow> (None, s')
      | (Some r, s') \<Rightarrow> (map_option c_str (reply_str r), s'))"

definition HSet :: "'s redis_link \<Rightarrow> string \<Rightarrow> string \<Rightarrow> string \<Rightarrow> 's \<Rightarrow> bool \<times> 's" where
  "HSet c key hkey v s =
     (case redisCommand c [''HSET'', c_str key, c_str hkey, c_str v] s of
        (Some (RInteger n), s') \<Rightarrow> (True, s')
      | (_, s') \<Rightarrow> (False, s'))"

definition HSet_bytes :: "'s redis_link \<Rightarrow> string \<Rightarrow> string \<Rightarrow> string \<Rightarrow> 's \<Rightarrow> bool \<times> 's" where
  "HSet_bytes c key hkey hvalue s =
     (case redisCommand c [''HSET'', c_str key, c_str hkey, hvalue] s of
        (Some (RInteger n), s') \<Rightarrow> (True, s')
      | (_, s') \<Rightarrow> (False, s'))"

definition HGet :: "'s redis_link \<Rightarrow> string \<Rightarrow> string \<Rightarrow> 's \<Rightarrow> string \<times> 's" where
  "HGet c key hkey s =
     (case redisCommand c [''HGET'', key, hkey] s of
        (None, s') \<Rightarrow> ([], s')
      | (Some RNil, s') \<Rightarrow> ([], s')
      | (Some r, s') \<Rightarrow> (case reply_str r of Some v \<Rightarrow> c_str v | None \<Rightarrow> [], s'))"

definition HDel :: "'s redis_link \<Rightarrow> string \<Rightarrow> string \<Rightarrow> 's \<Rightarrow> bool \<times> 's" where
  "HDel c key field s =
     (case redisCommand c [''HDEL'', c_str key, c_str field] s of
        (Some (RInteger n), s') \<Rightarrow> (n > 0, s')
      | (_, s') \<Rightarrow> (False, s'))"

definition Del :: "'s redis_link \<Rightarrow> string \<Rightarrow> 's \<Rightarrow> bool \<times> 's" where
  "Del c key s =
     (case redisCommand c [''DEL'', c_str key] s of
        (Some (RInteger n), s') \<Rightarrow> (True, s')
      | (_, s') \<Rightarrow> (False, s'))"

definition ExistsKey :: "'s redis_link \<Rightarrow> string \<Rightarrow> 's \<Rightarrow> bool \<times> 's" where
  "ExistsKey c key s =
     (case redisCommand c [''exists'', c_str key] s of
        (Some (RInteger n), s') \<Rightarrow> (n \<noteq> 0, s')
      | (_, s') \<Rightarrow> (False, s'))"

text \<open>
  The lock. The loop reads the steady clock, tries to set the key and sleeps a millisecond; \<open>None\<close>
  would be a loop that does not end.
\<close>

definition lock_key :: "string \<Rightarrow> string" where
  "lock_key lockName = ''lock:'' @ lockName"

definition try_lock :: "'s redis_link \<Rightarrow> string \<Rightarrow> string \<Rightarrow> int \<Rightarrow> 's \<Rightarrow> bool \<times> 's" where
  "try_lock c key identifier lockTimeout s =
     (case command c [''SET'', c_str key, c_str identifier, ''NX'', ''EX'', to_string lockTimeout] s of
        (r, s') \<Rightarrow> (r = Some (RStatus ''OK''), s'))"

partial_function (option) acquire_loop ::
  "'s redis_link \<Rightarrow> ('s \<Rightarrow> time) \<Rightarrow> ('s \<Rightarrow> 's) \<Rightarrow> string \<Rightarrow> string \<Rightarrow> int \<Rightarrow> time \<Rightarrow> 's \<Rightarrow> (string \<times> 's) option" where
  "acquire_loop c steady sleep key identifier lockTimeout endTime s =
     (if steady s < endTime then
        (case try_lock c key identifier lockTimeout s of
           (locked, s') \<Rightarrow> (if locked then Some (identifier, s')
                       else acquire_loop c steady sleep key identifier lockTimeout endTime (sleep s')))
      else Some ([], s))"

definition acquireLock ::
  "'s redis_link \<Rightarrow> ('s \<Rightarrow> time) \<Rightarrow> ('s \<Rightarrow> 's) \<Rightarrow> string \<Rightarrow> string \<Rightarrow> int \<Rightarrow> int \<Rightarrow> 's \<Rightarrow> (string \<times> 's) option" where
  "acquireLock c steady sleep uuid lockName lockTimeout acquireTimeout s =
     (if connected c s
      then acquire_loop c steady sleep (lock_key lockName) uuid lockTimeout (steady s + seconds acquireTimeout) s
      else Some ([], s))"

definition release_script :: string where
  "release_script = ''if redis.call('get', KEYS[1]) == ARGV[1] then return redis.call('del', KEYS[1]) else return 0 end''"

definition releaseLock :: "'s redis_link \<Rightarrow> string \<Rightarrow> string \<Rightarrow> 's \<Rightarrow> bool \<times> 's" where
  "releaseLock c lockName identifier s =
     (if identifier = [] then (True, s)
      else case redisCommand c [''EVAL'', release_script, ''1'', c_str (lock_key lockName), c_str identifier] s of
        (Some (RInteger n), s') \<Rightarrow> (n = 1, s')
      | (_, s') \<Rightarrow> (False, s'))"

section \<open>What the code relies on of Redis\<close>

definition redis_effect :: "time \<Rightarrow> string list \<Rightarrow> keyspace \<Rightarrow> reply \<times> keyspace" where
  "redis_effect t args ks =
     (case args of
        [cmd, k] \<Rightarrow>
          if cmd = ''GET'' then (get_effect t k ks, ks)
          else if cmd = ''LPOP'' then pop_effect hd tl t k ks
          else if cmd = ''RPOP'' then pop_effect last butlast t k ks
          else if cmd = ''DEL'' then delete_effect t k ks
          else if cmd = ''exists'' then (RInteger (if live t ks k = None then 0 else 1), ks)
          else (RError ''ERR unknown command'', ks)
      | [cmd, k, v] \<Rightarrow>
          if cmd = ''SET'' then (RStatus ''OK'', ks(k \<mapsto> (VStr v, None)))
          else if cmd = ''LPUSH'' then push_effect (#) t k v ks
          else if cmd = ''RPUSH'' then push_effect (\<lambda>x xs. xs @ [x]) t k v ks
          else if cmd = ''HGET'' then hash_effect (\<lambda>h. (case map_of h v of Some x \<Rightarrow> RString x | None \<Rightarrow> RNil, h)) t k ks
          else if cmd = ''HDEL'' then
            hash_effect (\<lambda>h. (RInteger (if map_of h v = None then 0 else 1), AList.delete v h)) t k ks
          else (RError ''ERR unknown command'', ks)
      | [cmd, k, f, v] \<Rightarrow>
          if cmd = ''HSET'' then hash_effect (\<lambda>h. (RInteger (if map_of h f = None then 1 else 0), AList.update f v h)) t k ks
          else if cmd = ''EVAL'' \<and> k = getdel_script \<and> f = ''1'' then
            (get_effect t v ks, case live t ks v of Some (VStr x) \<Rightarrow> ks(v := None) | _ \<Rightarrow> ks)
          else (RError ''ERR unknown command'', ks)
      | [cmd, k, v, ex, ttl] \<Rightarrow>
          if cmd = ''SET'' \<and> ex = ''EX'' then (RStatus ''OK'', ks(k \<mapsto> (VStr v, expiry t ttl)))
          else if cmd = ''EVAL'' \<and> k = release_script \<and> v = ''1'' then
            (if live t ks ex = Some (VStr ttl) then (RInteger 1, ks(ex := None)) else (RInteger 0, ks))
          else (RError ''ERR unknown command'', ks)
      | [cmd, k, v, nx, ex, ttl] \<Rightarrow>
          if cmd = ''SET'' \<and> nx = ''NX'' \<and> ex = ''EX'' then
            (if live t ks k = None then (RStatus ''OK'', ks(k \<mapsto> (VStr v, expiry t ttl))) else (RNil, ks))
          else if cmd = ''SET'' \<and> nx = ''EX'' \<and> ttl = ''NX'' then
            (if live t ks k = None then (RStatus ''OK'', ks(k \<mapsto> (VStr v, expiry t ex))) else (RNil, ks))
          else (RError ''ERR unknown command'', ks)
      | _ \<Rightarrow> code_effect t args ks)"

definition redis_server :: "'s redis_link \<Rightarrow> ('s \<Rightarrow> time) \<Rightarrow> ('s \<Rightarrow> keyspace) \<Rightarrow> bool" where
  "redis_server c now ks \<longleftrightarrow>
     (\<forall>args s r s'. command c args s = (r, s') \<longrightarrow> now s \<le> now s'
        \<and> (\<exists>t. now s \<le> t \<and> t \<le> now s'
             \<and> (case r of
                  Some v \<Rightarrow> redis_effect t args (ks s) = (v, ks s')
                | None \<Rightarrow> ks s' = ks s \<or> ks s' = snd (redis_effect t args (ks s)))))"

text \<open>A server that answers every command at once, for the examples.\<close>

definition local_redis :: "(time \<times> keyspace) redis_link" where
  "local_redis = \<lparr>connected = (\<lambda>_. True),
     command = (\<lambda>args (t, ks). case redis_effect t args ks of (r, ks') \<Rightarrow> (Some r, (t, ks')))\<rparr>"

lemma local_redis_server: "redis_server local_redis fst snd"
  by (auto simp: redis_server_def local_redis_def split: prod.splits)

lemma redis_serverD:
  assumes "redis_server c now ks" and "command c args s = (r, s')"
  obtains t where "now s \<le> t" "t \<le> now s'" "now s \<le> now s'"
    "\<And>v. r = Some v \<Longrightarrow> redis_effect t args (ks s) = (v, ks s')"
    "r = None \<Longrightarrow> ks s' = ks s \<or> ks s' = snd (redis_effect t args (ks s))"
proof -
  from assms(1) [unfolded redis_server_def, rule_format, OF assms(2)]
  obtain t where t: "now s \<le> t" "t \<le> now s'" "now s \<le> now s'"
    "case r of Some v \<Rightarrow> redis_effect t args (ks s) = (v, ks s')
       | None \<Rightarrow> ks s' = ks s \<or> ks s' = snd (redis_effect t args (ks s))"
    by blast
  show thesis
    by (rule that [OF t(1-3)]) (use t(4) in simp_all)
qed

lemma redisCommand_cases:
  assumes "redis_server c now ks" and "redisCommand c args s = (r, s')"
  obtains t where "now s \<le> t" "t \<le> now s'"
    "\<And>v. r = Some v \<Longrightarrow> redis_effect t args (ks s) = (v, ks s')"
    "r = None \<Longrightarrow> ks s' = ks s \<or> ks s' = snd (redis_effect t args (ks s))"
proof (cases "connected c s")
  case True
  then have "command c args s = (r, s')"
    using assms(2) by (simp add: redisCommand_def)
  then show ?thesis
    by (rule redis_serverD [OF assms(1)]) (rule that)
next
  case False
  then have "r = None" "s' = s"
    using assms(2) by (simp_all add: redisCommand_def)
  then show ?thesis
    using that [of "now s"] by simp
qed

text \<open>Reading a value and deleting it is one step: at most one reader gets it.\<close>

lemma GetDel_cases:
  assumes "redis_server c now ks" and "GetDel c key s = (r, s')"
  obtains (hit) v t where "r = Some v" "now s \<le> t" "t \<le> now s'" "live t (ks s) key = Some (VStr v)"
      "ks s' = (ks s)(key := None)"
  | (miss) "r = None" "now s \<le> now s'" "ks s' = ks s \<or> ks s' = (ks s)(key := None)"
proof -
  let ?args = "[''EVAL'', getdel_script, ''1'', key]"
  obtain q where q: "redisCommand c ?args s = (q, s')" "r = (case q of Some (RString v) \<Rightarrow> Some v | _ \<Rightarrow> None)"
    using assms(2) by (auto simp: GetDel_def split: prod.splits option.splits reply.splits)
  show thesis
  proof (rule redisCommand_cases [OF assms(1) q(1)])
    fix t
    assume t: "now s \<le> t" "t \<le> now s'"
      and some: "\<And>v. q = Some v \<Longrightarrow> redis_effect t ?args (ks s) = (v, ks s')"
      and none: "q = None \<Longrightarrow> ks s' = ks s \<or> ks s' = snd (redis_effect t ?args (ks s))"
    have eff: "redis_effect t ?args (ks s) =
      (get_effect t key (ks s), case live t (ks s) key of Some (VStr x) \<Rightarrow> (ks s)(key := None) | _ \<Rightarrow> ks s)"
      by (simp add: redis_effect_def)
    have le: "now s \<le> now s'"
      using t by simp
    show thesis
    proof (cases q)
      case None
      then show ?thesis
        using miss [OF _ le] none q(2) unfolding eff by (auto split: option.splits rvalue.splits)
    next
      case (Some v)
      have *: "get_effect t key (ks s) = v" "(case live t (ks s) key of Some (VStr x) \<Rightarrow> (ks s)(key := None) | _ \<Rightarrow> ks s) = ks s'"
        using some [OF Some] unfolding eff by simp_all
      show ?thesis
      proof (cases "\<exists>x. live t (ks s) key = Some (VStr x)")
        case True
        then obtain x where x: "live t (ks s) key = Some (VStr x)"
          by blast
        show ?thesis
          by (rule hit [OF _ t x]) (use * x Some q(2) in \<open>auto simp: get_effect_def\<close>)
      next
        case False
        have "(case live t (ks s) key of Some (VStr x) \<Rightarrow> (ks s)(key := None) | _ \<Rightarrow> ks s) = ks s"
          using False by (auto split: option.split rvalue.split)
        moreover have "r = None"
          using False *(1) Some q(2) by (auto simp: get_effect_def wrong_type_def split: option.splits rvalue.splits)
        ultimately show ?thesis
          using miss [OF _ le] *(2) by simp
      qed
    qed
  qed
qed

lemma SetWithTtl_cases:
  assumes "redis_server c now ks" and "SetWithTtl c key v ttl s = (r, s')" and "ttl < 2 ^ 31"
  obtains (stored) t where "now s \<le> t" "t \<le> now s'" "ks s' = (ks s)(key \<mapsto> (VStr v, Some (t + seconds ttl)))"
  | (kept) "\<not> r" "ks s' = ks s"
proof (cases "ttl \<le> 0")
  case True
  then show ?thesis
    using assms(2) kept by (simp add: SetWithTtl_def)
next
  case False
  let ?args = "[''SET'', key, v, ''EX'', to_string ttl]"
  obtain q where q: "redisCommand c ?args s = (q, s')" "r \<longleftrightarrow> q = Some (RStatus ''OK'')"
    using assms(2) False by (auto simp: SetWithTtl_def split: prod.splits option.splits reply.splits)
  show ?thesis
  proof (rule redisCommand_cases [OF assms(1) q(1)])
    fix t
    assume t: "now s \<le> t" "t \<le> now s'"
      and some: "\<And>v'. q = Some v' \<Longrightarrow> redis_effect t ?args (ks s) = (v', ks s')"
      and none: "q = None \<Longrightarrow> ks s' = ks s \<or> ks s' = snd (redis_effect t ?args (ks s))"
    have eff: "redis_effect t ?args (ks s) = (RStatus ''OK'', (ks s)(key \<mapsto> (VStr v, Some (t + seconds ttl))))"
      using False assms(3) by (simp add: redis_effect_def expiry_def)
    show ?thesis
      using stored [OF t] kept some none q(2) unfolding eff by (cases q) auto
  qed
qed

section \<open>The lock\<close>

lemma acquire_loop_returns:
  assumes sleep: "\<And>s. steady s + millis 1 \<le> steady (sleep s)"
    and forward: "\<And>args s. steady s \<le> steady (snd (command c args s))"
  shows "\<exists>r s'. acquire_loop c steady sleep key i ttl e s = Some (r, s') \<and> (r = i \<or> r = [])"
proof (induction "nat (e - steady s)" arbitrary: s rule: less_induct)
  case less
  obtain l s' where t: "try_lock c key i ttl s = (l, s')"
    by fastforce
  have s': "steady s \<le> steady s'"
    using t forward [of s "[''SET'', c_str key, c_str i, ''NX'', ''EX'', to_string ttl]"]
    by (simp add: try_lock_def case_prod_beta)
  show ?case
  proof (cases "steady s < e \<and> \<not> l")
    case True
    then have "nat (e - steady (sleep s')) < nat (e - steady s)"
      using sleep [of s'] s' by linarith
    from less [OF this] show ?thesis
      using True t by (subst acquire_loop.simps) simp
  next
    case False
    then show ?thesis
      using t by (subst acquire_loop.simps) auto
  qed
qed

text \<open>
  C33: Acquiring the lock always returns, with the caller's own identifier or with the empty
  string, given only that sleeping a millisecond takes a millisecond and the steady clock does not
  run backwards; no assumption is made on what Redis answers.
\<close>

theorem acquire_returns:
  assumes "\<And>s. steady s + millis 1 \<le> steady (sleep s)"
    and "\<And>args s. steady s \<le> steady (snd (command c args s))"
  shows "\<exists>r s'. acquireLock c steady sleep uuid lockName lockTimeout acquireTimeout s = Some (r, s') \<and> (r = uuid \<or> r = [])"
  using acquire_loop_returns [OF assms] by (simp add: acquireLock_def)

theorem acquire_returns_witness:
  "\<exists>r s'. acquireLock local_redis fst (\<lambda>(t, ks). (t + millis 1, ks)) ''u'' ''a'' 10 5 (0, Map.empty) = Some (r, s')
     \<and> (r = ''u'' \<or> r = [])"
  by (rule acquire_returns) (auto simp: local_redis_def split: prod.splits)

text \<open>
  The processes that use one lock, with the commands of all of them interleaved and any other
  traffic of the server between them. \<open>H\<close> says until when a process may believe to hold the
  lock: the timeout counted from before the command was sent, or never after it has released it.
\<close>

type_synonym 's lock_run = "'s \<times> (string \<Rightarrow> time option)"

inductive lock_step ::
  "'s redis_link \<Rightarrow> ('s \<Rightarrow> time) \<Rightarrow> ('s \<Rightarrow> keyspace) \<Rightarrow> string \<Rightarrow> int \<Rightarrow> 's lock_run \<Rightarrow> 's lock_run \<Rightarrow> bool"
  for c now ks name ttl where
  lock_try: "try_lock c (lock_key name) p ttl s = (ok, s') \<Longrightarrow> c_str p = p \<Longrightarrow>
     lock_step c now ks name ttl (s, H) (s', if ok then H(p \<mapsto> now s + seconds ttl) else H)"
| lock_release: "releaseLock c name p s = (r, s') \<Longrightarrow> c_str p = p \<Longrightarrow>
     lock_step c now ks name ttl (s, H) (s', H(p := None))"
| lock_other: "now s \<le> now s' \<Longrightarrow> ks s' (c_str (lock_key name)) = ks s (c_str (lock_key name)) \<Longrightarrow>
     lock_step c now ks name ttl (s, H) (s', H)"

definition lock_inv :: "('s \<Rightarrow> time) \<Rightarrow> ('s \<Rightarrow> keyspace) \<Rightarrow> string \<Rightarrow> 's lock_run \<Rightarrow> bool" where
  "lock_inv now ks name = (\<lambda>(s, H). \<forall>p e. H p = Some e \<longrightarrow> now s < e \<longrightarrow>
     (\<exists>e'. e \<le> e' \<and> ks s (c_str (lock_key name)) = Some (VStr p, Some e')))"

lemma lock_invD: "lock_inv now ks name (s, H) \<Longrightarrow> H p = Some e \<Longrightarrow> now s < e \<Longrightarrow>
   \<exists>e'. e \<le> e' \<and> ks s (c_str (lock_key name)) = Some (VStr p, Some e')"
  by (simp add: lock_inv_def)

text \<open>An attempt writes the key only if it is free, and an acknowledged one has written it.\<close>

lemma try_lock_spec:
  assumes "redis_server c now ks" and "try_lock c key p ttl s = (ok, s')" and "- (2 ^ 31) \<le> ttl" "ttl < 2 ^ 31"
  obtains (kept) "\<not> ok" "now s \<le> now s'" "ks s' = ks s"
  | (taken) t where "now s \<le> t" "t \<le> now s'" "live t (ks s) (c_str key) = None"
      "ks s' = (ks s)(c_str key \<mapsto> (VStr (c_str p), Some (t + seconds ttl)))"
proof -
  obtain r where r: "command c [''SET'', c_str key, c_str p, ''NX'', ''EX'', to_string ttl] s = (r, s')"
    "ok \<longleftrightarrow> r = Some (RStatus ''OK'')"
    using assms(2) by (auto simp: try_lock_def split: prod.splits)
  show thesis
  proof (rule redis_serverD [OF assms(1) r(1)])
    fix t
    assume t: "now s \<le> t" "t \<le> now s'" "now s \<le> now s'"
      and some: "\<And>v. r = Some v \<Longrightarrow> redis_effect t [''SET'', c_str key, c_str p, ''NX'', ''EX'', to_string ttl] (ks s) = (v, ks s')"
      and none: "r = None \<Longrightarrow> ks s' = ks s \<or>
        ks s' = snd (redis_effect t [''SET'', c_str key, c_str p, ''NX'', ''EX'', to_string ttl] (ks s))"
    have eff: "redis_effect t [''SET'', c_str key, c_str p, ''NX'', ''EX'', to_string ttl] (ks s) =
      (if live t (ks s) (c_str key) = None
       then (RStatus ''OK'', (ks s)(c_str key \<mapsto> (VStr (c_str p), Some (t + seconds ttl)))) else (RNil, ks s))"
      using assms(3,4) by (simp add: redis_effect_def expiry_def)
    show thesis
      using kept taken [OF t(1,2)] t(3) some none unfolding eff r(2) by (cases r) (auto split: if_splits)
  qed
qed

lemma releaseLock_spec:
  assumes "redis_server c now ks" and "releaseLock c name p s = (r, s')"
  obtains (kept) "now s \<le> now s'" "ks s' = ks s"
  | (freed) t where "now s \<le> t" "t \<le> now s'" "live t (ks s) (c_str (lock_key name)) = Some (VStr (c_str p))"
      "ks s' = (ks s)(c_str (lock_key name) := None)"
proof (cases "p = [] \<or> \<not> connected c s")
  case True
  then show ?thesis
    using assms(2) kept by (cases "p = []") (simp_all add: releaseLock_def redisCommand_def)
next
  case False
  let ?args = "[''EVAL'', release_script, ''1'', c_str (lock_key name), c_str p]"
  obtain rep where r: "command c ?args s = (rep, s')"
    using assms(2) False by (auto simp: releaseLock_def redisCommand_def split: prod.splits option.splits reply.splits)
  show ?thesis
  proof (rule redis_serverD [OF assms(1) r])
    fix t
    assume t: "now s \<le> t" "t \<le> now s'" "now s \<le> now s'"
      and some: "\<And>v. rep = Some v \<Longrightarrow> redis_effect t ?args (ks s) = (v, ks s')"
      and none: "rep = None \<Longrightarrow> ks s' = ks s \<or> ks s' = snd (redis_effect t ?args (ks s))"
    have eff: "redis_effect t ?args (ks s) =
      (if live t (ks s) (c_str (lock_key name)) = Some (VStr (c_str p))
       then (RInteger 1, (ks s)(c_str (lock_key name) := None)) else (RInteger 0, ks s))"
      by (simp add: redis_effect_def)
    show ?thesis
      using kept freed [OF t(1,2)] t(3) some none unfolding eff by (cases rep) (auto split: if_splits)
  qed
qed

lemma lock_step_inv:
  assumes "redis_server c now ks" and "- (2 ^ 31) \<le> ttl" "ttl < 2 ^ 31"
    and "lock_step c now ks name ttl x y" and "lock_inv now ks name x"
  shows "lock_inv now ks name y"
  using assms(4,5)
proof cases
  case (lock_try p s ok s' H)
  let ?K = "c_str (lock_key name)"
  have inv: "lock_inv now ks name (s, H)"
    using assms(5) lock_try by simp
  show ?thesis
  proof (rule try_lock_spec [OF assms(1) lock_try(3) assms(2,3)])
    assume "\<not> ok" "now s \<le> now s'" "ks s' = ks s"
    then show ?thesis
      using inv lock_try by (force simp: lock_inv_def)
  next
    fix t
    assume t: "now s \<le> t" "t \<le> now s'" and free: "live t (ks s) ?K = None"
      and ks: "ks s' = (ks s)(?K \<mapsto> (VStr (c_str p), Some (t + seconds ttl)))"
    have "\<not> now s' < e" if hq: "H q = Some e" for q e
    proof
      assume "now s' < e"
      then obtain e' where "e \<le> e'" "ks s ?K = Some (VStr q, Some e')"
        using lock_invD [OF inv hq] t by auto
      then show False
        using free t \<open>now s' < e\<close> by (simp add: live_def)
    qed
    then show ?thesis
      using lock_try t ks by (auto simp: lock_inv_def)
  qed
next
  case (lock_release p s r s' H)
  let ?K = "c_str (lock_key name)"
  have inv: "lock_inv now ks name (s, H)"
    using assms(5) lock_release by simp
  show ?thesis
  proof (rule releaseLock_spec [OF assms(1) lock_release(3)])
    assume "now s \<le> now s'" "ks s' = ks s"
    then show ?thesis
      using inv lock_release by (force simp: lock_inv_def)
  next
    fix t
    assume t: "now s \<le> t" "t \<le> now s'" and held: "live t (ks s) ?K = Some (VStr (c_str p))"
    have "\<not> now s' < e" if hq: "H q = Some e" "q \<noteq> p" for q e
    proof
      assume "now s' < e"
      then obtain e' where "e \<le> e'" "ks s ?K = Some (VStr q, Some e')"
        using lock_invD [OF inv hq(1)] t by auto
      then show False
        using held t \<open>now s' < e\<close> hq(2) lock_release(4) by (simp add: live_def split: if_splits)
    qed
    then show ?thesis
      using lock_release by (auto simp: lock_inv_def)
  qed
next
  case (lock_other s s' H)
  then show ?thesis
    using assms(5) by (force simp: lock_inv_def)
qed

text \<open>
  C12: The lock is exclusive. In every interleaving of attempts, releases, lost replies and other
  traffic, two processes never hold the lock at the same time within their timeouts, and the key
  of the lock carries the identifier of its holder; so a late release by a process whose lock has
  expired does not free the lock of its successor.
\<close>

theorem lock_exclusive:
  assumes "redis_server c now ks" and "- (2 ^ 31) \<le> ttl" and "ttl < 2 ^ 31"
    and "(lock_step c now ks name ttl)\<^sup>*\<^sup>* (s0, \<lambda>_. None) (s, H)"
    and "H p = Some e" and "now s < e"
  shows "live (now s) (ks s) (c_str (lock_key name)) = Some (VStr p)
    \<and> (\<forall>q e'. H q = Some e' \<and> now s < e' \<longrightarrow> q = p)"
proof -
  have inv: "lock_inv now ks name (s, H)"
    using assms(4)
  proof (induction rule: rtranclp_induct)
    case base
    show ?case by (simp add: lock_inv_def)
  next
    case (step y z)
    then show ?case using lock_step_inv [OF assms(1-3)] by blast
  qed
  obtain e1 where p: "e \<le> e1" "ks s (c_str (lock_key name)) = Some (VStr p, Some e1)"
    using lock_invD [OF inv assms(5,6)] by blast
  have "q = p" if "H q = Some e'" "now s < e'" for q e'
    using lock_invD [OF inv that] p(2) by auto
  then show ?thesis
    using p assms(6) by (auto simp: live_def)
qed

theorem lock_exclusive_witness:
  "\<exists>s. (lock_step local_redis fst snd ''a'' 10)\<^sup>*\<^sup>* ((0, Map.empty), \<lambda>_. None) (s, [''p'' \<mapsto> seconds 10])
     \<and> live (fst s) (snd s) (c_str (lock_key ''a'')) = Some (VStr ''p'')"
proof -
  obtain ok s' where t: "try_lock local_redis (lock_key ''a'') ''p'' 10 (0, Map.empty) = (ok, s')"
    by (rule prod.exhaust)
  then have ok: "ok" "fst s' = 0"
    by (auto simp: try_lock_def local_redis_def redis_effect_def live_def split: prod.splits)
  have "lock_step local_redis fst snd ''a'' 10 ((0, Map.empty), \<lambda>_. None) (s', [''p'' \<mapsto> seconds 10])"
    using lock_try [OF t, of fst snd "\<lambda>_. None"] ok by (simp add: c_str_def)
  then have run: "(lock_step local_redis fst snd ''a'' 10)\<^sup>*\<^sup>* ((0, Map.empty), \<lambda>_. None) (s', [''p'' \<mapsto> seconds 10])"
    by (rule r_into_rtranclp)
  then show ?thesis
    using lock_exclusive [OF local_redis_server _ _ run, of "''p''" "seconds 10"] ok by (intro exI [of _ s']) simp
qed

end
