(* ===== verification/Session_Table.thy ===== *)
theory Session_Table
  imports Send_Queue Redis_Store
begin

text \<open>
  The sessions of a chat server: the table of \<^verbatim>\<open>servers/chat/network/CServer.cpp\<close>, the binding of users
  to sessions of \<^verbatim>\<open>servers/chat/service/UserMgr.cpp\<close>, and the life of a session in
  \<^verbatim>\<open>servers/chat/network/CSession.cpp\<close> (its timers and \<^verbatim>\<open>Close\<close>). A session is known by its
  \<^verbatim>\<open>_session_id\<close>, which stands for the object as well. The operations come first, each as one thread
  carries it out; then those that take locks more than once are cut at their critical sections, and the
  step relation interleaves the pieces of all threads.
\<close>

record session =
  user_uid :: int
  send_side :: send_side

record session_table =
  objects :: "string \<Rightarrow> session"
  sessions :: "string list"
  uid_to_session :: "int \<Rightarrow> string option"
  stopping :: bool

definition new_session :: session where
  "new_session = \<lparr>user_uid = 0, send_side = new_send_side\<rparr>"

definition empty_table :: session_table where
  "empty_table = \<lparr>objects = (\<lambda>_. new_session), sessions = [], uid_to_session = Map.empty, stopping = False\<rparr>"

definition IsClosed :: "string \<Rightarrow> session_table \<Rightarrow> bool" where
  "IsClosed sid S = b_close (send_side (objects S sid))"

definition GetUserId :: "string \<Rightarrow> session_table \<Rightarrow> int" where
  "GetUserId sid S = user_uid (objects S sid)"

definition set_session :: "string \<Rightarrow> session \<Rightarrow> session_table \<Rightarrow> session_table" where
  "set_session sid x S = S\<lparr>objects := (objects S)(sid := x)\<rparr>"

definition GetSession_of :: "int \<Rightarrow> session_table \<Rightarrow> string option" where
  "GetSession_of uid S = uid_to_session S uid"

definition SetUserSession :: "int \<Rightarrow> string \<Rightarrow> session_table \<Rightarrow> session_table" where
  "SetUserSession uid sid S = S\<lparr>uid_to_session := (uid_to_session S)(uid \<mapsto> sid)\<rparr>"

definition RmvUserSession :: "int \<Rightarrow> string \<Rightarrow> session_table \<Rightarrow> session_table" where
  "RmvUserSession uid expected S =
     (if uid_to_session S uid = Some expected
      then S\<lparr>uid_to_session := (uid_to_session S)(uid := None)\<rparr> else S)"

definition ClearSession :: "string \<Rightarrow> session_table \<Rightarrow> session_table" where
  "ClearSession sid S =
     (let S = (if sid \<in> set (sessions S)
               then (if GetUserId sid S > 0 then RmvUserSession (GetUserId sid S) sid S else S) else S)
      in S\<lparr>sessions := filter (\<lambda>x. x \<noteq> sid) (sessions S)\<rparr>)"

definition GetSession :: "string \<Rightarrow> session_table \<Rightarrow> string option" where
  "GetSession sid S = (if sid \<in> set (sessions S) then Some sid else None)"

definition CheckValid :: "string \<Rightarrow> session_table \<Rightarrow> bool" where
  "CheckValid sid S \<longleftrightarrow> sid \<in> set (sessions S)"

text \<open>\<^verbatim>\<open>Close\<close>: an exchange of the flag, and for the caller that set it the removal from the table.\<close>

definition mark_closed :: "string \<Rightarrow> session_table \<Rightarrow> session_table" where
  "mark_closed sid S = set_session sid ((objects S sid)\<lparr>send_side := close_send (send_side (objects S sid))\<rparr>) S"

definition CloseSession :: "string \<Rightarrow> session_table \<Rightarrow> session_table" where
  "CloseSession sid S = (if IsClosed sid S then S else ClearSession sid (mark_closed sid S))"

declare mark_closed_def [simp]

definition SetUserId :: "string \<Rightarrow> int \<Rightarrow> session_table \<Rightarrow> session_table" where
  "SetUserId sid uid S = set_session sid ((objects S sid)\<lparr>user_uid := uid\<rparr>) S"

text \<open>The table after a connection was accepted, and whether the connection is closed because the table is full.\<close>

definition HandleAccept :: "string \<Rightarrow> bool \<Rightarrow> session_table \<Rightarrow> session_table \<times> bool" where
  "HandleAccept sid error S =
     (if stopping S then (S, False)
      else if error then (S, False)
      else if length (sessions S) < MAX_CHAT_SESSIONS
        then (if sid \<in> set (sessions S) then S else S\<lparr>sessions := sessions S @ [sid]\<rparr>, False)
      else (S, True))"

text \<open>\<^verbatim>\<open>Send\<close> of a session: as \<^verbatim>\<open>Send_Queue\<close> has it, with the whole of \<^verbatim>\<open>Close\<close> for a message too long to frame.\<close>

definition session_send :: "byte list \<Rightarrow> 16 word \<Rightarrow> string \<Rightarrow> session_table \<Rightarrow> bool \<times> session_table" where
  "session_send msg msgid sid S =
     (if length msg > 65535 then (False, CloseSession sid S)
      else case Send msg msgid (send_side (objects S sid)) of
        (r, x) \<Rightarrow> (r, set_session sid ((objects S sid)\<lparr>send_side := x\<rparr>) S))"

definition PublishHealth :: "'s redis_link \<Rightarrow> string \<Rightarrow> session_table \<Rightarrow> 's \<Rightarrow> bool \<times> 's" where
  "PublishHealth c name S = SetWithTtl c (''chat_health_'' @ name) (to_string (int (length (sessions S)))) 15"

definition StopTimer :: "'s redis_link \<Rightarrow> string \<Rightarrow> 's \<Rightarrow> bool \<times> 's" where
  "StopTimer c name = Del c (''chat_health_'' @ name)"

definition run_write :: "(send_side \<Rightarrow> send_side) \<Rightarrow> string \<Rightarrow> session_table \<Rightarrow> session_table" where
  "run_write f sid S = set_session sid ((objects S sid)\<lparr>send_side := f (send_side (objects S sid))\<rparr>) S"

section \<open>Threads\<close>

text \<open>
  The threads that work on the table at the same time. \<^verbatim>\<open>closing\<close> holds the sessions whose \<^verbatim>\<open>Close\<close> has set
  the flag and has not yet taken the mutex of the server; \<^verbatim>\<open>clearing\<close> is the call of
  \<^verbatim>\<open>ClearSession\<close> that holds the mutex and has read the user of its session, but has not yet taken the mutex of
  \<^verbatim>\<open>UserMgr\<close>. \<^verbatim>\<open>HandleAccept\<close> and \<^verbatim>\<open>Stop\<close> run on the one thread of the main
  \<^verbatim>\<open>io_context\<close> (\<^verbatim>\<open>servers/chat/app/main.cpp\<close>), so they do not interleave with each other; how far
  \<^verbatim>\<open>Stop\<close> has come is its phase.
\<close>

datatype stop_phase = Running | Flagged | CloseAll "string list" | WaitFor string "string list"

record table_threads =
  table :: session_table
  closing :: "string list"
  clearing :: "(string \<times> int) option"
  phase_of :: stop_phase

definition begin_close :: "string \<Rightarrow> table_threads \<Rightarrow> table_threads" where
  "begin_close sid T =
     (if IsClosed sid (table T) then T
      else T\<lparr>table := mark_closed sid (table T), closing := closing T @ [sid]\<rparr>)"

definition erase_session :: "string \<Rightarrow> session_table \<Rightarrow> session_table" where
  "erase_session sid S = S\<lparr>sessions := filter (\<lambda>x. x \<noteq> sid) (sessions S)\<rparr>"

definition enter_clear :: "string \<Rightarrow> table_threads \<Rightarrow> table_threads" where
  "enter_clear sid T =
     (let uid = (if sid \<in> set (sessions (table T)) then GetUserId sid (table T) else 0);
          T = T\<lparr>closing := remove1 sid (closing T)\<rparr>
      in if uid > 0 then T\<lparr>clearing := Some (sid, uid)\<rparr> else T\<lparr>table := erase_session sid (table T)\<rparr>)"

definition finish_clear :: "string \<Rightarrow> int \<Rightarrow> table_threads \<Rightarrow> table_threads" where
  "finish_clear sid uid T = T\<lparr>table := erase_session sid (RmvUserSession uid sid (table T)), clearing := None\<rparr>"

definition accept_connection :: "string \<Rightarrow> bool \<Rightarrow> table_threads \<Rightarrow> table_threads" where
  "accept_connection sid error T =
     (case HandleAccept sid error (table T) of
        (S, refused) \<Rightarrow> if refused then begin_close sid (T\<lparr>table := S\<rparr>) else T\<lparr>table := S\<rparr>)"

definition auth_timeout :: "string \<Rightarrow> table_threads \<Rightarrow> table_threads" where
  "auth_timeout sid T = (if GetUserId sid (table T) \<le> 0 then begin_close sid T else T)"

definition idle_timeout :: "string \<Rightarrow> table_threads \<Rightarrow> table_threads" where
  "idle_timeout sid T = begin_close sid T"

definition send_message :: "string \<Rightarrow> byte list \<Rightarrow> 16 word \<Rightarrow> table_threads \<Rightarrow> table_threads" where
  "send_message sid msg msgid T =
     (if length msg > 65535 then begin_close sid T else T\<lparr>table := snd (session_send msg msgid sid (table T))\<rparr>)"

definition write_done :: "string \<Rightarrow> bool \<Rightarrow> table_threads \<Rightarrow> table_threads" where
  "write_done sid error T =
     (if error then begin_close sid (T\<lparr>table := run_write (\<lambda>x. x\<lparr>writing := False\<rparr>) sid (table T)\<rparr>)
      else T\<lparr>table := run_write (HandleWrite False) sid (table T)\<rparr>)"

text \<open>\<^verbatim>\<open>Stop\<close>: the flag, the copy of the table under the mutex, and one \<^verbatim>\<open>Close\<close> after the other.\<close>

definition Stop_flag :: "table_threads \<Rightarrow> table_threads" where
  "Stop_flag T = T\<lparr>table := (table T)\<lparr>stopping := True\<rparr>, phase_of := Flagged\<rparr>"

definition Stop_copy :: "table_threads \<Rightarrow> table_threads" where
  "Stop_copy T = T\<lparr>phase_of := CloseAll (sessions (table T))\<rparr>"

definition Stop_close :: "string \<Rightarrow> string list \<Rightarrow> table_threads \<Rightarrow> table_threads" where
  "Stop_close sid rest T =
     (if IsClosed sid (table T) then T\<lparr>phase_of := CloseAll rest\<rparr> else (begin_close sid T)\<lparr>phase_of := WaitFor sid rest\<rparr>)"

definition being_cleared :: "string \<Rightarrow> table_threads \<Rightarrow> bool" where
  "being_cleared sid T \<longleftrightarrow> sid \<in> set (closing T) \<or> (\<exists>uid. clearing T = Some (sid, uid))"

datatype table_event =
    Accept string bool
  | Closing string
  | EnterClear string
  | FinishClear
  | AuthTimeout string
  | IdleTimeout string
  | SetUid string int
  | Bind int string
  | Sending string "byte list" "16 word"
  | Starting string
  | Written string bool
  | Stopping

text \<open>One step of one thread. A new connection has a new identifier: it is not that of a closed session.\<close>

inductive table_step :: "table_event \<Rightarrow> table_threads \<Rightarrow> table_threads \<Rightarrow> bool" where
  do_accept: "phase_of T = Running \<Longrightarrow> clearing T = None \<Longrightarrow> \<not> IsClosed sid (table T) \<Longrightarrow> table_step (Accept sid e) T (accept_connection sid e T)"
| do_close: "table_step (Closing sid) T (begin_close sid T)"
| do_enter: "sid \<in> set (closing T) \<Longrightarrow> clearing T = None \<Longrightarrow> table_step (EnterClear sid) T (enter_clear sid T)"
| do_finish: "clearing T = Some (sid, uid) \<Longrightarrow> table_step FinishClear T (finish_clear sid uid T)"
| do_auth: "table_step (AuthTimeout sid) T (auth_timeout sid T)"
| do_idle: "table_step (IdleTimeout sid) T (idle_timeout sid T)"
| do_set_uid: "table_step (SetUid sid u) T (T\<lparr>table := SetUserId sid u (table T)\<rparr>)"
| do_bind: "table_step (Bind u sid) T (T\<lparr>table := SetUserSession u sid (table T)\<rparr>)"
| do_send: "table_step (Sending sid m i) T (send_message sid m i T)"
| do_start: "table_step (Starting sid) T (T\<lparr>table := run_write StartWrite sid (table T)\<rparr>)"
| do_written: "table_step (Written sid e) T (write_done sid e T)"
| do_flag: "phase_of T = Running \<Longrightarrow> table_step Stopping T (Stop_flag T)"
| do_copy: "phase_of T = Flagged \<Longrightarrow> clearing T = None \<Longrightarrow> table_step Stopping T (Stop_copy T)"
| do_stop: "phase_of T = CloseAll (sid # rest) \<Longrightarrow> table_step Stopping T (Stop_close sid rest T)"
| do_wait: "phase_of T = WaitFor sid rest \<Longrightarrow> \<not> being_cleared sid T \<Longrightarrow> table_step Stopping T (T\<lparr>phase_of := CloseAll rest\<rparr>)"


definition no_threads :: table_threads where
  "no_threads = \<lparr>table = empty_table, closing = [], clearing = None, phase_of = Running\<rparr>"

inductive table_run :: "table_threads \<Rightarrow> bool" where
  run_empty: "table_run no_threads"
| run_step: "table_run T \<Longrightarrow> table_step ev T T' \<Longrightarrow> table_run T'"

lemma objects_ClearSession [simp]: "objects (ClearSession sid S) = objects S"
  by (simp add: ClearSession_def RmvUserSession_def Let_def)

lemma sessions_ClearSession [simp]: "sessions (ClearSession sid S) = filter (\<lambda>x. x \<noteq> sid) (sessions S)"
  by (simp add: ClearSession_def RmvUserSession_def Let_def)

lemma set_session_simps [simp]:
  "sessions (set_session sid x S) = sessions S" "uid_to_session (set_session sid x S) = uid_to_session S"
  "objects (set_session sid x S) = (objects S)(sid := x)"
  by (simp_all add: set_session_def)

lemma run_write_simps [simp]:
  "sessions (run_write f sid S) = sessions S" "uid_to_session (run_write f sid S) = uid_to_session S"
  "GetUserId x (run_write f sid S) = GetUserId x S"
  by (simp_all add: run_write_def GetUserId_def)

lemma IsClosed_run_write:
  "(\<And>x. b_close (f x) = b_close x) \<Longrightarrow> IsClosed y (run_write f sid S) = IsClosed y S"
  by (simp add: run_write_def IsClosed_def)

lemma b_close_writes [simp]:
  "b_close (StartWrite x) = b_close x" "b_close (HandleWrite False x) = b_close x"
  by (simp_all add: StartWrite_def HandleWrite_def Let_def)

lemma b_close_Send: "length m \<le> 65535 \<Longrightarrow> b_close (snd (Send m i x)) = b_close x"
  by (cases rule: Send_cases [of m i x]) simp_all

lemma IsClosed_CloseSession [simp]: "IsClosed x (CloseSession sid S) \<longleftrightarrow> x = sid \<or> IsClosed x S"
  by (auto simp: CloseSession_def IsClosed_def close_send_def)


section \<open>The invariant\<close>

definition stop_ok :: "table_threads \<Rightarrow> bool" where
  "stop_ok T \<longleftrightarrow> (stopping (table T) \<longleftrightarrow> phase_of T \<noteq> Running)
     \<and> (\<forall>sid \<in> set (sessions (table T)). \<not> IsClosed sid (table T) \<longrightarrow>
          (case phase_of T of CloseAll xs \<Rightarrow> sid \<in> set xs | WaitFor x xs \<Rightarrow> sid \<in> set xs | _ \<Rightarrow> True))"

definition threads_ok :: "table_threads \<Rightarrow> bool" where
  "threads_ok T \<longleftrightarrow> distinct (sessions (table T)) \<and> length (sessions (table T)) \<le> MAX_CHAT_SESSIONS
     \<and> (\<forall>sid. being_cleared sid T \<longrightarrow> IsClosed sid (table T))
     \<and> (\<forall>sid \<in> set (sessions (table T)). IsClosed sid (table T) \<longrightarrow> being_cleared sid T)
     \<and> distinct (closing T) \<and> (\<forall>sid uid. clearing T = Some (sid, uid) \<longrightarrow> sid \<notin> set (closing T)) \<and> stop_ok T"

text \<open>Only the table of sessions, the flags and the threads matter.\<close>

lemma threads_ok_same:
  assumes "threads_ok T" and "sessions (table T') = sessions (table T)" and "\<And>x. IsClosed x (table T') = IsClosed x (table T)"
    and "stopping (table T') = stopping (table T)" and "closing T' = closing T" and "clearing T' = clearing T" and "phase_of T' = phase_of T"
  shows "threads_ok T'"
  using assms by (simp add: threads_ok_def stop_ok_def being_cleared_def)

lemma stopping_simps [simp]:
  "stopping (set_session sid x S) = stopping S" "stopping (run_write f sid S) = stopping S" "stopping (RmvUserSession uid sid S) = stopping S"
  "stopping (erase_session sid S) = stopping S"
  by (simp_all add: set_session_def run_write_def RmvUserSession_def erase_session_def)

lemma erase_simps [simp]:
  "sessions (erase_session sid S) = filter (\<lambda>x. x \<noteq> sid) (sessions S)" "IsClosed x (erase_session sid S) = IsClosed x S"
  "uid_to_session (erase_session sid S) = uid_to_session S"
  by (simp_all add: erase_session_def IsClosed_def)

lemma RmvUserSession_simps [simp]:
  "sessions (RmvUserSession uid sid S) = sessions S" "IsClosed x (RmvUserSession uid sid S) = IsClosed x S"
  by (simp_all add: RmvUserSession_def IsClosed_def)

lemma IsClosed_mark [simp]: "IsClosed x (mark_closed sid S) \<longleftrightarrow> x = sid \<or> IsClosed x S"
  by (simp add: IsClosed_def close_send_def)

lemma begin_close_simps [simp]:
  "sessions (table (begin_close sid T)) = sessions (table T)" "stopping (table (begin_close sid T)) = stopping (table T)"
  "uid_to_session (table (begin_close sid T)) = uid_to_session (table T)" "clearing (begin_close sid T) = clearing T"
  "phase_of (begin_close sid T) = phase_of T"
  "IsClosed x (table (begin_close sid T)) \<longleftrightarrow> x = sid \<or> IsClosed x (table T)"
  "being_cleared x (begin_close sid T) \<longleftrightarrow> being_cleared x T \<or> x = sid \<and> \<not> IsClosed sid (table T)"
  by (auto simp: begin_close_def being_cleared_def simp del: mark_closed_def) (simp_all add: mark_closed_def)

lemma begin_close_ok:
  assumes "threads_ok T"
  shows "threads_ok (begin_close sid T)"
proof (cases "IsClosed sid (table T)")
  case False
  then have "closing (begin_close sid T) = closing T @ [sid]" "\<not> being_cleared sid T"
    using assms by (auto simp: begin_close_def threads_ok_def)
  then show ?thesis
    using assms by (auto simp: threads_ok_def stop_ok_def being_cleared_def [of sid T])
qed (use assms in \<open>simp add: begin_close_def\<close>)

lemma shorter: "threads_ok T \<Longrightarrow> length (filter (\<lambda>x. x \<noteq> sid) (sessions (table T))) \<le> MAX_CHAT_SESSIONS"
  by (rule le_trans [OF length_filter_le]) (simp add: threads_ok_def)

lemma enter_clear_ok:
  assumes "threads_ok T" and "sid \<in> set (closing T)" and "clearing T = None"
  shows "threads_ok (enter_clear sid T)"
proof (cases "sid \<in> set (sessions (table T)) \<and> GetUserId sid (table T) > 0")
  case True
  have d: "distinct (closing T)"
    using assms(1) by (simp add: threads_ok_def)
  have T': "enter_clear sid T = T\<lparr>closing := remove1 sid (closing T), clearing := Some (sid, GetUserId sid (table T))\<rparr>"
    using True by (simp add: enter_clear_def)
  have "being_cleared x (enter_clear sid T) = being_cleared x T" for x
    using assms(2,3) d by (auto simp: T' being_cleared_def set_remove1_eq)
  then show ?thesis
    using assms d unfolding threads_ok_def stop_ok_def by (simp add: T' set_remove1_eq)
next
  case False
  have d: "distinct (closing T)"
    using assms(1) by (simp add: threads_ok_def)
  have T': "enter_clear sid T = T\<lparr>closing := remove1 sid (closing T), table := erase_session sid (table T)\<rparr>"
    using False by (simp add: enter_clear_def)
  have "being_cleared x (enter_clear sid T) \<longleftrightarrow> x \<noteq> sid \<and> being_cleared x T" for x
    using assms(3) d by (auto simp: T' being_cleared_def set_remove1_eq)
  then show ?thesis
    using assms d shorter [OF assms(1), of sid] unfolding threads_ok_def stop_ok_def by (simp add: T' set_remove1_eq)
qed

lemma finish_clear_ok:
  assumes "threads_ok T" and "clearing T = Some (sid, uid)"
  shows "threads_ok (finish_clear sid uid T)"
proof -
  have "being_cleared x (finish_clear sid uid T) \<longleftrightarrow> x \<noteq> sid \<and> being_cleared x T" for x
    using assms by (auto simp: finish_clear_def being_cleared_def threads_ok_def)
  then show ?thesis
    using assms shorter [OF assms(1), of sid] unfolding threads_ok_def stop_ok_def by (simp add: finish_clear_def)
qed

lemma accept_connection_ok:
  assumes "threads_ok T" and "phase_of T = Running" and "\<not> IsClosed sid (table T)"
  shows "threads_ok (accept_connection sid e T)"
proof -
  obtain S refused where h: "HandleAccept sid e (table T) = (S, refused)"
    by fastforce
  have "S = table T \<or> S = (table T)\<lparr>sessions := sessions (table T) @ [sid]\<rparr> \<and> sid \<notin> set (sessions (table T)) \<and> length (sessions (table T)) < MAX_CHAT_SESSIONS"
    using h by (auto simp: HandleAccept_def split: if_splits)
  then have "threads_ok (T\<lparr>table := S\<rparr>)"
    using assms by (auto simp: threads_ok_def stop_ok_def being_cleared_def IsClosed_def)
  then show ?thesis
    using begin_close_ok by (simp add: accept_connection_def h)
qed

lemma session_send_simps:
  assumes "length m \<le> 65535"
  shows "sessions (snd (session_send m i sid S)) = sessions S" "stopping (snd (session_send m i sid S)) = stopping S"
    "uid_to_session (snd (session_send m i sid S)) = uid_to_session S" "IsClosed x (snd (session_send m i sid S)) = IsClosed x S"
  using assms b_close_Send [OF assms, of i "send_side (objects S sid)"]
  by (auto simp: session_send_def IsClosed_def split: prod.split)

lemma CloseSession_user [simp]: "GetUserId x (CloseSession sid S) = GetUserId x S"
  by (auto simp: CloseSession_def GetUserId_def set_session_def ClearSession_def RmvUserSession_def Let_def split: if_splits option.splits)

lemma session_send_user [simp]: "GetUserId x (snd (session_send msg i sid S)) = GetUserId x S"
proof (cases "length msg > 65535")
  case False
  then show ?thesis
    by (simp add: session_send_def GetUserId_def set_session_def split: prod.split)
qed (simp add: session_send_def)

lemma send_message_ok: "threads_ok T \<Longrightarrow> threads_ok (send_message sid m i T)"
  by (auto simp: send_message_def begin_close_ok session_send_simps intro: threads_ok_same)

lemma write_done_ok:
  assumes "threads_ok T"
  shows "threads_ok (write_done sid e T)"
proof -
  have "threads_ok (T\<lparr>table := run_write f sid (table T)\<rparr>)" if "\<And>x. b_close (f x) = b_close x" for f
    by (rule threads_ok_same [OF assms]) (simp_all add: IsClosed_run_write that)
  then show ?thesis
    by (simp add: write_done_def begin_close_ok)
qed

lemma Stop_ok:
  assumes "threads_ok T"
  shows "phase_of T = Running \<Longrightarrow> threads_ok (Stop_flag T)" "phase_of T = Flagged \<Longrightarrow> threads_ok (Stop_copy T)"
    "phase_of T = CloseAll (sid # rest) \<Longrightarrow> threads_ok (Stop_close sid rest T)"
    "phase_of T = WaitFor sid rest \<Longrightarrow> threads_ok (T\<lparr>phase_of := CloseAll rest\<rparr>)"
proof -
  show "phase_of T = Running \<Longrightarrow> threads_ok (Stop_flag T)" "phase_of T = Flagged \<Longrightarrow> threads_ok (Stop_copy T)"
    "phase_of T = WaitFor sid rest \<Longrightarrow> threads_ok (T\<lparr>phase_of := CloseAll rest\<rparr>)"
    using assms by (auto simp: Stop_flag_def Stop_copy_def threads_ok_def stop_ok_def being_cleared_def IsClosed_def)
  assume ph: "phase_of T = CloseAll (sid # rest)"
  have close: "threads_ok (T'\<lparr>phase_of := p\<rparr>)" if "threads_ok T'" "IsClosed sid (table T')" "phase_of T' = CloseAll (sid # rest)" "p = CloseAll rest \<or> p = WaitFor sid rest" for T' p
    using that by (auto simp: threads_ok_def stop_ok_def being_cleared_def)
  show "threads_ok (Stop_close sid rest T)"
    using close [OF assms _ ph] close [OF begin_close_ok [OF assms, of sid]] ph by (simp add: Stop_close_def)
qed

lemma step_ok:
  assumes "table_step ev T T'" and "threads_ok T"
  shows "threads_ok T'"
  using assms(1)
proof cases
  case (do_accept sid e)
  then show ?thesis using accept_connection_ok [OF assms(2)] by simp
next
  case (do_enter sid)
  then show ?thesis using enter_clear_ok [OF assms(2)] by simp
next
  case (do_finish sid uid)
  then show ?thesis using finish_clear_ok [OF assms(2)] by simp
next
  case (do_set_uid sid u)
  show ?thesis
    unfolding do_set_uid by (intro threads_ok_same [OF assms(2)]) (simp_all add: SetUserId_def IsClosed_def)
next
  case (do_bind u sid)
  then show ?thesis
    using assms(2) by (auto simp: SetUserSession_def IsClosed_def intro: threads_ok_same)
next
  case (do_start sid)
  then show ?thesis
    using assms(2) by (auto simp: IsClosed_run_write intro: threads_ok_same)
qed (use assms(2) Stop_ok [OF assms(2)] in \<open>simp_all add: begin_close_ok auth_timeout_def idle_timeout_def send_message_ok write_done_ok\<close>)

lemma run_ok: "table_run T \<Longrightarrow> threads_ok T"
proof (induction rule: table_run.induct)
  case run_empty
  show ?case
    by (simp add: no_threads_def empty_table_def threads_ok_def stop_ok_def being_cleared_def)
next
  case (run_step T ev T')
  then show ?case using step_ok by blast
qed

text \<open>Without interference the steps of \<^verbatim>\<open>Close\<close> make up \<^const>\<open>CloseSession\<close>.\<close>

lemma close_in_steps:
  assumes "\<not> IsClosed sid (table T)" and "sid \<notin> set (closing T)" and "clearing T = None"
  shows "let T1 = enter_clear sid (begin_close sid T);
             T2 = (case clearing T1 of None \<Rightarrow> T1 | Some (x, uid) \<Rightarrow> finish_clear x uid T1)
         in T2 = T\<lparr>table := CloseSession sid (table T)\<rparr>"
  using assms
  by (simp add: begin_close_def enter_clear_def finish_clear_def CloseSession_def ClearSession_def erase_session_def GetUserId_def
      remove1_append Let_def)

lemma binding_step:
  assumes "table_step ev T T'" and "threads_ok T" and "uid_to_session (table T) u = Some sid" and "\<not> IsClosed sid (table T')" and "\<forall>x. ev \<noteq> Bind u x"
  shows "uid_to_session (table T') u = Some sid"
  using assms(1)
proof cases
  case (do_finish x uid)
  then have "x \<noteq> sid"
    using assms(2,4) by (auto simp: threads_ok_def being_cleared_def finish_clear_def)
  then show ?thesis
    using do_finish assms(3) by (auto simp: finish_clear_def RmvUserSession_def)
next
  case (do_send x m i)
  then show ?thesis
    using assms(3) by (cases "length m > 65535") (simp_all add: send_message_def session_send_simps)
next
  case (do_accept x e)
  then show ?thesis
    using assms(3) by (auto simp: accept_connection_def HandleAccept_def split: prod.splits if_splits)
next
  case (do_enter x)
  then show ?thesis
    using assms(3) by (simp add: enter_clear_def Let_def)
qed (use assms(3,5) in \<open>auto simp: auth_timeout_def idle_timeout_def SetUserId_def SetUserSession_def write_done_def Stop_flag_def Stop_copy_def Stop_close_def\<close>)

text \<open>
  C13: Whatever the threads of the server do, in whatever order their critical sections are run: the
  table never holds more than 10000 sessions and none twice; a closed session that is still in the table is
  being taken out by the thread that closed it. Once \<^verbatim>\<open>Stop\<close> has come to its end, every session that is still in
  the table is being taken out, and no new one comes in; so the table is empty when the calls of
  \<^verbatim>\<open>Close\<close> that are under way have returned. A user stays bound to the session of the latest login: only a
  newer login or the closing of that very session ends the binding, so closing a session that was replaced
  leaves the new one bound.
\<close>

theorem session_table_safe:
  assumes "table_run T" and "table_step ev T T'"
  shows "length (sessions (table T)) \<le> MAX_CHAT_SESSIONS \<and> distinct (sessions (table T))
    \<and> (\<forall>sid \<in> set (sessions (table T)). IsClosed sid (table T) \<longrightarrow> being_cleared sid T)
    \<and> (phase_of T = CloseAll [] \<longrightarrow> (\<forall>sid \<in> set (sessions (table T)). being_cleared sid T)
         \<and> phase_of T' = CloseAll [] \<and> set (sessions (table T')) \<subseteq> set (sessions (table T)))
    \<and> (phase_of T = CloseAll [] \<and> closing T = [] \<and> clearing T = None \<longrightarrow> sessions (table T) = [])
    \<and> (\<forall>u sid. uid_to_session (table T) u = Some sid \<and> \<not> IsClosed sid (table T') \<and> (\<forall>x. ev \<noteq> Bind u x)
          \<longrightarrow> uid_to_session (table T') u = Some sid)"
proof -
  have ok: "threads_ok T"
    by (rule run_ok [OF assms(1)])
  have stopped: "being_cleared sid T" if "phase_of T = CloseAll []" "sid \<in> set (sessions (table T))" for sid
    using ok that by (auto simp: threads_ok_def stop_ok_def)
  have kept: "phase_of T' = CloseAll [] \<and> set (sessions (table T')) \<subseteq> set (sessions (table T))" if "phase_of T = CloseAll []"
    using assms(2)
  proof cases
    case (do_send sid m i)
    then show ?thesis
      using that by (cases "length m > 65535") (simp_all add: send_message_def session_send_simps)
  qed (use that in \<open>auto simp: enter_clear_def finish_clear_def auth_timeout_def idle_timeout_def SetUserId_def SetUserSession_def
      write_done_def Let_def\<close>)
  have "sessions (table T) = []" if "phase_of T = CloseAll []" "closing T = []" "clearing T = None"
    using stopped [OF that(1)] that(2,3) by (cases "sessions (table T)") (auto simp: being_cleared_def)
  then show ?thesis
    using ok stopped kept binding_step [OF assms(2) ok] by (auto simp: threads_ok_def)
qed

lemma fresh_sessions: "\<not> IsClosed sid (table no_threads)"
  by (simp add: no_threads_def empty_table_def IsClosed_def new_session_def new_send_side_def)

lemma accept_first: "accept_connection ''s'' False no_threads = no_threads\<lparr>table := empty_table\<lparr>sessions := [''s'']\<rparr>\<rparr>"
  by (simp add: accept_connection_def HandleAccept_def no_threads_def empty_table_def)

text \<open>The session \<^verbatim>\<open>s\<close> is replaced by \<^verbatim>\<open>t\<close> as the session of user 7, and then closed.\<close>

theorem session_table_safe_witness:
  "\<exists>T T'. table_run T \<and> table_step (Closing ''s'') T T' \<and> uid_to_session (table T') 7 = Some ''t'' \<and> distinct (sessions (table T))"
proof -
  let ?T1 = "accept_connection ''s'' False no_threads"
  let ?T2 = "?T1\<lparr>table := SetUserSession 7 ''s'' (table ?T1)\<rparr>"
  let ?T3 = "?T2\<lparr>table := SetUserSession 7 ''t'' (table ?T2)\<rparr>"
  have run: "table_run ?T3"
    by (intro run_step [OF _ do_bind] run_step [OF run_empty do_accept]) (simp_all add: fresh_sessions, simp_all add: no_threads_def)
  have step: "table_step (Closing ''s'') ?T3 (begin_close ''s'' ?T3)"
    by (rule do_close)
  have "uid_to_session (table ?T3) 7 = Some ''t''" "\<not> IsClosed ''t'' (table ?T3)"
    using fresh_sessions [of "''t''"] unfolding accept_first by (simp_all add: SetUserSession_def IsClosed_def no_threads_def)
  then show ?thesis
    using session_table_safe [OF run step] run step by (intro exI [of _ ?T3] exI [of _ "begin_close ''s'' ?T3"]) simp
qed

text \<open>
  Closing a session while its login is under way leaves the user bound to it: the binding is
  written after the session has been taken out of the table.
\<close>

lemma login_close_race:
  "\<exists>T. table_run T \<and> uid_to_session (table T) 7 = Some ''s'' \<and> IsClosed ''s'' (table T) \<and> sessions (table T) = [] \<and> closing T = [] \<and> clearing T = None"
proof -
  let ?T1 = "accept_connection ''s'' False no_threads"
  let ?T2 = "?T1\<lparr>table := SetUserId ''s'' 7 (table ?T1)\<rparr>"
  let ?T3 = "begin_close ''s'' ?T2"
  let ?T4 = "enter_clear ''s'' ?T3"
  let ?T5 = "finish_clear ''s'' 7 ?T4"
  let ?T6 = "?T5\<lparr>table := SetUserSession 7 ''s'' (table ?T5)\<rparr>"
  note defs = begin_close_def enter_clear_def finish_clear_def SetUserId_def no_threads_def empty_table_def IsClosed_def new_session_def
    new_send_side_def GetUserId_def SetUserSession_def close_send_def RmvUserSession_def erase_session_def set_session_def
  have "table_run ?T3"
    by (intro run_step [OF _ do_close] run_step [OF _ do_set_uid] run_step [OF run_empty do_accept]) (simp_all add: fresh_sessions, simp_all add: no_threads_def)
  then have "table_run ?T4"
    unfolding accept_first by (rule run_step [OF _ do_enter]) (simp_all add: defs)
  then have "table_run ?T5"
    unfolding accept_first by (rule run_step [OF _ do_finish]) (simp add: defs)
  then have "table_run ?T6"
    by (rule run_step [OF _ do_bind])
  moreover have "uid_to_session (table ?T6) 7 = Some ''s'' \<and> IsClosed ''s'' (table ?T6) \<and> sessions (table ?T6) = [] \<and> closing ?T6 = [] \<and> clearing ?T6 = None"
    unfolding accept_first by (simp add: defs)
  ultimately show ?thesis
    by blast
qed

end
