(* ===== verification/Json_Value.thy ===== *)
theory Json_Value
  imports Complex_Main Decimal
begin

text \<open>
  JSON values as the code uses them through jsoncpp: the kinds of value, the tests \<^verbatim>\<open>isInt\<close>,
  \<^verbatim>\<open>isString\<close> and so on, and the conversions, which throw on a value of the wrong kind (\<open>None\<close>
  here). The text format is not part of the program: parsing and printing are the functions of
  \<open>json_lib\<close>.
\<close>

datatype json =
    JNull
  | JBool bool
  | JInt int
  | JReal real
  | JStr string
  | JArr "json list"
  | JObj "(string \<times> json) list"

record json_lib =
  parse_json :: "string \<Rightarrow> json option"
  toStyledString :: "json \<Rightarrow> string"
  real_text :: "real \<Rightarrow> string"

text \<open>A value that is read back from its printed form, as jsoncpp promises for what it prints.\<close>

definition prints_back :: "json_lib \<Rightarrow> json \<Rightarrow> bool" where
  "prints_back lib v \<longleftrightarrow> parse_json lib (toStyledString lib v) = Some v"

definition int_range :: "int \<Rightarrow> bool" where
  "int_range i \<longleftrightarrow> - (2 ^ 31) \<le> i \<and> i < 2 ^ 31"

fun isObject :: "json \<Rightarrow> bool" where
  "isObject (JObj _) = True"
| "isObject _ = False"

fun isInt :: "json \<Rightarrow> bool" where
  "isInt (JInt i) = int_range i"
| "isInt (JReal r) = (r \<in> \<int> \<and> int_range \<lfloor>r\<rfloor>)"
| "isInt _ = False"

fun isString :: "json \<Rightarrow> bool" where
  "isString (JStr _) = True"
| "isString _ = False"

fun isBool :: "json \<Rightarrow> bool" where
  "isBool (JBool _) = True"
| "isBool _ = False"

fun isArray :: "json \<Rightarrow> bool" where
  "isArray (JArr _) = True"
| "isArray _ = False"

fun isNull :: "json \<Rightarrow> bool" where
  "isNull JNull = True"
| "isNull _ = False"

text \<open>Members of an object; a missing one is null. Any other value but null throws.\<close>

definition field :: "string \<Rightarrow> json \<Rightarrow> json" where
  "field k j = (case j of JObj kvs \<Rightarrow> (case map_of kvs k of Some v \<Rightarrow> v | None \<Rightarrow> JNull) | _ \<Rightarrow> JNull)"

definition has_members :: "json \<Rightarrow> bool" where
  "has_members j \<longleftrightarrow> isObject j \<or> isNull j"

definition isMember :: "string \<Rightarrow> json \<Rightarrow> bool" where
  "isMember k j = (case j of JObj kvs \<Rightarrow> map_of kvs k \<noteq> None | _ \<Rightarrow> False)"

definition set_member :: "string \<Rightarrow> json \<Rightarrow> json \<Rightarrow> json" where
  "set_member k v j = (case j of JObj kvs \<Rightarrow> JObj (AList.update k v kvs) | _ \<Rightarrow> JObj [(k, v)])"

fun items :: "json \<Rightarrow> json list" where
  "items (JArr xs) = xs"
| "items _ = []"

definition append_item :: "json \<Rightarrow> json \<Rightarrow> json" where
  "append_item v j = JArr (items j @ [v])"

fun asInt :: "json \<Rightarrow> int option" where
  "asInt JNull = Some 0"
| "asInt (JBool b) = Some (if b then 1 else 0)"
| "asInt (JInt i) = (if int_range i then Some i else None)"
| "asInt (JReal r) = (if int_range (if r < 0 then \<lceil>r\<rceil> else \<lfloor>r\<rfloor>) then Some (if r < 0 then \<lceil>r\<rceil> else \<lfloor>r\<rfloor>) else None)"
| "asInt _ = None"

fun asString :: "json_lib \<Rightarrow> json \<Rightarrow> string option" where
  "asString lib JNull = Some []"
| "asString lib (JBool b) = Some (if b then ''true'' else ''false'')"
| "asString lib (JInt i) = Some (to_string i)"
| "asString lib (JReal r) = Some (real_text lib r)"
| "asString lib (JStr s) = Some s"
| "asString lib _ = None"

text \<open>The value of a field that has been tested.\<close>

fun str_val :: "json \<Rightarrow> string" where
  "str_val (JStr s) = s"
| "str_val _ = []"

fun int_val :: "json \<Rightarrow> int" where
  "int_val (JInt i) = i"
| "int_val (JReal r) = \<lfloor>r\<rfloor>"
| "int_val _ = 0"

fun bool_val :: "json \<Rightarrow> bool" where
  "bool_val (JBool b) = b"
| "bool_val _ = False"

lemma asString_str_val: "isString j \<Longrightarrow> asString lib j = Some (str_val j)"
  by (cases j) simp_all

lemma asInt_int_val: "isInt j \<Longrightarrow> asInt j = Some (int_val j)"
proof (cases j)
  case (JReal r)
  then show "isInt j \<Longrightarrow> asInt j = Some (int_val j)"
    by (auto simp: int_range_def elim!: Ints_cases)
qed simp_all

lemma field_set_member [simp]: "isObject j \<or> isNull j \<Longrightarrow> field k' (set_member k v j) = (if k' = k then v else field k' j)"
  by (cases j) (simp_all add: field_def set_member_def update_conv')

lemma isObject_set_member [simp]: "isObject (set_member k v j)"
  by (cases j) (simp_all add: set_member_def)

end
