(* ===== verification/Chat_World.thy ===== *)
theory Chat_World
  imports Message_Db Friend_Db Session_Table Json_Value Delivery_Window "HOL-Library.List_Lexorder" "HOL-Library.Char_ord"
begin

text \<open>
  The state that the handlers of a chat server work on, and the calls they make: the sessions, the
  Redis and MySQL servers, the delivery states of \<^verbatim>\<open>servers/chat/service/LogicSystem.h\<close>, and what is
  posted to the executors or sent to other servers. A handler is an action on this state that may
  throw. What lies outside the program is in \<open>chat_env\<close>: the Redis server, the JSON library, the name
  of the server, the collation of the database, the failures of the \<open>n\<close>-th database call, the steady clock before it, the hash of
  session identifiers, whether the \<open>n\<close>-th post finds room, random tokens and their digest,
  the resource servers (their configured endpoints, the token for internal calls, whether a channel to a host and port can be
  set up, and what the call \<^verbatim>\<open>ListPending\<close> returns at a moment, \<^const>\<open>None\<close> if it fails) and the other chat servers.
\<close>

record delivery_state =
  window :: delivery_window
  next_query :: time
  idle_seconds :: nat

record add_friend_req =
  af_applyuid :: int
  af_touid :: int
  af_name :: string
  af_desc :: string
  af_icon :: string
  af_sex :: int
  af_nick :: string

record text_chat_req =
  tc_fromuid :: int
  tc_touid :: int
  tc_msgs :: "(string \<times> string) list"

datatype peer_call =
    PeerAddFriend string add_friend_req
  | PeerAuthFriend string int int
  | PeerText string text_chat_req

record 'r chat_env =
  link :: "'r redis_link"
  lib :: json_lib
  self_name :: string
  collate :: "string \<Rightarrow> string"
  column_fit :: "string \<Rightarrow> string"
  db_env :: "nat \<Rightarrow> sql_env"
  profile_env :: "nat \<Rightarrow> nat \<Rightarrow> sql_env"
  steady_now :: "nat \<Rightarrow> time"
  session_hash :: "string \<Rightarrow> nat"
  shard_count :: nat
  post_room :: "nat \<Rightarrow> bool"
  resource_endpoints :: string
  internal_token :: string
  channel_opens :: "string \<Rightarrow> string \<Rightarrow> bool"
  list_pending :: "nat \<Rightarrow> string \<Rightarrow> string \<Rightarrow> int \<Rightarrow> string list option"
  fresh_token :: string
  tokenDigest :: "string \<Rightarrow> string"
  peer_error :: "nat \<Rightarrow> peer_call \<Rightarrow> int"

record 'r chat_world =
  tbl :: session_table
  rds :: 'r
  cdb :: chat_db
  db_calls :: nat
  delivery :: "nat \<Rightarrow> (string \<times> delivery_state) list"
  delivery_cursor :: "nat \<Rightarrow> string"
  posts :: nat
  notifications :: "(int \<times> text_message list) list"
  wakeups :: "(string \<times> int) list"
  peer_calls :: "peer_call list"
  touched :: "string list"
  delivered :: nat
  retries :: nat
  ack_failures :: nat
  query_failures :: nat

type_synonym ('r, 'a) action = "('r chat_world, 'a) io"

definition bytes_of :: "string \<Rightarrow> byte list" where
  "bytes_of s = map (\<lambda>c. word_of_nat (of_char c)) s"

definition get_world :: "('r chat_world \<Rightarrow> 'a) \<Rightarrow> ('r, 'a) action" where
  "get_world f w = (Returns (f w), w)"

definition upd_world :: "('r chat_world \<Rightarrow> 'r chat_world) \<Rightarrow> ('r, unit) action" where
  "upd_world f w = (Returns (), f w)"

definition redis_call :: "('r \<Rightarrow> 'a \<times> 'r) \<Rightarrow> ('r, 'a) action" where
  "redis_call f w = (case f (rds w) of (a, s) \<Rightarrow> (Returns a, w\<lparr>rds := s\<rparr>))"

definition db_call :: "'r chat_env \<Rightarrow> (sql_env \<Rightarrow> chat_db \<Rightarrow> 'a outcome \<times> chat_db) \<Rightarrow> ('r, 'a) action" where
  "db_call E f w =
     (case f (db_env E (db_calls w)) (cdb w) of (r, d) \<Rightarrow> (r, w\<lparr>cdb := d, db_calls := db_calls w + 1\<rparr>))"

definition send_raw :: "string \<Rightarrow> string \<Rightarrow> 16 word \<Rightarrow> ('r, bool) action" where
  "send_raw sid text msgid w =
     (case session_send (bytes_of text) msgid sid (tbl w) of (r, t) \<Rightarrow> (Returns r, w\<lparr>tbl := t\<rparr>))"

definition send_json :: "'r chat_env \<Rightarrow> string \<Rightarrow> json \<Rightarrow> 16 word \<Rightarrow> ('r, bool) action" where
  "send_json E sid v msgid = send_raw sid (toStyledString (lib E) v) msgid"

definition close_session :: "string \<Rightarrow> ('r, unit) action" where
  "close_session sid = upd_world (\<lambda>w. w\<lparr>tbl := CloseSession sid (tbl w)\<rparr>)"

definition is_closed :: "string \<Rightarrow> ('r, bool) action" where
  "is_closed sid = get_world (\<lambda>w. IsClosed sid (tbl w))"

definition user_of :: "string \<Rightarrow> ('r, int) action" where
  "user_of sid = get_world (\<lambda>w. GetUserId sid (tbl w))"

definition session_of :: "int \<Rightarrow> ('r, string option) action" where
  "session_of uid = get_world (\<lambda>w. GetSession_of uid (tbl w))"

definition peer_rpc :: "'r chat_env \<Rightarrow> peer_call \<Rightarrow> ('r, int) action" where
  "peer_rpc E call w =
     (Returns (peer_error E (length (peer_calls w)) call), w\<lparr>peer_calls := peer_calls w @ [call]\<rparr>)"

definition uip_key :: "int \<Rightarrow> string" where
  "uip_key uid = ''uip_'' @ to_string uid"

definition base_key_of :: "int \<Rightarrow> string" where
  "base_key_of uid = ''ubaseinfo_'' @ to_string uid"

definition code :: "error_code \<Rightarrow> json" where
  "code e = JInt (error_number e)"

text \<open>The defaults of a delivery state, and the shard a session belongs to.\<close>

definition new_delivery :: delivery_state where
  "new_delivery = \<lparr>window = [], next_query = 0, idle_seconds = 1\<rparr>"

definition shard_of_session :: "'r chat_env \<Rightarrow> string \<Rightarrow> nat" where
  "shard_of_session E sid = session_hash E sid mod shard_count E"

definition delivery_of :: "'r chat_env \<Rightarrow> string \<Rightarrow> 'r chat_world \<Rightarrow> delivery_state" where
  "delivery_of E sid w =
     (case map_of (delivery w (shard_of_session E sid)) sid of Some s \<Rightarrow> s | None \<Rightarrow> new_delivery)"

definition set_delivery :: "'r chat_env \<Rightarrow> string \<Rightarrow> delivery_state \<Rightarrow> 'r chat_world \<Rightarrow> 'r chat_world" where
  "set_delivery E sid s w =
     w\<lparr>delivery := (delivery w)(shard_of_session E sid := AList.update sid s (delivery w (shard_of_session E sid)))\<rparr>"

text \<open>The frames waiting in the queue of a session.\<close>

definition outbox :: "string \<Rightarrow> 'r chat_world \<Rightarrow> byte list list" where
  "outbox sid w = send_que (send_side (objects (tbl w) sid))"

text \<open>Weakest preconditions of the calls.\<close>

lemma wp_get_world [wp_rules]: "Q (f w) w \<Longrightarrow> wp (get_world f) Q X w"
  by (simp add: wp_def get_world_def)

lemma wp_upd_world [wp_rules]: "Q () (f w) \<Longrightarrow> wp (upd_world f) Q X w"
  by (simp add: wp_def upd_world_def)

lemma wp_is_closed [wp_rules]: "Q (IsClosed sid (tbl w)) w \<Longrightarrow> wp (is_closed sid) Q X w"
  by (simp add: is_closed_def wp_get_world)

lemma wp_user_of [wp_rules]: "Q (GetUserId sid (tbl w)) w \<Longrightarrow> wp (user_of sid) Q X w"
  by (simp add: user_of_def wp_get_world)

lemma wp_session_of [wp_rules]: "Q (GetSession_of uid (tbl w)) w \<Longrightarrow> wp (session_of uid) Q X w"
  by (simp add: session_of_def wp_get_world)

lemma wp_close_session [wp_rules]: "Q () (w\<lparr>tbl := CloseSession sid (tbl w)\<rparr>) \<Longrightarrow> wp (close_session sid) Q X w"
  by (simp add: close_session_def wp_upd_world)

lemma wp_redis_call:
  "(\<And>a s. f (rds w) = (a, s) \<Longrightarrow> Q a (w\<lparr>rds := s\<rparr>)) \<Longrightarrow> wp (redis_call f) Q X w"
  by (auto simp: wp_def redis_call_def split: prod.split)

lemma wp_db_call:
  "(\<And>a d. f (db_env E (db_calls w)) (cdb w) = (Returns a, d) \<Longrightarrow> Q a (w\<lparr>cdb := d, db_calls := db_calls w + 1\<rparr>)) \<Longrightarrow>
   (\<And>d. f (db_env E (db_calls w)) (cdb w) = (Throws, d) \<Longrightarrow> X (w\<lparr>cdb := d, db_calls := db_calls w + 1\<rparr>)) \<Longrightarrow>
   wp (db_call E f) Q X w"
  by (auto simp: wp_def db_call_def split: prod.split outcome.split)

lemma wp_send_raw:
  "(\<And>r t. session_send (bytes_of text) i sid (tbl w) = (r, t) \<Longrightarrow> Q r (w\<lparr>tbl := t\<rparr>)) \<Longrightarrow> wp (send_raw sid text i) Q X w"
  by (auto simp: wp_def send_raw_def split: prod.split)

lemma wp_send_json:
  "(\<And>r t. session_send (bytes_of (toStyledString (lib E) v)) i sid (tbl w) = (r, t) \<Longrightarrow> Q r (w\<lparr>tbl := t\<rparr>)) \<Longrightarrow>
   wp (send_json E sid v i) Q X w"
  unfolding send_json_def by (rule wp_send_raw)

lemma wp_peer_rpc [wp_rules]:
  "Q (peer_error E (length (peer_calls w)) call) (w\<lparr>peer_calls := peer_calls w @ [call]\<rparr>) \<Longrightarrow> wp (peer_rpc E call) Q X w"
  by (simp add: wp_def peer_rpc_def)

end
