(* ===== verification/Message_Delivery.thy ===== *)
theory Message_Delivery
  imports Chat_World
begin

text \<open>
  The delivery of stored messages, \<^verbatim>\<open>DeliverPendingTextMessages\<close>, \<^verbatim>\<open>WakeDelivery\<close> and \<^verbatim>\<open>Tick\<close> of
  \<^verbatim>\<open>servers/chat/service/LogicSystem.cpp\<close>: the first 32 unacknowledged messages of the receiver are
  read, the window of the session is reconciled with them, and those that are due are sent.
\<close>

definition notify_payload :: "text_message \<Rightarrow> json" where
  "notify_payload m =
     JObj [(''error'', code ERROR_CODE_OK), (''fromuid'', JInt (sender_uid m)), (''touid'', JInt (receiver_uid m)),
       (''text_array'', JArr [JObj [(''msgid'', JStr (client_message_id m)), (''content'', JStr (content m))]])]"

definition mark_sent :: "'r chat_env \<Rightarrow> string \<Rightarrow> text_message \<Rightarrow> time \<Rightarrow> 'r chat_world \<Rightarrow> 'r chat_world" where
  "mark_sent E sid m now w =
     (case sent (window (delivery_of E sid w)) m now of
        (again, win) \<Rightarrow>
          set_delivery E sid ((delivery_of E sid w)\<lparr>window := win\<rparr>)
            (w\<lparr>retries := retries w + (if again then 1 else 0), delivered := delivered w + 1\<rparr>))"

fun deliver_loop :: "'r chat_env \<Rightarrow> string \<Rightarrow> time \<Rightarrow> text_message list \<Rightarrow> ('r, unit) action" where
  "deliver_loop E sid now [] = io_return ()"
| "deliver_loop E sid now (m # ms) =
     io_bind (get_world (\<lambda>w. due (window (delivery_of E sid w)) m now)) (\<lambda>is_due.
       if \<not> is_due then deliver_loop E sid now ms
       else io_bind (send_json E sid (notify_payload m) ID_NOTIFY_TEXT_CHAT_MSG_REQ) (\<lambda>ok.
         if \<not> ok then io_return ()
         else io_then (upd_world (mark_sent E sid m now)) (deliver_loop E sid now ms)))"

definition back_off :: "delivery_state \<Rightarrow> time \<Rightarrow> bool \<Rightarrow> delivery_state" where
  "back_off s now quiet =
     (let idle = (if quiet then min (idle_seconds s * 2) 30 else 1)
      in s\<lparr>idle_seconds := idle, next_query := now + seconds (int idle)\<rparr>)"

definition DeliverPendingTextMessages :: "'r chat_env \<Rightarrow> string \<Rightarrow> int \<Rightarrow> ('r, unit) action" where
  "DeliverPendingTextMessages E sid receiver =
     io_bind (is_closed sid) (\<lambda>closed.
       if closed then io_return ()
       else io_bind (get_world (\<lambda>w. steady_now E (db_calls w))) (\<lambda>now.
         io_then (upd_world (\<lambda>w. set_delivery E sid (delivery_of E sid w) w))
           (io_bind (db_call E (\<lambda>e. GetPendingTextMessages e receiver (int Capacity))) (\<lambda>pending.
             case pending of
               None \<Rightarrow>
                 upd_world (\<lambda>w. set_delivery E sid (back_off (delivery_of E sid w) now True)
                   (w\<lparr>query_failures := query_failures w + 1\<rparr>))
             | Some ms \<Rightarrow>
                 io_then (upd_world (\<lambda>w. set_delivery E sid
                     (back_off ((delivery_of E sid w)\<lparr>window := reconcile (window (delivery_of E sid w)) ms\<rparr>) now (ms = [])) w))
                   (deliver_loop E sid now ms)))))"

definition WakeDelivery :: "'r chat_env \<Rightarrow> int \<Rightarrow> ('r, bool) action" where
  "WakeDelivery E uid =
     io_bind (session_of uid) (\<lambda>session.
       case session of
         None \<Rightarrow> io_return True
       | Some sid \<Rightarrow> io_bind (is_closed sid) (\<lambda>closed.
           if closed then io_return True
           else (\<lambda>w. if post_room E (posts w)
                     then (Returns True, w\<lparr>posts := posts w + 1, wakeups := wakeups w @ [(sid, uid)]\<rparr>)
                     else (Returns False, w\<lparr>posts := posts w + 1\<rparr>))))"

text \<open>
  The periodic scan of a shard: from the position after the last visited session, in the order of
  the identifiers and around the end, at most 128 sessions and 4 queries.
\<close>

definition next_key :: "string \<Rightarrow> string list \<Rightarrow> string option" where
  "next_key cursor ks =
     (let above = filter (\<lambda>k. cursor < k) ks
      in if above \<noteq> [] then Some (Min (set above)) else if ks \<noteq> [] then Some (Min (set ks)) else None)"

definition session_live :: "string \<Rightarrow> 'r chat_world \<Rightarrow> bool" where
  "session_live sid w \<longleftrightarrow> \<not> IsClosed sid (tbl w) \<and> GetSession_of (GetUserId sid (tbl w)) (tbl w) = Some sid"

fun tick_loop :: "'r chat_env \<Rightarrow> time \<Rightarrow> nat \<Rightarrow> nat \<Rightarrow> nat \<Rightarrow> ('r, unit) action" where
  "tick_loop E now shard 0 queries = io_return ()"
| "tick_loop E now shard (Suc budget) queries =
     (if queries \<ge> 4 then io_return ()
      else io_bind (get_world (\<lambda>w. next_key (delivery_cursor w shard) (keys (delivery w shard)))) (\<lambda>k.
        case k of
          None \<Rightarrow> io_return ()
        | Some sid \<Rightarrow>
            io_then (upd_world (\<lambda>w. w\<lparr>delivery_cursor := (delivery_cursor w)(shard := sid)\<rparr>))
              (io_bind (get_world (session_live sid)) (\<lambda>live.
                 if \<not> live
                 then io_then (upd_world (\<lambda>w. w\<lparr>delivery := (delivery w)(shard := AList.delete sid (delivery w shard))\<rparr>))
                        (tick_loop E now shard budget queries)
                 else io_bind (get_world (\<lambda>w. now \<ge> next_query (delivery_of E sid w))) (\<lambda>ready.
                   if ready
                   then io_then (io_bind (user_of sid) (DeliverPendingTextMessages E sid))
                          (tick_loop E now shard budget (queries + 1))
                   else tick_loop E now shard budget queries)))))"

definition Tick :: "'r chat_env \<Rightarrow> time \<Rightarrow> nat \<Rightarrow> ('r, unit) action" where
  "Tick E now shard =
     io_bind (get_world (\<lambda>w. min (length (delivery w shard)) 128)) (\<lambda>budget. tick_loop E now shard budget 0)"

section \<open>What a delivery sends\<close>

definition notify_frame :: "'r chat_env \<Rightarrow> text_message \<Rightarrow> byte list" where
  "notify_frame E m = SendNode (bytes_of (toStyledString (lib E) (notify_payload m))) ID_NOTIFY_TEXT_CHAT_MSG_REQ"

text \<open>The queue of an open session has room for all of these frames.\<close>

definition room_for :: "string \<Rightarrow> byte list list \<Rightarrow> 'r chat_world \<Rightarrow> bool" where
  "room_for sid fs w \<longleftrightarrow>
     \<not> IsClosed sid (tbl w) \<and> send_inv (send_side (objects (tbl w) sid)) \<and> (\<forall>f \<in> set fs. length f \<le> 65539)
     \<and> length (outbox sid w) + length fs \<le> MAX_SENDQUE
     \<and> sum_list (map length (outbox sid w @ fs)) \<le> 4 * 1024 * 1024"

lemma Send_accepts:
  assumes "send_inv s" and "\<not> b_close s" and "length msg \<le> 65535" and "length (send_que s) < MAX_SENDQUE"
    and "queued_bytes s + length msg + HEAD_TOTAL_LEN \<le> 4 * 1024 * 1024"
  shows "fst (Send msg i s)"
proof -
  have b: "unat (send_bytes s) = queued_bytes s"
    using assms(1) by (simp add: send_inv_def)
  then have "send_bytes s \<le> SendByteLimit"
    using assms(5) by (simp add: word_le_nat_alt SendByteLimit_def)
  then have "unat (SendByteLimit - send_bytes s) = 4 * 1024 * 1024 - queued_bytes s"
    using b by (simp add: unat_sub SendByteLimit_def)
  moreover have "unat (word_of_nat (length msg + HEAD_TOTAL_LEN) :: 64 word) = length msg + HEAD_TOTAL_LEN"
    using assms(3) by (simp only: unat_of_nat) simp
  ultimately have "\<not> (word_of_nat (length msg + HEAD_TOTAL_LEN) :: 64 word) > SendByteLimit - send_bytes s"
    using assms(5) by (simp only: word_less_nat_alt)
  then show ?thesis
    using assms(2-4) by (cases "send_que s = []") (simp_all add: Send_def Let_def)
qed

lemma Send_queue:
  "Send msg i s = (r, s') \<Longrightarrow> send_que s' = (if r then send_que s @ [SendNode msg i] else send_que s)"
  by (cases rule: Send_cases [of msg i s]) (auto simp: close_send_def)

lemma send_json_cases:
  assumes "send_json E sid v i w = (res, w')"
  obtains (sent) "res = Returns True" "outbox sid w' = outbox sid w @ [SendNode (bytes_of (toStyledString (lib E) v)) i]"
      "\<exists>t. w' = w\<lparr>tbl := t\<rparr>" "IsClosed sid (tbl w') = IsClosed sid (tbl w)"
      "send_inv (send_side (objects (tbl w) sid)) \<Longrightarrow> send_inv (send_side (objects (tbl w') sid))"
  | (refused) "res = Returns False" "outbox sid w' = outbox sid w" "\<exists>t. w' = w\<lparr>tbl := t\<rparr>"
      "\<And>fs. \<not> room_for sid (SendNode (bytes_of (toStyledString (lib E) v)) i # fs) w"
proof -
  let ?msg = "bytes_of (toStyledString (lib E) v)"
  obtain r t where t: "session_send ?msg i sid (tbl w) = (r, t)"
    by fastforce
  then have w': "res = Returns r" "w' = w\<lparr>tbl := t\<rparr>"
    using assms by (simp_all add: send_json_def send_raw_def)
  show thesis
  proof (cases "length ?msg > 65535")
    case True
    have "outbox sid (w\<lparr>tbl := CloseSession sid (tbl w)\<rparr>) = outbox sid w"
      by (simp add: outbox_def CloseSession_def close_send_def)
    then show ?thesis
      using t w' True by (intro refused) (auto simp: session_send_def room_for_def)
  next
    case False
    obtain x where x: "Send ?msg i (send_side (objects (tbl w) sid)) = (r, x)"
      and t': "t = set_session sid ((objects (tbl w) sid)\<lparr>send_side := x\<rparr>) (tbl w)"
      using t False by (auto simp: session_send_def split: prod.splits)
    have que: "outbox sid w' = (if r then outbox sid w @ [SendNode ?msg i] else outbox sid w)"
      using Send_queue [OF x] by (simp add: outbox_def w'(2) t')
    show ?thesis
    proof (cases r)
      case True
      have "b_close x = b_close (send_side (objects (tbl w) sid))"
        using b_close_Send [of ?msg i] x False by (metis linorder_not_less snd_conv)
      moreover have "send_inv (send_side (objects (tbl w) sid)) \<Longrightarrow> send_inv x"
        using send_inv_Send [of _ ?msg i] x by (metis snd_conv)
      ultimately show ?thesis
        using True w' que t' by (intro sent) (auto simp: IsClosed_def)
    next
      case refuse: False
      have "\<not> room_for sid (SendNode ?msg i # fs) w" for fs
        using Send_accepts [of "send_side (objects (tbl w) sid)" ?msg i] x refuse
        by (auto simp: room_for_def IsClosed_def outbox_def queued_bytes_def)
      then show ?thesis
        using refuse w' que by (intro refused) auto
    qed
  qed
qed

lemma delivery_of_set [simp]: "delivery_of E sid (set_delivery E sid s w) = s"
  by (simp add: delivery_of_def set_delivery_def update_conv')

lemma set_delivery_simps [simp]:
  "tbl (set_delivery E sid s w) = tbl w" "cdb (set_delivery E sid s w) = cdb w"
  "outbox x (set_delivery E sid s w) = outbox x w" "query_failures (set_delivery E sid s w) = query_failures w"
  "db_calls (set_delivery E sid s w) = db_calls w" "rds (set_delivery E sid s w) = rds w"
  by (simp_all add: set_delivery_def outbox_def)

lemma mark_sent_simps [simp]:
  "tbl (mark_sent E sid m now w) = tbl w" "cdb (mark_sent E sid m now w) = cdb w"
  "outbox x (mark_sent E sid m now w) = outbox x w" "query_failures (mark_sent E sid m now w) = query_failures w"
  "db_calls (mark_sent E sid m now w) = db_calls w" "rds (mark_sent E sid m now w) = rds w"
  "window (delivery_of E sid (mark_sent E sid m now w)) = snd (sent (window (delivery_of E sid w)) m now)"
  by (simp_all add: mark_sent_def outbox_def split: prod.split)

lemma delivery_of_tbl [simp]: "delivery_of E sid (w\<lparr>tbl := t\<rparr>) = delivery_of E sid w"
  by (simp add: delivery_of_def)

definition note_sent :: "time \<Rightarrow> text_message list \<Rightarrow> delivery_window \<Rightarrow> delivery_window" where
  "note_sent now ms win = fold (\<lambda>m win. snd (sent win m now)) ms win"

lemma note_sent_simps [simp]: "note_sent now [] win = win"
  "note_sent now (m # ms) win = note_sent now ms (snd (sent win m now))"
  by (simp_all add: note_sent_def)

lemma deliver_loop_result:
  assumes "distinct (map message_key ms)" and "deliver_loop E sid now ms w = (res, w')"
  shows "\<exists>k. let out = take k (filter (\<lambda>m. due (window (delivery_of E sid w)) m now) ms) in
     res = Returns () \<and> outbox sid w' = outbox sid w @ map (notify_frame E) out
     \<and> window (delivery_of E sid w') = note_sent now out (window (delivery_of E sid w))
     \<and> cdb w' = cdb w \<and> query_failures w' = query_failures w \<and> db_calls w' = db_calls w \<and> rds w' = rds w
     \<and> (room_for sid (map (notify_frame E) (filter (\<lambda>m. due (window (delivery_of E sid w)) m now) ms)) w
        \<longrightarrow> out = filter (\<lambda>m. due (window (delivery_of E sid w)) m now) ms)"
  using assms
proof (induction ms arbitrary: w)
  case Nil
  then show ?case by (simp add: io_return_def)
next
  case (Cons m ms)
  let ?win = "window (delivery_of E sid w)"
  show ?case
  proof (cases "due ?win m now")
    case False
    then have "deliver_loop E sid now ms w = (res, w')"
      using Cons.prems(2) by (simp add: io_bind_def get_world_def)
    from Cons.IH [OF _ this] show ?thesis
      using Cons.prems(1) False by simp
  next
    case True
    let ?f = "filter (\<lambda>m. due ?win m now) ms"
    obtain r w1 where send: "send_json E sid (notify_payload m) ID_NOTIFY_TEXT_CHAT_MSG_REQ w = (r, w1)"
      by fastforce
    show ?thesis
      using send
    proof (cases rule: send_json_cases)
      case sent
      let ?w2 = "mark_sent E sid m now w1"
      have "deliver_loop E sid now ms ?w2 = (res, w')"
        using Cons.prems(2) True send sent(1) by (simp add: io_bind_def io_then_def get_world_def upd_world_def)
      from Cons.IH [OF _ this] obtain k where k:
        "res = Returns ()" "outbox sid w' = outbox sid ?w2 @ map (notify_frame E) (take k (filter (\<lambda>m. due (window (delivery_of E sid ?w2)) m now) ms))"
        "window (delivery_of E sid w') = note_sent now (take k (filter (\<lambda>m. due (window (delivery_of E sid ?w2)) m now) ms)) (window (delivery_of E sid ?w2))"
        "cdb w' = cdb ?w2" "query_failures w' = query_failures ?w2" "db_calls w' = db_calls ?w2" "rds w' = rds ?w2"
        "room_for sid (map (notify_frame E) (filter (\<lambda>m. due (window (delivery_of E sid ?w2)) m now) ms)) ?w2
          \<longrightarrow> take k (filter (\<lambda>m. due (window (delivery_of E sid ?w2)) m now) ms) = filter (\<lambda>m. due (window (delivery_of E sid ?w2)) m now) ms"
        using Cons.prems(1) unfolding Let_def by auto
      have w1: "window (delivery_of E sid w1) = ?win" "cdb w1 = cdb w" "query_failures w1 = query_failures w" "db_calls w1 = db_calls w" "rds w1 = rds w"
        using sent(3) by auto
      have f: "filter (\<lambda>m. due (window (delivery_of E sid ?w2)) m now) ms = ?f"
      proof (rule filter_cong [OF refl])
        fix x
        assume "x \<in> set ms"
        then have "message_key x \<noteq> message_key m"
          using Cons.prems(1) by simp (metis imageI)
        then show "due (window (delivery_of E sid ?w2)) x now = due ?win x now"
          by (simp add: w1 due_sent_other)
      qed
      have room: "room_for sid (map (notify_frame E) ?f) ?w2" if "room_for sid (map (notify_frame E) (m # ?f)) w"
        using that sent by (auto simp: room_for_def notify_frame_def)
      show ?thesis
        using k sent(2) w1 room True unfolding f Let_def
        by (intro exI [of _ "Suc k"]) (auto simp: notify_frame_def)
    next
      case refused
      then have "res = Returns ()" "w' = w1"
        using Cons.prems(2) True send by (auto simp: io_bind_def get_world_def io_return_def)
      then show ?thesis
        using refused True by (intro exI [of _ 0]) (auto simp: notify_frame_def Let_def)
    qed
  qed
qed

lemma note_sent_inv: "window_inv win \<Longrightarrow> window_inv (note_sent now ms win)"
  by (induction ms arbitrary: win) simp_all

lemma note_sent_keys: "set (keys (note_sent now ms win)) = set (keys win) \<union> message_key ` set ms"
  by (induction ms arbitrary: win) (auto simp: sent_keys)

lemma pending_keys_distinct:
  assumes "messages_ok ck d"
  shows "distinct (map message_key (take n (pending_messages u d)))"
proof -
  have "distinct (map (message_col_key ck) (message_rows d))"
    using assms by (simp add: messages_ok_def)
  then have "distinct (map (\<lambda>r. message_key (m_msg r)) (message_rows d))"
    unfolding distinct_map inj_on_def by (auto simp: message_col_key_def message_key_def)
  then have "distinct (map message_key (pending_messages u d))"
    by (simp add: pending_messages_def comp_def distinct_map_filter)
  then show ?thesis
    by (simp add: take_map [symmetric])
qed

lemma DeliverPending_result:
  fixes E :: "'r chat_env"
  assumes "messages_ok ck (cdb w)" and "DeliverPendingTextMessages E sid u w = (res, w')"
    and "\<not> IsClosed sid (tbl w)" and "window_inv (window (delivery_of E sid w))"
  defines "now \<equiv> steady_now E (db_calls w)"
    and "P \<equiv> take Capacity (pending_messages u (cdb w))"
    and "win \<equiv> window (delivery_of E sid w)"
  shows "res = Returns () \<and> cdb w' = cdb w \<and> db_calls w' = db_calls w + 1 \<and> rds w' = rds w
    \<and> (query_failures w' = query_failures w + 1 \<and> outbox sid w' = outbox sid w
         \<and> window (delivery_of E sid w') = win
       \<or> query_failures w' = query_failures w
         \<and> (\<exists>out. (\<exists>k. out = take k (filter (\<lambda>m. due win m now) P))
              \<and> outbox sid w' = outbox sid w @ map (notify_frame E) out
              \<and> window (delivery_of E sid w') = note_sent now out (reconcile win P)
              \<and> (room_for sid (map (notify_frame E) (filter (\<lambda>m. due win m now) P)) w \<longrightarrow> out = filter (\<lambda>m. due win m now) P)))"
proof -
  let ?w1 = "set_delivery E sid (delivery_of E sid w) w"
  let ?w2 = "?w1\<lparr>cdb := cdb w, db_calls := db_calls w + 1\<rparr>"
  obtain r d where q: "GetPendingTextMessages (db_env E (db_calls w)) u (int Capacity) (cdb w) = (r, d)"
    by fastforce
  have d: "d = cdb w" "r = Returns None \<or> r = Returns (Some P)"
    using GetPendingTextMessages_spec [OF q] by (auto simp: P_def)
  have del: "delivery_of E sid ?w2 = delivery_of E sid w"
    using delivery_of_set [of E sid "delivery_of E sid w" w] by (simp add: delivery_of_def)
  show ?thesis
  proof (cases "r = Returns None")
    case True
    then have "res = Returns ()" "w' = set_delivery E sid (back_off (delivery_of E sid w) now True)
        (?w2\<lparr>query_failures := query_failures w + 1\<rparr>)"
      using assms(2,3) q d(1) del
      by (simp_all add: DeliverPendingTextMessages_def io_bind_def io_then_def get_world_def upd_world_def is_closed_def
          db_call_def now_def)
    then show ?thesis
      by (simp add: back_off_def Let_def win_def outbox_def)
  next
    case False
    then have r: "r = Returns (Some P)"
      using d(2) by simp
    let ?s = "back_off ((delivery_of E sid w)\<lparr>window := reconcile win P\<rparr>) now (P = [])"
    let ?w3 = "set_delivery E sid ?s ?w2"
    have run: "deliver_loop E sid now P ?w3 = (res, w')"
      using assms(2,3) q d(1) del r
      by (simp add: DeliverPendingTextMessages_def io_bind_def io_then_def get_world_def upd_world_def is_closed_def
          db_call_def now_def win_def)
    have w3: "window (delivery_of E sid ?w3) = reconcile win P" "outbox sid ?w3 = outbox sid w"
      by (simp_all add: back_off_def Let_def outbox_def)
    have f: "filter (\<lambda>m. due (reconcile win P) m now) P = filter (\<lambda>m. due win m now) P"
      by (rule filter_cong) (simp_all add: due_reconcile)
    have room: "room_for sid fs ?w3 \<longleftrightarrow> room_for sid fs w" for fs
      by (simp add: room_for_def outbox_def)
    have dist: "distinct (map message_key P)"
      unfolding P_def by (rule pending_keys_distinct [OF assms(1)])
    from deliver_loop_result [OF dist run] show ?thesis
      unfolding w3 f room Let_def by (auto simp: set_delivery_def)
  qed
qed

text \<open>
  C7: A delivery sends to the session, in their stored order, messages that are stored for that
  receiver, unacknowledged and due: the ones it sends are the first of the due ones among the 32
  oldest, and all of these if the queue of the session has room. A failed query sends nothing and
  forgets nothing. The database is only read, and the window never holds more than 32 messages.
\<close>

theorem delivery_exact:
  fixes E :: "'r chat_env"
  assumes "messages_ok ck (cdb w)" and "DeliverPendingTextMessages E sid u w = (res, w')"
    and "\<not> IsClosed sid (tbl w)" and "window_inv (window (delivery_of E sid w))"
    and "length (window (delivery_of E sid w)) \<le> Capacity"
  shows "let ready = filter (\<lambda>m. due (window (delivery_of E sid w)) m (steady_now E (db_calls w)))
                       (take Capacity (pending_messages u (cdb w))) in
    cdb w' = cdb w \<and> length (window (delivery_of E sid w')) \<le> Capacity
    \<and> (if query_failures w' = query_failures w
       then (\<exists>k. outbox sid w' = outbox sid w @ map (notify_frame E) (take k ready)
               \<and> (room_for sid (map (notify_frame E) ready) w \<longrightarrow> take k ready = ready))
       else outbox sid w' = outbox sid w \<and> window (delivery_of E sid w') = window (delivery_of E sid w))"
proof -
  let ?win = "window (delivery_of E sid w)"
  let ?P = "take Capacity (pending_messages u (cdb w))"
  let ?now = "steady_now E (db_calls w)"
  have small: "length (note_sent ?now out (reconcile ?win ?P)) \<le> Capacity" if "set out \<subseteq> set ?P" for out
  proof -
    have "wf_alist (note_sent ?now out (reconcile ?win ?P))"
      using assms(4) by (intro window_inv_wf note_sent_inv) simp
    moreover have "set (keys (note_sent ?now out (reconcile ?win ?P))) \<subseteq> set (map message_key ?P)"
      using that by (auto simp: note_sent_keys reconcile_keys)
    ultimately have "length (note_sent ?now out (reconcile ?win ?P)) \<le> length (map message_key ?P)"
      by (rule alist_length_le)
    then show ?thesis
      by simp
  qed
  have sub: "set (take k (filter (\<lambda>m. due ?win m ?now) ?P)) \<subseteq> set ?P" for k
    using set_take_subset [of k "filter (\<lambda>m. due ?win m ?now) ?P"] by auto
  consider "cdb w' = cdb w" "query_failures w' = query_failures w + 1" "outbox sid w' = outbox sid w"
      "window (delivery_of E sid w') = ?win"
    | k where "cdb w' = cdb w" "query_failures w' = query_failures w"
      "outbox sid w' = outbox sid w @ map (notify_frame E) (take k (filter (\<lambda>m. due ?win m ?now) ?P))"
      "window (delivery_of E sid w') = note_sent ?now (take k (filter (\<lambda>m. due ?win m ?now) ?P)) (reconcile ?win ?P)"
      "room_for sid (map (notify_frame E) (filter (\<lambda>m. due ?win m ?now) ?P)) w
         \<longrightarrow> take k (filter (\<lambda>m. due ?win m ?now) ?P) = filter (\<lambda>m. due ?win m ?now) ?P"
    using DeliverPending_result [OF assms(1-4)] by blast
  then show ?thesis
  proof cases
    case 1
    then show ?thesis
      using assms(5) by simp
  next
    case (2 k)
    then show ?thesis
      using small [OF sub [of k]] unfolding Let_def by (auto intro: exI [of _ k])
  qed
qed

text \<open>A server with one session and the database of the message examples, for the examples.\<close>

definition sample_env :: "(time \<times> keyspace) chat_env" where
  "sample_env = \<lparr>link = local_redis, lib = \<lparr>parse_json = (\<lambda>_. None), toStyledString = (\<lambda>_. ''{}''), real_text = (\<lambda>_. [])\<rparr>,
     self_name = ''chat1'', collate = (\<lambda>x. x), column_fit = (\<lambda>x. x),
     db_env = (\<lambda>_. \<lparr>available = True, sql_faults = [], sql_now = 0\<rparr>),
     profile_env = (\<lambda>_ _. \<lparr>available = True, sql_faults = [], sql_now = 0\<rparr>), steady_now = (\<lambda>n. seconds (int n)),
     session_hash = length, shard_count = 4, post_room = (\<lambda>_. True), resource_endpoints = [], internal_token = ''t'',
     channel_opens = (\<lambda>_ _. True), list_pending = (\<lambda>_ _ _ _. None),
     fresh_token = ''t'', tokenDigest = (\<lambda>x. x), peer_error = (\<lambda>_ _. 0)\<rparr>"

definition sample_world :: "chat_db \<Rightarrow> (time \<times> keyspace) chat_world" where
  "sample_world d = \<lparr>tbl = empty_table, rds = (0, Map.empty), cdb = d, db_calls = 0, delivery = (\<lambda>_. []), delivery_cursor = (\<lambda>_. []),
     posts = 0, notifications = [], wakeups = [], peer_calls = [], touched = [], delivered = 0, retries = 0, ack_failures = 0, query_failures = 0\<rparr>"

lemma sample_world_ok:
  "messages_ok (\<lambda>x. x) sample_db" "\<not> IsClosed sid (tbl (sample_world d))" "delivery_of sample_env sid (sample_world d) = new_delivery"
  by (simp_all add: messages_ok_def sample_simps sample_world_def IsClosed_def empty_table_def new_session_def new_send_side_def
      delivery_of_def)

theorem delivery_exact_witness:
  "\<exists>res w'. DeliverPendingTextMessages sample_env ''s'' 2 (sample_world sample_db) = (res, w')
     \<and> cdb w' = sample_db \<and> length (window (delivery_of sample_env ''s'' w')) \<le> Capacity"
proof -
  obtain res w' where r: "DeliverPendingTextMessages sample_env ''s'' 2 (sample_world sample_db) = (res, w')"
    by fastforce
  have "cdb (sample_world sample_db) = sample_db"
    by (simp add: sample_world_def)
  then show ?thesis
    using delivery_exact [of "\<lambda>x. x", OF _ r] r sample_world_ok by (auto simp: new_delivery_def Let_def)
qed

end
