(* ===== verification/Delivery_Scan.thy ===== *)
theory Delivery_Scan
  imports Message_Delivery
begin

text \<open>
  The periodic scan of a shard does bounded work and serves every session in turn. The place of a
  session is measured by its rank: the number of sessions that the cursor reaches before it.
\<close>

definition rank :: "string \<Rightarrow> string \<Rightarrow> string set \<Rightarrow> nat" where
  "rank c k K = card {x \<in> K. if c < k then c < x \<and> x < k else c < x \<or> x < k}"

lemma next_key_None: "next_key c ks = None \<longleftrightarrow> ks = []"
  by (auto simp: next_key_def Let_def)

lemma next_key_cases:
  assumes "next_key c ks = Some n"
  obtains (above) "n \<in> set ks" "c < n" "\<forall>x \<in> set ks. c < x \<longrightarrow> n \<le> x"
  | (wrap) "n \<in> set ks" "n \<le> c" "\<forall>x \<in> set ks. x \<le> c" "\<forall>x \<in> set ks. n \<le> x"
proof (cases "filter (\<lambda>k. c < k) ks = []")
  case True
  then have ks: "ks \<noteq> []" "n = Min (set ks)"
    using assms by (auto simp: next_key_def Let_def split: if_splits)
  have "\<forall>x \<in> set ks. x \<le> c"
    using True by (auto simp: filter_empty_conv)
  then show ?thesis
    using wrap ks Min_in [of "set ks"] Min_le [of "set ks"] by auto
next
  case False
  then have n: "n = Min (set (filter (\<lambda>k. c < k) ks))"
    using assms by (simp add: next_key_def Let_def)
  have "set (filter (\<lambda>k. c < k) ks) \<noteq> {}"
    using False by (metis set_empty)
  then have "n \<in> set (filter (\<lambda>k. c < k) ks)"
    unfolding n by (intro Min_in) auto
  moreover have "\<forall>x \<in> set (filter (\<lambda>k. c < k) ks). n \<le> x"
    unfolding n by auto
  ultimately show ?thesis
    using above by auto
qed

lemma rank_next:
  assumes "next_key c ks = Some n" and "k \<in> set ks" and "n \<noteq> k" and "K \<subseteq> set ks"
  shows "rank n k K + 1 \<le> rank c k (set ks)"
proof -
  let ?A = "{x \<in> K. if n < k then n < x \<and> x < k else n < x \<or> x < k}"
  let ?B = "{x \<in> set ks. if c < k then c < x \<and> x < k else c < x \<or> x < k}"
  have "?A \<subseteq> ?B - {n} \<and> n \<in> ?B"
    using assms(1)
  proof (cases rule: next_key_cases)
    case above
    then show ?thesis
      using assms(2-4) by (auto split: if_splits)
  next
    case wrap
    then have "n < k" "k \<le> c"
      using assms(2,3) by (auto simp: order.strict_iff_order)
    then show ?thesis
      using wrap assms(4) by (auto split: if_splits)
  qed
  then have sub: "?A \<subseteq> ?B - {n}" and n: "n \<in> ?B"
    by simp_all
  have fin: "finite ?B"
    by simp
  have "card ?A \<le> card (?B - {n})"
    by (rule card_mono [OF _ sub]) simp
  moreover have "Suc (card (?B - {n})) = card ?B"
    by (rule card_Suc_Diff1 [OF fin n])
  ultimately have "card ?A + 1 \<le> card ?B"
    by linarith
  then show ?thesis
    unfolding rank_def .
qed

lemma rank_mono: "K \<subseteq> L \<Longrightarrow> finite L \<Longrightarrow> rank c k K \<le> rank c k L"
  unfolding rank_def by (rule card_mono) auto

lemma rank_bound:
  assumes "finite K" and "k \<in> K"
  shows "rank c k K < card K"
proof -
  have "{x \<in> K. if c < k then c < x \<and> x < k else c < x \<or> x < k} \<subseteq> K - {k}"
    by auto
  then have "rank c k K \<le> card (K - {k})"
    unfolding rank_def by (rule card_mono [rotated]) (simp add: assms(1))
  then show ?thesis
    using assms by (metis card_Diff1_less order.strict_trans1)
qed

section \<open>Which sessions stay alive\<close>

text \<open>
  Sending to a session changes the life of no other session and revives none, and ends that of the session
  itself only if an announcement does not fit a frame.
\<close>

definition fits :: "'r chat_env \<Rightarrow> bool" where
  "fits E \<longleftrightarrow> (\<forall>m. length (bytes_of (toStyledString (lib E) (notify_payload m))) \<le> 65535)"

definition spares_others :: "'r chat_env \<Rightarrow> string \<Rightarrow> 'r chat_world \<Rightarrow> 'r chat_world \<Rightarrow> bool" where
  "spares_others E sid w w' \<longleftrightarrow> (\<forall>k. k \<noteq> sid \<longrightarrow> session_live k w' = session_live k w) \<and> (session_live sid w' \<longrightarrow> session_live sid w)
     \<and> (fits E \<longrightarrow> session_live sid w' = session_live sid w)"

lemma spares_refl: "spares_others E sid w w"
  by (simp add: spares_others_def)

lemma spares_trans: "spares_others E sid u v \<Longrightarrow> spares_others E sid v w \<Longrightarrow> spares_others E sid u w"
  by (auto simp: spares_others_def)

lemma spares_tbl: "tbl w' = tbl w \<Longrightarrow> spares_others E sid w w'"
  by (simp add: spares_others_def session_live_def)

lemma spares_send:
  assumes "session_send m i sid (tbl w) = (r, t)" and "m = bytes_of (toStyledString (lib E) (notify_payload x))"
  shows "spares_others E sid w (w\<lparr>tbl := t\<rparr>)"
proof (cases "length m > 65535")
  case True
  then have "t = CloseSession sid (tbl w)"
    using assms by (simp add: session_send_def)
  moreover have "\<not> fits E"
    using True assms(2) by (auto simp: fits_def not_le)
  ultimately show ?thesis
    by (auto simp: spares_others_def session_live_def CloseSession_def ClearSession_def RmvUserSession_def GetUserId_def GetSession_of_def IsClosed_def
        close_send_def Let_def set_session_def split: if_splits)
next
  case False
  have t: "t = snd (session_send m i sid (tbl w))"
    using assms by simp
  have "GetUserId k t = GetUserId k (tbl w) \<and> GetSession_of u t = GetSession_of u (tbl w) \<and> IsClosed k t = IsClosed k (tbl w)" for k u
    using False unfolding t by (simp add: GetSession_of_def session_send_simps)
  then show ?thesis
    by (simp add: spares_others_def session_live_def)
qed

section \<open>What a delivery does to the delivery states\<close>

definition state_ok :: "delivery_state \<Rightarrow> bool" where
  "state_ok st \<longleftrightarrow> 1 \<le> idle_seconds st \<and> idle_seconds st \<le> 30 \<and> window_inv (window st)"

definition delivery_ok :: "'r chat_env \<Rightarrow> 'r chat_world \<Rightarrow> bool" where
  "delivery_ok E w \<longleftrightarrow> (\<forall>s k st. map_of (delivery w s) k = Some st \<longrightarrow> shard_of_session E k = s \<and> state_ok st)"

text \<open>Two states that differ in the delivery state of one session only, which keeps its times.\<close>

definition same_times :: "'r chat_env \<Rightarrow> string \<Rightarrow> 'r chat_world \<Rightarrow> 'r chat_world \<Rightarrow> bool" where
  "same_times E sid w w' \<longleftrightarrow>
     (\<forall>s k. \<not> (s = shard_of_session E sid \<and> k = sid) \<longrightarrow> map_of (delivery w' s) k = map_of (delivery w s) k)
     \<and> delivery_cursor w' = delivery_cursor w \<and> db_calls w' = db_calls w
     \<and> (\<exists>st st'. map_of (delivery w (shard_of_session E sid)) sid = Some st \<and> map_of (delivery w' (shard_of_session E sid)) sid = Some st'
          \<and> next_query st' = next_query st \<and> idle_seconds st' = idle_seconds st
          \<and> (window_inv (window st) \<longrightarrow> window_inv (window st')))"

lemma same_times_refl: "map_of (delivery w (shard_of_session E sid)) sid = Some st \<Longrightarrow> same_times E sid w w"
  by (simp add: same_times_def)

lemma same_times_trans: "same_times E sid u v \<Longrightarrow> same_times E sid v w \<Longrightarrow> same_times E sid u w"
  by (clarsimp simp: same_times_def)

lemma map_of_set_delivery:
  "map_of (delivery (set_delivery E sid st w) s) k =
     (if s = shard_of_session E sid \<and> k = sid then Some st else map_of (delivery w s) k)"
  by (simp add: set_delivery_def update_conv')

lemma same_times_mark_sent:
  assumes "map_of (delivery w (shard_of_session E sid)) sid = Some st"
  shows "same_times E sid w (mark_sent E sid m now w)"
  using assms sent_inv [of "window st" m now]
  by (auto simp: same_times_def mark_sent_def map_of_set_delivery delivery_of_def set_delivery_def update_conv' case_prod_beta)

lemma deliver_loop_times:
  assumes "deliver_loop E sid now ms w = (res, w')" and "map_of (delivery w (shard_of_session E sid)) sid = Some st"
  shows "res = Returns () \<and> same_times E sid w w' \<and> spares_others E sid w w'"
  using assms
proof (induction ms arbitrary: w st)
  case Nil
  then show ?case by (simp add: io_return_def same_times_refl spares_refl)
next
  case (Cons m ms)
  show ?case
  proof (cases "due (window (delivery_of E sid w)) m now")
    case False
    then have "deliver_loop E sid now ms w = (res, w')"
      using Cons.prems(1) by (simp add: io_bind_def get_world_def)
    then show ?thesis
      using Cons.IH Cons.prems(2) by blast
  next
    case True
    obtain r t where send: "session_send (bytes_of (toStyledString (lib E) (notify_payload m))) ID_NOTIFY_TEXT_CHAT_MSG_REQ sid (tbl w) = (r, t)"
      by fastforce
    let ?w1 = "w\<lparr>tbl := t\<rparr>"
    have w1: "map_of (delivery ?w1 (shard_of_session E sid)) sid = Some st" "same_times E sid w ?w1" "spares_others E sid w ?w1"
      using Cons.prems(2) spares_send [OF send refl] by (simp_all add: same_times_def)
    show ?thesis
    proof (cases r)
      case False
      then show ?thesis
        using Cons.prems(1) True send w1 by (simp add: io_bind_def get_world_def send_json_def send_raw_def io_return_def)
    next
      case sent: True
      let ?w2 = "mark_sent E sid m now ?w1"
      have run: "deliver_loop E sid now ms ?w2 = (res, w')"
        using Cons.prems(1) True send sent
        by (simp add: io_bind_def io_then_def get_world_def send_json_def send_raw_def upd_world_def)
      have t2: "same_times E sid ?w1 ?w2"
        by (rule same_times_mark_sent [OF w1(1)])
      then obtain st2 where "map_of (delivery ?w2 (shard_of_session E sid)) sid = Some st2"
        unfolding same_times_def by blast
      from Cons.IH [OF run this] show ?thesis
        using same_times_trans [OF same_times_trans [OF w1(2) t2]] spares_trans [OF spares_trans [OF w1(3) spares_tbl [of ?w2 ?w1 E sid]]] by simp
    qed
  qed
qed

lemma DeliverPending_times:
  assumes "DeliverPendingTextMessages E sid u w = (res, w')" and "\<not> IsClosed sid (tbl w)" and "delivery_ok E w"
  shows "res = Returns () \<and> delivery_cursor w' = delivery_cursor w \<and> db_calls w' = db_calls w + 1 \<and> spares_others E sid w w'
    \<and> (\<exists>st. state_ok st \<and> next_query st > steady_now E (db_calls w)
         \<and> (\<forall>s k. map_of (delivery w' s) k = (if s = shard_of_session E sid \<and> k = sid then Some st else map_of (delivery w s) k)))"
proof -
  let ?now = "steady_now E (db_calls w)"
  let ?w2 = "(set_delivery E sid (delivery_of E sid w) w)\<lparr>cdb := cdb w, db_calls := db_calls w + 1\<rparr>"
  obtain r d where q: "GetPendingTextMessages (db_env E (db_calls w)) u (int Capacity) (cdb w) = (r, d)"
    by fastforce
  have d: "d = cdb w" "r = Returns None \<or> (\<exists>ms. r = Returns (Some ms))"
    using GetPendingTextMessages_spec [OF q] by auto
  have del: "delivery_of E sid ?w2 = delivery_of E sid w"
    using delivery_of_set [of E sid "delivery_of E sid w" w] by (simp add: delivery_of_def)
  have ok: "state_ok (delivery_of E sid w)"
    using assms(3) by (auto simp: delivery_ok_def delivery_of_def new_delivery_def state_ok_def split: option.split)
  have later: "state_ok (back_off (delivery_of E sid w\<lparr>window := win\<rparr>) ?now b)"
    "next_query (back_off (delivery_of E sid w\<lparr>window := win\<rparr>) ?now b) > ?now"
    if "window_inv win" for win b
    using ok that by (auto simp: back_off_def state_ok_def Let_def)
  show ?thesis
  proof (cases "r = Returns None")
    case True
    then have "res = Returns ()" "w' = set_delivery E sid (back_off (delivery_of E sid w) ?now True)
        (?w2\<lparr>query_failures := query_failures w + 1\<rparr>)"
      using assms(1,2) q d(1) del
      by (simp_all add: DeliverPendingTextMessages_def io_bind_def io_then_def get_world_def upd_world_def is_closed_def db_call_def)
    moreover have "tbl w' = tbl w"
      using calculation by (simp add: set_delivery_def)
    ultimately show ?thesis
      using later [of "window (delivery_of E sid w)" True] ok spares_tbl [of w' w E sid]
      by (auto simp: map_of_set_delivery set_delivery_def state_ok_def update_conv')
  next
    case False
    then obtain ms where r: "r = Returns (Some ms)"
      using d(2) by blast
    let ?s = "back_off ((delivery_of E sid w)\<lparr>window := reconcile (window (delivery_of E sid w)) ms\<rparr>) ?now (ms = [])"
    let ?w3 = "set_delivery E sid ?s ?w2"
    have run: "deliver_loop E sid ?now ms ?w3 = (res, w')"
      using assms(1,2) q d(1) del r
      by (simp add: DeliverPendingTextMessages_def io_bind_def io_then_def get_world_def upd_world_def is_closed_def db_call_def)
    have w3: "map_of (delivery ?w3 (shard_of_session E sid)) sid = Some ?s"
      by (simp add: map_of_set_delivery)
    have s: "state_ok ?s" "next_query ?s > ?now"
      using later [of "reconcile (window (delivery_of E sid w)) ms" "ms = []"] ok by (auto simp: state_ok_def)
    obtain st where "map_of (delivery w' (shard_of_session E sid)) sid = Some st" "next_query st = next_query ?s"
      "idle_seconds st = idle_seconds ?s" "window_inv (window st)"
      using deliver_loop_times [OF run w3] w3 s(1) unfolding same_times_def state_ok_def by auto
    moreover have "spares_others E sid w ?w3"
      by (rule spares_tbl) (simp add: set_delivery_def)
    ultimately show ?thesis
      using deliver_loop_times [OF run w3] s spares_trans [of E sid w ?w3 w']
      by (intro conjI exI [of _ st]) (auto simp: same_times_def state_ok_def map_of_set_delivery set_delivery_def update_conv')
  qed
qed

section \<open>The scan\<close>

text \<open>A session needs no query at this time: its next one is later. A session is gone if it has no delivery state.\<close>

definition resting :: "time \<Rightarrow> nat \<Rightarrow> string \<Rightarrow> 'r chat_world \<Rightarrow> bool" where
  "resting now shard k w \<longleftrightarrow> (\<exists>st. map_of (delivery w shard) k = Some st \<and> next_query st > now)"

definition gone :: "nat \<Rightarrow> string \<Rightarrow> 'r chat_world \<Rightarrow> bool" where
  "gone shard k w \<longleftrightarrow> map_of (delivery w shard) k = None"

definition place :: "nat \<Rightarrow> string \<Rightarrow> 'r chat_world \<Rightarrow> nat" where
  "place shard k w = rank (delivery_cursor w shard) k (dom (map_of (delivery w shard)))"

text \<open>One visit of the scan, from the choice of the session to the next round of the loop.\<close>

definition visited :: "'r chat_env \<Rightarrow> time \<Rightarrow> nat \<Rightarrow> string \<Rightarrow> 'r chat_world \<Rightarrow> 'r chat_world \<Rightarrow> nat \<Rightarrow> bool" where
  "visited E now shard sid w v n \<longleftrightarrow>
     delivery_ok E v \<and> delivery_cursor v = (delivery_cursor w)(shard := sid) \<and> db_calls v = db_calls w + n \<and> n \<le> 1
     \<and> spares_others E sid w v \<and> (\<forall>k. k \<noteq> sid \<longrightarrow> map_of (delivery v shard) k = map_of (delivery w shard) k)
     \<and> (if session_live sid w then resting now shard sid v else gone shard sid v)
     \<and> (resting now shard sid v \<longrightarrow> n = 1 \<or> resting now shard sid w)"

lemma tick_loop_visit:
  assumes "tick_loop E now shard (Suc b) q w = (res, w')" and "delivery_ok E w" and "\<forall>n \<ge> db_calls w. now \<le> steady_now E n"
    and "q < 4" and "next_key (delivery_cursor w shard) (keys (delivery w shard)) = Some sid"
  shows "\<exists>v n. tick_loop E now shard b (q + n) v = (res, w') \<and> visited E now shard sid w v n"
proof -
  let ?w1 = "w\<lparr>delivery_cursor := (delivery_cursor w)(shard := sid)\<rparr>"
  have "sid \<in> set (keys (delivery w shard))"
    using assms(5) by (cases rule: next_key_cases) auto
  then obtain st where st: "map_of (delivery w shard) sid = Some st"
    by (auto simp: set_keys)
  have sh: "shard_of_session E sid = shard" "delivery_of E sid ?w1 = st"
    using assms(2) st by (auto simp: delivery_ok_def delivery_of_def)
  have ok1: "delivery_ok E ?w1"
    using assms(2) by (simp add: delivery_ok_def)
  have same: "session_live sid ?w1 = session_live sid w" "spares_others E sid w ?w1"
    by (simp_all add: session_live_def spares_tbl)
  show ?thesis
  proof (cases "session_live sid w")
    case False
    let ?v = "?w1\<lparr>delivery := (delivery w)(shard := AList.delete sid (delivery w shard))\<rparr>"
    have "tick_loop E now shard b (q + 0) ?v = (res, w')"
      using assms(1,4,5) False same(1) by (simp add: io_bind_def io_then_def get_world_def upd_world_def)
    moreover have "visited E now shard sid w ?v 0"
      using assms(2) False by (auto simp: visited_def delivery_ok_def gone_def resting_def delete_conv' spares_tbl split: if_splits)
    ultimately show ?thesis
      by blast
  next
    case live: True
    show ?thesis
    proof (cases "now \<ge> next_query st")
      case True
      obtain r v where v: "DeliverPendingTextMessages E sid (GetUserId sid (tbl w)) ?w1 = (r, v)"
        by fastforce
      have "\<not> IsClosed sid (tbl ?w1)"
        using live by (simp add: session_live_def)
      note times = DeliverPending_times [OF v this ok1]
      have "tick_loop E now shard b (q + 1) v = (res, w')"
        using assms(1,4,5) live True v times sh(2) same(1)
        by (simp add: io_bind_def io_then_def get_world_def upd_world_def user_of_def)
      moreover have "visited E now shard sid w v 1"
      proof -
        obtain st' where st': "state_ok st'" "next_query st' > steady_now E (db_calls w)"
          "\<forall>s k. map_of (delivery v s) k = (if s = shard \<and> k = sid then Some st' else map_of (delivery w s) k)"
          using times sh(1) by auto
        then have "next_query st' > now"
          using assms(3) by force
        moreover have "spares_others E sid w v"
          using times spares_trans [OF same(2)] by blast
        ultimately show ?thesis
          using times st' st sh(1) assms(2) live unfolding visited_def delivery_ok_def resting_def by auto
      qed
      ultimately show ?thesis
        by blast
    next
      case False
      have "tick_loop E now shard b (q + 0) ?w1 = (res, w')"
        using assms(1,4,5) live False sh(2) same(1) by (simp add: io_bind_def io_then_def get_world_def upd_world_def)
      moreover have "visited E now shard sid w ?w1 0"
        using ok1 False st live same(2) by (auto simp: visited_def resting_def)
      ultimately show ?thesis
        by blast
    qed
  qed
qed

text \<open>
  What the scan does for one session. It revives none and gives none a delivery state. A dead session loses its
  state and a live one keeps it, and its next query comes to lie ahead, which takes a database call, or the
  scan comes closer to it.
\<close>

definition progress :: "'r chat_env \<Rightarrow> time \<Rightarrow> nat \<Rightarrow> string \<Rightarrow> 'r chat_world \<Rightarrow> 'r chat_world \<Rightarrow> nat \<Rightarrow> bool" where
  "progress E now shard k w w' n \<longleftrightarrow>
     (session_live k w' \<longrightarrow> session_live k w) \<and> (fits E \<longrightarrow> session_live k w' = session_live k w) \<and> (gone shard k w \<longrightarrow> gone shard k w')
     \<and> (session_live k w' \<and> \<not> gone shard k w \<longrightarrow> \<not> gone shard k w')
     \<and> (\<not> session_live k w \<longrightarrow> gone shard k w' \<or> place shard k w' + n \<le> place shard k w)
     \<and> (resting now shard k w \<longrightarrow> resting now shard k w' \<or> gone shard k w')
     \<and> (gone shard k w' \<or> resting now shard k w' \<or> place shard k w' + n \<le> place shard k w)
     \<and> db_calls w \<le> db_calls w' \<and> (resting now shard k w' \<and> \<not> resting now shard k w \<longrightarrow> db_calls w < db_calls w')"

lemma not_resting: "gone shard k w \<Longrightarrow> \<not> resting now shard k w"
  by (simp add: gone_def resting_def)

lemma progress_trans:
  assumes "progress E now shard k u v m" and "progress E now shard k v w n" and "l \<le> m + n"
  shows "progress E now shard k u w l"
proof -
  note uv = assms(1) [unfolded progress_def] and vw = assms(2) [unfolded progress_def]
  have closer: "place shard k w + l \<le> place shard k u"
    if "place shard k v + m \<le> place shard k u" and "place shard k w + n \<le> place shard k v"
    using that assms(3) by linarith
  have mono: "db_calls u \<le> db_calls v" "db_calls v \<le> db_calls w"
    using uv vw by blast+
  have calls: "db_calls u < db_calls w" if "db_calls u < db_calls v \<or> db_calls v < db_calls w"
    using that mono by linarith
  have "\<not> session_live k u \<longrightarrow> gone shard k w \<or> place shard k w + l \<le> place shard k u"
    "gone shard k w \<or> resting now shard k w \<or> place shard k w + l \<le> place shard k u"
    using uv vw closer by blast+
  moreover have "resting now shard k w \<and> \<not> resting now shard k u \<longrightarrow> db_calls u < db_calls w"
    using uv vw calls by blast
  moreover have "resting now shard k u \<longrightarrow> resting now shard k w \<or> gone shard k w"
    using uv vw by blast
  moreover have "session_live k w \<longrightarrow> session_live k u" "fits E \<longrightarrow> session_live k w = session_live k u" "gone shard k u \<longrightarrow> gone shard k w"
    "session_live k w \<and> \<not> gone shard k u \<longrightarrow> \<not> gone shard k w"
    using uv vw by blast+
  moreover have "db_calls u \<le> db_calls w"
    using mono by (rule le_trans)
  ultimately show ?thesis
    unfolding progress_def by (intro conjI)
qed

lemma next_key_in: "next_key (delivery_cursor w shard) (keys (delivery w shard)) = Some sid \<Longrightarrow> \<not> gone shard sid w"
  by (cases rule: next_key_cases) (auto simp: gone_def set_keys)

lemma visit_progress:
  assumes "next_key (delivery_cursor w shard) (keys (delivery w shard)) = Some sid" and "visited E now shard sid w v n"
  shows "progress E now shard k w v 1"
proof (cases "k = sid")
  case True
  then show ?thesis
    using assms not_resting [of shard k v now] next_key_in [OF assms(1)]
    by (auto simp: visited_def progress_def spares_others_def split: if_splits)
next
  case False
  have same: "session_live k v = session_live k w" "map_of (delivery v shard) k = map_of (delivery w shard) k"
    using assms(2) False by (auto simp: visited_def spares_others_def)
  then have kept: "gone shard k v = gone shard k w" "resting now shard k v = resting now shard k w"
    by (simp_all add: gone_def resting_def)
  have calls: "db_calls w \<le> db_calls v"
    using assms(2) by (simp add: visited_def)
  have "place shard k v + 1 \<le> place shard k w" if "\<not> gone shard k w"
  proof -
    have sid: "sid \<in> set (keys (delivery w shard))"
      using assms(1) by (cases rule: next_key_cases) auto
    have "dom (map_of (delivery v shard)) \<subseteq> set (keys (delivery w shard))"
    proof
      fix x
      assume "x \<in> dom (map_of (delivery v shard))"
      then show "x \<in> set (keys (delivery w shard))"
        using assms(2) sid by (cases "x = sid") (auto simp: visited_def set_keys dom_def)
    qed
    moreover have "k \<in> set (keys (delivery w shard))"
      using that by (auto simp: gone_def set_keys)
    ultimately have "rank sid k (dom (map_of (delivery v shard))) + 1 \<le> place shard k w"
      using rank_next [OF assms(1)] False unfolding place_def set_keys [symmetric] by metis
    then show ?thesis
      using assms(2) by (simp add: visited_def place_def)
  qed
  then show ?thesis
    using same(1) kept calls by (cases "gone shard k w") (simp_all add: progress_def)
qed

lemma tick_loop_progress:
  assumes "tick_loop E now shard b q w = (res, w')" and "delivery_ok E w" and "\<forall>n \<ge> db_calls w. now \<le> steady_now E n" and "q \<le> 4"
  shows "res = Returns () \<and> delivery_ok E w' \<and> db_calls w' \<le> db_calls w + (4 - q) \<and> progress E now shard k w w' (min b (4 - q))"
  using assms
proof (induction b arbitrary: q w)
  case 0
  then show ?case by (simp add: io_return_def progress_def)
next
  case (Suc b)
  let ?next = "next_key (delivery_cursor w shard) (keys (delivery w shard))"
  show ?case
  proof (cases "q \<ge> 4 \<or> ?next = None")
    case True
    then have "res = Returns () \<and> w' = w"
      using Suc.prems(1) by (cases "q \<ge> 4") (simp_all add: io_return_def io_bind_def get_world_def)
    moreover have "q = 4 \<or> gone shard k w"
      using True Suc.prems(4) by (auto simp: next_key_None gone_def keys_def)
    ultimately show ?thesis
      using Suc.prems(2) by (auto simp: progress_def)
  next
    case False
    then obtain sid where sid: "?next = Some sid" and q: "q < 4"
      by auto
    obtain v n where v: "tick_loop E now shard b (q + n) v = (res, w')" "visited E now shard sid w v n"
      using tick_loop_visit [OF Suc.prems(1-3) q sid] by blast
    then have n: "n \<le> 1" "delivery_ok E v" "db_calls v = db_calls w + n"
      by (simp_all add: visited_def)
    then have IH: "res = Returns () \<and> delivery_ok E w' \<and> db_calls w' \<le> db_calls v + (4 - (q + n))
        \<and> progress E now shard k v w' (min b (4 - (q + n)))"
      using Suc.IH [OF v(1) n(2)] Suc.prems(3) q by auto
    then have "progress E now shard k w w' (min (Suc b) (4 - q))"
      using progress_trans [OF visit_progress [OF sid v(2)], of k w' _ "min (Suc b) (4 - q)"] n(1) q by fastforce
    then show ?thesis
      using IH n q by auto
  qed
qed


text \<open>One live session of user 2, whose query is due and finds one message.\<close>

definition live_world :: "(time \<times> keyspace) chat_world" where
  "live_world = (sample_world sample_db)\<lparr>delivery := (\<lambda>s. if s = 0 then [(''abcd'', new_delivery)] else []),
     tbl := SetUserSession 2 ''abcd'' (set_session ''abcd'' (new_session\<lparr>user_uid := 2\<rparr>) empty_table)\<rparr>"

lemmas live_simps = live_world_def sample_world_def new_delivery_def keys_def next_key_def session_live_def IsClosed_def GetUserId_def
  GetSession_of_def SetUserSession_def set_session_def new_session_def new_send_side_def empty_table_def shard_of_session_def sample_env_def

lemma live_world_ok:
  "delivery_ok sample_env live_world" "\<forall>n \<ge> db_calls live_world. 0 \<le> steady_now sample_env n"
  "map_of (delivery live_world 0) ''abcd'' = Some new_delivery"
  by (auto simp: delivery_ok_def state_ok_def live_simps split: if_splits)

lemma live_world_live: "fits sample_env" "session_live ''abcd'' live_world"
  by (simp_all add: fits_def live_simps bytes_of_def)


end
