(* ===== verification/Chat_Logic.thy ===== *)
theory Chat_Logic
  imports Message_Delivery Text_Message_Service
begin

text \<open>
  The request handlers of \<^verbatim>\<open>servers/chat/service/LogicSystem.cpp\<close>. A \<^verbatim>\<open>Defer\<close> that sends the response
  is the last action of its handler on every path; the response itself is computed by the action
  named after the handler with the suffix \<open>_reply\<close>.
\<close>

definition profile_json :: "int \<Rightarrow> user_info \<Rightarrow> json" where
  "profile_json uid i =
     JObj [(''uid'', JInt uid), (''name'', JStr (ui_name i)), (''email'', JStr (ui_email i)), (''nick'', JStr (ui_nick i)),
       (''desc'', JStr (ui_desc i)), (''sex'', JInt (ui_sex i)), (''icon'', JStr (ui_icon i))]"

definition cached_profile :: "int \<Rightarrow> json \<Rightarrow> user_info option" where
  "cached_profile uid req =
     (if isObject req \<and> isInt (field ''uid'' req) \<and> int_val (field ''uid'' req) = uid
         \<and> isString (field ''name'' req) \<and> isString (field ''email'' req) \<and> isString (field ''nick'' req)
         \<and> isString (field ''desc'' req) \<and> isInt (field ''sex'' req) \<and> isString (field ''icon'' req)
      then Some \<lparr>ui_name = str_val (field ''name'' req), ui_pwd = [], ui_uid = uid, ui_email = str_val (field ''email'' req),
             ui_nick = str_val (field ''nick'' req), ui_desc = str_val (field ''desc'' req), ui_sex = int_val (field ''sex'' req),
             ui_icon = str_val (field ''icon'' req), ui_back = []\<rparr>
      else None)"

definition load_profile :: "'r chat_env \<Rightarrow> string \<Rightarrow> int \<Rightarrow> ('r, user_info option) action" where
  "load_profile E base_key uid =
     io_bind (db_call E (\<lambda>e. GetUser e uid)) (\<lambda>user.
       case user of
         None \<Rightarrow> io_return None
       | Some i \<Rightarrow> io_then (redis_call (Set (link E) base_key (toStyledString (lib E) (profile_json uid i)))) (io_return (Some i)))"

definition GetBaseInfo :: "'r chat_env \<Rightarrow> string \<Rightarrow> int \<Rightarrow> ('r, user_info option) action" where
  "GetBaseInfo E base_key uid =
     io_bind (redis_call (Get (link E) base_key)) (\<lambda>info.
       case info of
         None \<Rightarrow> load_profile E base_key uid
       | Some text \<Rightarrow>
           (case Option.bind (parse_json (lib E) text) (cached_profile uid) of
              Some i \<Rightarrow> io_return (Some i)
            | None \<Rightarrow> io_then (redis_call (Del (link E) base_key)) (load_profile E base_key uid)))"

definition GetFriendApplyInfo :: "'r chat_env \<Rightarrow> int \<Rightarrow> ('r, bool \<times> apply_info list) action" where
  "GetFriendApplyInfo E to = db_call E (\<lambda>e. GetApplyList e to 0 50)"

definition friend_list_call :: "'r chat_env \<Rightarrow> int \<Rightarrow> ('r, bool \<times> user_info list) action" where
  "friend_list_call E self w = db_call E (\<lambda>e. GetFriendList e (profile_env E (db_calls w)) self) w"

definition apply_json :: "apply_info \<Rightarrow> json" where
  "apply_json a =
     JObj [(''name'', JStr (ai_name a)), (''uid'', JInt (ai_uid a)), (''icon'', JStr (ai_icon a)), (''nick'', JStr (ai_nick a)),
       (''sex'', JInt (ai_sex a)), (''desc'', JStr (ai_desc a)), (''status'', JInt (ai_status a))]"

definition friend_json :: "user_info \<Rightarrow> json" where
  "friend_json f =
     JObj [(''name'', JStr (ui_name f)), (''uid'', JInt (ui_uid f)), (''icon'', JStr (ui_icon f)), (''nick'', JStr (ui_nick f)),
       (''sex'', JInt (ui_sex f)), (''desc'', JStr (ui_desc f)), (''back'', JStr (ui_back f))]"

definition error_reply :: "error_code \<Rightarrow> json" where
  "error_reply e = JObj [(''error'', code e)]"

section \<open>The resource servers\<close>

text \<open>
  \<^verbatim>\<open>PendingResources\<close> of \<^verbatim>\<open>servers/chat/rpc/ResourceClient.h\<close>: the first endpoint that answers gives the list; an
  answer that is not JSON, a missing token and a channel that cannot be set up throw. The moment of the call is counted by the
  database calls before it.
\<close>

definition host_port :: "string \<Rightarrow> (string \<times> string) option" where
  "host_port endpoint =
     (if CHR '':'' \<in> set endpoint
      then Some (rev (tl (dropWhile (\<lambda>c. c \<noteq> CHR '':'') (rev endpoint))), rev (takeWhile (\<lambda>c. c \<noteq> CHR '':'') (rev endpoint)))
      else None)"

fun ask_resources :: "'r chat_env \<Rightarrow> nat \<Rightarrow> int \<Rightarrow> string list \<Rightarrow> json outcome" where
  "ask_resources E moment uid [] = Returns JNull"
| "ask_resources E moment uid (endpoint # rest) =
     (case host_port endpoint of
        None \<Rightarrow> ask_resources E moment uid rest
      | Some (host, port) \<Rightarrow>
          if \<not> channel_opens E host port \<or> internal_token E = [] then Throws
          else case list_pending E moment host port uid of
            None \<Rightarrow> ask_resources E moment uid rest
          | Some replies \<Rightarrow>
              (case those (map (parse_json (lib E)) replies) of None \<Rightarrow> Throws | Some values \<Rightarrow> Returns (JArr values)))"

definition resources_at :: "'r chat_env \<Rightarrow> nat \<Rightarrow> int \<Rightarrow> json outcome" where
  "resources_at E moment uid =
     ask_resources E moment uid
       (split_comma (if resource_endpoints E = [] then ''127.0.0.1:50065,127.0.0.1:50066'' else resource_endpoints E))"

definition PendingResources :: "'r chat_env \<Rightarrow> int \<Rightarrow> ('r, json) action" where
  "PendingResources E uid w = (resources_at E (db_calls w) uid, w)"

section \<open>Login\<close>

definition ticket_key :: "string \<Rightarrow> string" where
  "ticket_key token = ''chat_ticket_'' @ token"

definition ticket_valid :: "'r chat_env \<Rightarrow> int \<Rightarrow> string \<Rightarrow> bool" where
  "ticket_valid E uid text =
     (case parse_json (lib E) text of
        None \<Rightarrow> False
      | Some ticket \<Rightarrow> isObject ticket \<and> isInt (field ''uid'' ticket) \<and> isString (field ''server'' ticket)
          \<and> int_val (field ''uid'' ticket) = uid \<and> str_val (field ''server'' ticket) = self_name E)"

definition bind_user :: "'r chat_env \<Rightarrow> string \<Rightarrow> int \<Rightarrow> ('r, unit) action" where
  "bind_user E sid uid =
     io_then (upd_world (\<lambda>w. w\<lparr>tbl := SetUserId sid uid (tbl w)\<rparr>))
       (io_then (redis_call (Set (link E) (uip_key uid) (self_name E)))
         (upd_world (\<lambda>w. w\<lparr>tbl := SetUserSession uid sid (tbl w)\<rparr>)))"

text \<open>
  The response, whether the session is authenticated, and whether an exception is under way: the response is sent all the
  same, by the destructor of \<^verbatim>\<open>Defer\<close>.
\<close>

definition attempt :: "('s, 'a) io \<Rightarrow> ('s, 'a option) io" where
  "attempt m = io_catch (io_bind m (\<lambda>a. io_return (Some a))) (io_return None)"

definition login_finish :: "'r chat_env \<Rightarrow> string \<Rightarrow> int \<Rightarrow> (string \<times> json) list \<Rightarrow> ('r, json \<times> bool \<times> bool) action" where
  "login_finish E sid uid profile =
     io_bind (attempt (PendingResources E uid)) (\<lambda>files.
       case files of
         None \<Rightarrow> io_return (JObj profile, False, True)
       | Some v \<Rightarrow>
           io_then (bind_user E sid uid)
             (io_return (JObj (profile @ [(''pending_files'', v), (''resources_unavailable'', JBool (isNull v))]), True, False)))"

definition login_profile :: "'r chat_env \<Rightarrow> string \<Rightarrow> int \<Rightarrow> ('r, json \<times> bool \<times> bool) action" where
  "login_profile E sid uid =
     io_bind (GetBaseInfo E (base_key_of uid) uid) (\<lambda>info.
       case info of
         None \<Rightarrow> io_return (error_reply UidInvalid, False, False)
       | Some i \<Rightarrow>
           io_bind (GetFriendApplyInfo E uid) (\<lambda>(b_apply, applies).
           io_bind (friend_list_call E uid) (\<lambda>(b_friends, friends).
             login_finish E sid uid
               ([(''error'', code ERROR_CODE_OK), (''uid'', JInt uid), (''name'', JStr (ui_name i)),
                 (''email'', JStr (ui_email i)), (''nick'', JStr (ui_nick i)), (''desc'', JStr (ui_desc i)),
                 (''sex'', JInt (ui_sex i)), (''icon'', JStr (ui_icon i))]
                @ (if b_apply \<and> applies \<noteq> [] then [(''apply_list'', JArr (map apply_json applies))] else [])
                @ (if friends \<noteq> [] then [(''friend_list'', JArr (map friend_json friends))] else [])))))"

definition login_reply :: "'r chat_env \<Rightarrow> string \<Rightarrow> json \<Rightarrow> ('r, json \<times> bool \<times> bool) action" where
  "login_reply E sid req =
     (let uid = int_val (field ''uid'' req); token = str_val (field ''token'' req) in
      io_bind (user_of sid) (\<lambda>bound.
        if bound > 0 \<or> uid \<le> 0 \<or> token = [] then io_return (error_reply TokenInvalid, False, False)
        else case asInt (if isMember ''resource_protocol_version'' req then field ''resource_protocol_version'' req else JInt 0) of
          None \<Rightarrow> io_return (JNull, False, True)
        | Some version \<Rightarrow>
            if version \<noteq> 1 then
              io_return (JObj [(''error'', JInt 426),
                (''message'', JStr ''Please upgrade the client: HTTPS resource protocol v1 required'')], False, False)
            else io_bind (redis_call (GetDel (link E) (ticket_key token))) (\<lambda>ticket.
              case ticket of
                None \<Rightarrow> io_return (error_reply UidInvalid, False, False)
              | Some text \<Rightarrow>
                  if \<not> ticket_valid E uid text then io_return (error_reply TokenInvalid, False, False)
                  else login_profile E sid uid)))"

definition LoginChatCallback :: "'r chat_env \<Rightarrow> string \<Rightarrow> string \<Rightarrow> ('r, unit) action" where
  "LoginChatCallback E sid msg =
     (case parse_json (lib E) msg of
        None \<Rightarrow> close_session sid
      | Some req \<Rightarrow>
          if \<not> isObject req \<or> \<not> isInt (field ''uid'' req) \<or> \<not> isString (field ''token'' req) then close_session sid
          else io_bind (login_reply E sid req) (\<lambda>(rtvalue, authenticated, thrown).
            io_bind (send_json E sid rtvalue MSG_CHAT_LOGIN_RSP) (\<lambda>ok.
              io_then (if ok \<and> authenticated then DeliverPendingTextMessages E sid (int_val (field ''uid'' req)) else io_return ())
                (if thrown then io_throw else io_return ()))))"

section \<open>Search\<close>

definition isPureDigit :: "string \<Rightarrow> bool" where
  "isPureDigit s \<longleftrightarrow> s \<noteq> [] \<and> list_all is_digit s"

definition found_json :: "int \<Rightarrow> string \<Rightarrow> string \<Rightarrow> string \<Rightarrow> int \<Rightarrow> json \<Rightarrow> json" where
  "found_json uid name nick desc sex icon =
     JObj [(''error'', code ERROR_CODE_OK), (''uid'', JInt uid), (''name'', JStr name), (''nick'', JStr nick), (''desc'', JStr desc),
       (''sex'', JInt sex), (''icon'', icon)]"

text \<open>The fields of a cached entry as the search reads them; a conversion that throws is \<open>None\<close>.\<close>

definition cached_search :: "'r chat_env \<Rightarrow> string \<Rightarrow> (int \<times> string \<times> string \<times> string \<times> int) option" where
  "cached_search E text =
     (let req = (case parse_json (lib E) text of Some j \<Rightarrow> j | None \<Rightarrow> JNull) in
      if \<not> has_members req then None
      else case (asInt (field ''uid'' req), asString (lib E) (field ''name'' req), asString (lib E) (field ''nick'' req),
            asString (lib E) (field ''desc'' req), asInt (field ''sex'' req)) of
        (Some uid, Some name, Some nick, Some desc, Some sex) \<Rightarrow> Some (uid, name, nick, desc, sex)
      | _ \<Rightarrow> None)"

definition store_found :: "'r chat_env \<Rightarrow> string \<Rightarrow> user_info \<Rightarrow> ('r, json) action" where
  "store_found E base_key i =
     io_then (redis_call (Set (link E) base_key (toStyledString (lib E) (profile_json (ui_uid i) i))))
       (io_return (found_json (ui_uid i) (ui_name i) (ui_nick i) (ui_desc i) (ui_sex i) (JStr (ui_icon i))))"

definition GetUserByUid :: "'r chat_env \<Rightarrow> string \<Rightarrow> ('r, json) action" where
  "GetUserByUid E uid_str =
     (case from_chars uid_str of
        None \<Rightarrow> io_return (error_reply UidInvalid)
      | Some uid \<Rightarrow>
          if uid \<le> 0 then io_return (error_reply UidInvalid)
          else io_bind (redis_call (Get (link E) (''ubaseinfo_'' @ uid_str))) (\<lambda>info.
            case info of
              Some text \<Rightarrow>
                (case cached_search E text of
                   None \<Rightarrow> io_throw
                 | Some (u, name, nick, desc, sex) \<Rightarrow>
                     (case asString (lib E) (field ''icon'' (case parse_json (lib E) text of Some j \<Rightarrow> j | None \<Rightarrow> JNull)) of
                        None \<Rightarrow> io_throw
                      | Some icon \<Rightarrow> io_return (found_json u name nick desc sex (JStr icon))))
            | None \<Rightarrow>
                io_bind (db_call E (\<lambda>e. GetUser e uid)) (\<lambda>user.
                  case user of
                    None \<Rightarrow> io_return (error_reply UidInvalid)
                  | Some i \<Rightarrow> store_found E (''ubaseinfo_'' @ uid_str) i)))"

definition GetUserByName :: "'r chat_env \<Rightarrow> string \<Rightarrow> ('r, json) action" where
  "GetUserByName E name =
     io_bind (redis_call (Get (link E) (''nameinfo_'' @ name))) (\<lambda>info.
       case info of
         Some text \<Rightarrow>
           (case cached_search E text of
              None \<Rightarrow> io_throw
            | Some (uid, nm, nick, desc, sex) \<Rightarrow>
                let req = (case parse_json (lib E) text of Some j \<Rightarrow> j | None \<Rightarrow> JNull) in
                if isMember ''icon'' req then io_return (found_json uid nm nick desc sex (field ''icon'' req))
                else io_bind (db_call E (\<lambda>e. GetUser e uid)) (\<lambda>profile.
                  io_return (found_json uid nm nick desc sex (case profile of Some i \<Rightarrow> JStr (ui_icon i) | None \<Rightarrow> JNull))))
       | None \<Rightarrow>
           io_bind (db_call E (\<lambda>e. GetUser_by_name (collate E) e name)) (\<lambda>user.
             case user of
               None \<Rightarrow> io_return (error_reply UidInvalid)
             | Some i \<Rightarrow> store_found E (''nameinfo_'' @ name) i))"

definition SearchUserCallback :: "'r chat_env \<Rightarrow> string \<Rightarrow> string \<Rightarrow> ('r, unit) action" where
  "SearchUserCallback E sid msg =
     (let req = (case parse_json (lib E) msg of Some j \<Rightarrow> j | None \<Rightarrow> JNull);
          uid_str = str_val (field ''uid'' req) in
      if \<not> isObject req \<or> \<not> isString (field ''uid'' req) then
        io_then (send_json E sid (error_reply JSON_ERROR) ID_SEARCH_USER_RSP) (io_return ())
      else if uid_str = [] then io_then (send_json E sid (error_reply JSON_ERROR) ID_SEARCH_USER_RSP) (io_return ())
      else io_bind
        (io_catch (if isPureDigit uid_str then GetUserByUid E uid_str else GetUserByName E uid_str)
           (io_then (send_json E sid (error_reply ERROR_CODE_OK) ID_SEARCH_USER_RSP) io_throw))
        (\<lambda>rtvalue. io_then (send_json E sid rtvalue ID_SEARCH_USER_RSP) (io_return ())))"

section \<open>Friends\<close>

definition with_request_id :: "json \<Rightarrow> json \<Rightarrow> json" where
  "with_request_id req rt =
     (if isString (field ''request_id'' req) \<and> length (str_val (field ''request_id'' req)) \<le> 64
      then set_member ''request_id'' (field ''request_id'' req) rt else rt)"

definition set_error :: "error_code \<Rightarrow> json \<Rightarrow> json" where
  "set_error e rt = set_member ''error'' (code e) rt"

definition apply_notice :: "int \<Rightarrow> string \<Rightarrow> user_info option \<Rightarrow> json" where
  "apply_notice uid applyname info =
     JObj ([(''error'', code ERROR_CODE_OK), (''applyuid'', JInt uid), (''name'', JStr applyname), (''desc'', JStr [])]
       @ (case info of Some i \<Rightarrow> [(''icon'', JStr (ui_icon i)), (''sex'', JInt (ui_sex i)), (''nick'', JStr (ui_nick i))] | None \<Rightarrow> []))"

definition apply_req :: "int \<Rightarrow> int \<Rightarrow> string \<Rightarrow> user_info option \<Rightarrow> add_friend_req" where
  "apply_req uid touid applyname info =
     \<lparr>af_applyuid = uid, af_touid = touid, af_name = applyname, af_desc = [],
      af_icon = (case info of Some i \<Rightarrow> ui_icon i | None \<Rightarrow> []), af_sex = (case info of Some i \<Rightarrow> ui_sex i | None \<Rightarrow> 0),
      af_nick = (case info of Some i \<Rightarrow> ui_nick i | None \<Rightarrow> [])\<rparr>"

definition notify_apply :: "'r chat_env \<Rightarrow> int \<Rightarrow> int \<Rightarrow> string \<Rightarrow> json \<Rightarrow> ('r, json) action" where
  "notify_apply E uid touid applyname rt =
     io_bind (redis_call (Get (link E) (uip_key touid))) (\<lambda>ip.
       case ip of
         None \<Rightarrow> io_return rt
       | Some ip_str \<Rightarrow>
           io_bind (GetBaseInfo E (base_key_of uid) uid) (\<lambda>info.
             let applyname = (case info of Some i \<Rightarrow> ui_name i | None \<Rightarrow> applyname) in
             if ip_str = self_name E then
               io_bind (session_of touid) (\<lambda>peer.
                 case peer of
                   None \<Rightarrow> io_return rt
                 | Some psid \<Rightarrow> io_bind (send_json E psid (apply_notice uid applyname info) ID_NOTIFY_ADD_FRIEND_REQ) (\<lambda>ok.
                     io_return (if ok then rt else set_member ''notification_pending'' (JBool True) rt)))
             else io_bind (peer_rpc E (PeerAddFriend ip_str (apply_req uid touid applyname info))) (\<lambda>err.
               io_return (if err \<noteq> 0 then set_member ''notification_pending'' (JBool True) rt else rt))))"

definition add_friend_reply :: "'r chat_env \<Rightarrow> int \<Rightarrow> json \<Rightarrow> ('r, json) action" where
  "add_friend_reply E uid req =
     (let touid = int_val (field ''touid'' req);
          rt = with_request_id req (JObj [(''error'', code ERROR_CODE_OK), (''touid'', JInt touid)]) in
      if touid \<le> 0 \<or> touid = uid then io_return (set_error UidInvalid rt)
      else io_bind (db_call E (\<lambda>e. CheckFriendRelation e uid touid)) (\<lambda>relation.
        case relation of
          None \<Rightarrow> io_return (set_error RPC_ERROR rt)
        | Some True \<Rightarrow> io_return (set_error UidInvalid rt)
        | Some False \<Rightarrow>
            io_bind (db_call E (\<lambda>e. GetUser e touid)) (\<lambda>user.
              if user = None then io_return (set_error UidInvalid rt)
              else io_bind (db_call E (\<lambda>e. AddFriendApply e uid touid)) (\<lambda>applied.
                if \<not> applied then io_return (set_error UidInvalid rt)
                else notify_apply E uid touid (str_val (field ''applyname'' req)) rt))))"

definition AddFriendCallback :: "'r chat_env \<Rightarrow> string \<Rightarrow> string \<Rightarrow> ('r, unit) action" where
  "AddFriendCallback E sid msg =
     (case parse_json (lib E) msg of
        None \<Rightarrow> close_session sid
      | Some req \<Rightarrow>
          if \<not> isObject req \<or> \<not> isInt (field ''touid'' req)
             \<or> (isMember ''applyname'' req \<and> \<not> isString (field ''applyname'' req))
             \<or> (isMember ''bakname'' req \<and> \<not> isString (field ''bakname'' req))
          then close_session sid
          else io_bind (user_of sid) (\<lambda>uid.
            io_bind (add_friend_reply E uid req) (\<lambda>rt.
              io_then (send_json E sid rt ID_ADD_FRIEND_RSP) (io_return ()))))"

definition auth_notice :: "int \<Rightarrow> int \<Rightarrow> user_info option \<Rightarrow> json" where
  "auth_notice uid touid info =
     (case info of
        Some i \<Rightarrow> JObj [(''error'', code ERROR_CODE_OK), (''fromuid'', JInt uid), (''touid'', JInt touid), (''name'', JStr (ui_name i)),
          (''nick'', JStr (ui_nick i)), (''icon'', JStr (ui_icon i)), (''sex'', JInt (ui_sex i))]
      | None \<Rightarrow> JObj [(''error'', code UidInvalid), (''fromuid'', JInt uid), (''touid'', JInt touid)])"

definition notify_accepted :: "'r chat_env \<Rightarrow> int \<Rightarrow> int \<Rightarrow> ('r, unit) action" where
  "notify_accepted E uid touid =
     io_bind (redis_call (Get (link E) (uip_key touid))) (\<lambda>ip.
       case ip of
         None \<Rightarrow> io_return ()
       | Some to_ip \<Rightarrow>
           if to_ip = self_name E then
             io_bind (session_of touid) (\<lambda>peer.
               case peer of
                 None \<Rightarrow> io_return ()
               | Some psid \<Rightarrow> io_bind (GetBaseInfo E (base_key_of uid) uid) (\<lambda>info.
                   io_then (send_json E psid (auth_notice uid touid info) ID_NOTIFY_AUTH_FRIEND_REQ) (io_return ())))
           else io_then (peer_rpc E (PeerAuthFriend to_ip uid touid)) (io_return ()))"

definition auth_friend_reply :: "'r chat_env \<Rightarrow> int \<Rightarrow> json \<Rightarrow> ('r, json) action" where
  "auth_friend_reply E uid req =
     (let touid = int_val (field ''touid'' req); back_name = str_val (field ''back'' req);
          rt0 = with_request_id req (JObj [(''error'', code ERROR_CODE_OK), (''uid'', JInt touid)]) in
      io_bind (GetBaseInfo E (base_key_of touid) touid) (\<lambda>info.
        let rt = (case info of
              Some i \<Rightarrow> set_member ''name'' (JStr (ui_name i)) (set_member ''nick'' (JStr (ui_nick i))
                (set_member ''icon'' (JStr (ui_icon i)) (set_member ''sex'' (JInt (ui_sex i)) rt0)))
            | None \<Rightarrow> set_error UidInvalid rt0) in
        if touid \<le> 0 \<or> touid = uid \<or> info = None then io_return (set_error UidInvalid rt)
        else io_bind (db_call E (\<lambda>e. CheckFriendRelation e uid touid)) (\<lambda>relation.
          case relation of
            None \<Rightarrow> io_return (set_error RPC_ERROR rt)
          | Some friends \<Rightarrow>
              io_bind (if friends then io_return Success else db_call E (\<lambda>e. AddFriend (column_fit E) e uid touid back_name)) (\<lambda>acceptance.
                if acceptance = PendingMissing then io_return (set_error UidInvalid rt)
                else if acceptance = StorageError then io_return (set_error RPC_ERROR rt)
                else io_then (notify_accepted E uid touid) (io_return rt)))))"

definition AuthFriendCallback :: "'r chat_env \<Rightarrow> string \<Rightarrow> string \<Rightarrow> ('r, unit) action" where
  "AuthFriendCallback E sid msg =
     (case parse_json (lib E) msg of
        None \<Rightarrow> close_session sid
      | Some req \<Rightarrow>
          if \<not> isObject req \<or> \<not> isInt (field ''touid'' req) \<or> \<not> isString (field ''back'' req) then close_session sid
          else io_bind (user_of sid) (\<lambda>uid.
            io_bind (auth_friend_reply E uid req) (\<lambda>rt.
              io_then (send_json E sid rt ID_AUTH_FRIEND_RSP) (io_return ()))))"

section \<open>Text messages\<close>

definition text_item_ok :: "json \<Rightarrow> bool" where
  "text_item_ok t \<longleftrightarrow> isObject t \<and> isString (field ''content'' t) \<and> isString (field ''msgid'' t)"

definition text_of_item :: "int \<Rightarrow> int \<Rightarrow> json \<Rightarrow> text_message" where
  "text_of_item uid touid t =
     \<lparr>client_message_id = str_val (field ''msgid'' t), sender_uid = uid, receiver_uid = touid, content = str_val (field ''content'' t)\<rparr>"

definition accept_call :: "'r chat_env \<Rightarrow> int \<Rightarrow> int \<Rightarrow> text_message list \<Rightarrow> ('r, accept_result) action" where
  "accept_call E uid touid messages w =
     (case accept (\<lambda>a b. db_call E (\<lambda>e. CheckFriendRelation e a b)) (\<lambda>ms. db_call E (\<lambda>e. PersistTextMessages (collate E) e ms))
             uid touid messages w of
        (r, w') \<Rightarrow> (Returns r, w'))"

definition post_notification :: "'r chat_env \<Rightarrow> int \<Rightarrow> text_message list \<Rightarrow> ('r, unit) action" where
  "post_notification E touid messages =
     upd_world (\<lambda>w. if post_room E (posts w)
       then w\<lparr>posts := posts w + 1, notifications := notifications w @ [(touid, messages)]\<rparr> else w\<lparr>posts := posts w + 1\<rparr>)"

definition text_reply :: "'r chat_env \<Rightarrow> int \<Rightarrow> json \<Rightarrow> ('r, json) action" where
  "text_reply E uid req =
     (let touid = int_val (field ''touid'' req); arrays = field ''text_array'' req;
          rt = JObj [(''error'', code ERROR_CODE_OK), (''text_array'', arrays), (''fromuid'', JInt uid), (''touid'', JInt touid)];
          messages = map (text_of_item uid touid) (items arrays) in
      if \<not> list_all text_item_ok (items arrays) then io_return (set_error JSON_ERROR rt)
      else io_bind (accept_call E uid touid messages) (\<lambda>result.
        if result = InvalidMessage then io_return (set_error JSON_ERROR rt)
        else if result = InvalidRecipient then io_return (set_error UidInvalid rt)
        else if result \<noteq> Accepted then io_return (set_member ''retryable'' (JBool True) (set_error RPC_ERROR rt))
        else io_then (post_notification E touid messages) (io_return (set_member ''delivery'' (JStr ''accepted'') rt))))"

definition TextChatMsgCallback :: "'r chat_env \<Rightarrow> string \<Rightarrow> string \<Rightarrow> ('r, unit) action" where
  "TextChatMsgCallback E sid msg =
     (case parse_json (lib E) msg of
        None \<Rightarrow> close_session sid
      | Some req \<Rightarrow>
          if \<not> isObject req \<or> \<not> isInt (field ''touid'' req) \<or> \<not> isArray (field ''text_array'' req)
             \<or> items (field ''text_array'' req) = [] \<or> length (items (field ''text_array'' req)) > 50
          then close_session sid
          else io_bind (user_of sid) (\<lambda>uid.
            io_bind (text_reply E uid req) (\<lambda>rt.
              io_then (send_json E sid rt ID_TEXT_CHAT_MSG_RSP) (io_return ()))))"

definition NotifyRecipient :: "'r chat_env \<Rightarrow> int \<Rightarrow> text_message list \<Rightarrow> ('r, unit) action" where
  "NotifyRecipient E touid messages =
     io_bind (session_of touid) (\<lambda>session.
       if session \<noteq> None then io_then (WakeDelivery E touid) (io_return ())
       else io_bind (redis_call (Get (link E) (uip_key touid))) (\<lambda>target.
         case target of
           None \<Rightarrow> io_return ()
         | Some server \<Rightarrow>
             if server = self_name E then io_return ()
             else io_then (peer_rpc E (PeerText server
                    \<lparr>tc_fromuid = sender_uid (hd messages), tc_touid = touid,
                     tc_msgs = map (\<lambda>m. (client_message_id m, content m)) messages\<rparr>))
                  (io_return ())))"

definition ack_id_ok :: "json \<Rightarrow> bool" where
  "ack_id_ok v \<longleftrightarrow> isString v \<and> str_val v \<noteq> [] \<and> length (str_val v) \<le> 128"

definition TextChatAckCallback :: "'r chat_env \<Rightarrow> string \<Rightarrow> string \<Rightarrow> ('r, unit) action" where
  "TextChatAckCallback E sid msg =
     (case parse_json (lib E) msg of
        None \<Rightarrow> close_session sid
      | Some req \<Rightarrow>
          let ids = items (field ''msgids'' req) in
          if \<not> isObject req \<or> \<not> isInt (field ''fromuid'' req) \<or> \<not> isArray (field ''msgids'' req) \<or> ids = [] \<or> length ids > 50
             \<or> \<not> list_all ack_id_ok ids
          then close_session sid
          else io_bind (user_of sid) (\<lambda>uid.
            io_bind (db_call E (\<lambda>e. AcknowledgeTextMessages (collate E) e uid (int_val (field ''fromuid'' req)) (map str_val ids))) (\<lambda>ok.
              if \<not> ok then upd_world (\<lambda>w. w\<lparr>ack_failures := ack_failures w + 1\<rparr>)
              else DeliverPendingTextMessages E sid uid)))"

section \<open>Resource credentials\<close>

definition TokenSeconds :: int where
  "TokenSeconds = 900"

definition tokenKey :: "'r chat_env \<Rightarrow> string \<Rightarrow> string" where
  "tokenKey E token = ''resource_token:'' @ tokenDigest E token"

definition sessionKey :: "string \<Rightarrow> string" where
  "sessionKey session = ''resource_session:'' @ session"

definition ResourceTokenCallback :: "'r chat_env \<Rightarrow> string \<Rightarrow> string \<Rightarrow> ('r, unit) action" where
  "ResourceTokenCallback E sid msg =
     (case parse_json (lib E) msg of
        None \<Rightarrow> io_throw
      | Some req \<Rightarrow>
          let request_id = str_val (field ''request_id'' req) in
          if \<not> has_members req \<or> \<not> isString (field ''request_id'' req) \<or> request_id = [] \<or> length request_id > 64 then io_throw
          else io_bind (user_of sid) (\<lambda>uid.
            let record_json = JObj [(''uid'', JInt uid), (''session'', JStr sid), (''generation'', JStr sid)];
                base = [(''uid'', JInt uid), (''request_id'', JStr request_id)] in
            io_bind (redis_call (SetWithTtl (link E) (sessionKey sid) sid TokenSeconds)) (\<lambda>ok1.
            io_bind (if ok1 then redis_call (SetWithTtl (link E) (tokenKey E (fresh_token E)) (toStyledString (lib E) record_json) TokenSeconds)
                     else io_return False) (\<lambda>ok.
              io_then (send_json E sid (JObj (if ok
                  then (''error'', JInt 0) # base @ [(''token'', JStr (fresh_token E)), (''expires_in'', JInt TokenSeconds)]
                  else (''error'', JInt 503) # base)) 1037)
                (io_return ())))))"

definition ResourceRevokeCallback :: "'r chat_env \<Rightarrow> string \<Rightarrow> ('r, unit) action" where
  "ResourceRevokeCallback E sid = io_then (redis_call (Del (link E) (sessionKey sid))) (close_session sid)"

definition NotifyOffline :: "'r chat_env \<Rightarrow> string \<Rightarrow> int \<Rightarrow> ('r, unit) action" where
  "NotifyOffline E sid uid =
     io_then (redis_call (Del (link E) (sessionKey sid)))
       (io_then (send_json E sid (JObj [(''error'', code ERROR_CODE_OK), (''uid'', JInt uid)]) ID_NOTIFY_OFF_LINE_REQ) (io_return ()))"

section \<open>Heartbeat\<close>

text \<open>
  The recovery snapshot is sent in pieces: a piece is sent before an item that would make it too
  long, and when a list has 20 items.
\<close>

datatype section_name = ApplySection | FriendSection | FileSection

record snapshot =
  snap_apply :: "json list"
  snap_friend :: "json list"
  snap_files :: "json list"
  snap_unavailable :: "bool option"

definition snapshot_json :: "snapshot \<Rightarrow> json" where
  "snapshot_json s =
     JObj ([(''apply_list'', JArr (snap_apply s)), (''friend_list'', JArr (snap_friend s)), (''pending_files'', JArr (snap_files s))]
       @ (case snap_unavailable s of Some b \<Rightarrow> [(''resources_unavailable'', JBool b)] | None \<Rightarrow> []))"

definition snapshot_clear :: "snapshot \<Rightarrow> snapshot" where
  "snapshot_clear s = s\<lparr>snap_apply := [], snap_friend := [], snap_files := []\<rparr>"

fun snapshot_list :: "section_name \<Rightarrow> snapshot \<Rightarrow> json list" where
  "snapshot_list ApplySection s = snap_apply s"
| "snapshot_list FriendSection s = snap_friend s"
| "snapshot_list FileSection s = snap_files s"

fun snapshot_append :: "section_name \<Rightarrow> json \<Rightarrow> snapshot \<Rightarrow> snapshot" where
  "snapshot_append ApplySection j s = s\<lparr>snap_apply := snap_apply s @ [j]\<rparr>"
| "snapshot_append FriendSection j s = s\<lparr>snap_friend := snap_friend s @ [j]\<rparr>"
| "snapshot_append FileSection j s = s\<lparr>snap_files := snap_files s @ [j]\<rparr>"

fun add_item :: "json_lib \<Rightarrow> section_name \<Rightarrow> json \<Rightarrow> snapshot list \<times> snapshot \<Rightarrow> snapshot list \<times> snapshot" where
  "add_item L sec item (out, s) =
     (let (out, s) = (if length (toStyledString L (snapshot_json s)) + length (toStyledString L item) > 12 * 1024
                      then (out @ [s], snapshot_clear s) else (out, s));
          s = snapshot_append sec item s
      in if length (snapshot_list sec s) = 20 then (out @ [s], snapshot_clear s) else (out, s))"

definition add_items :: "json_lib \<Rightarrow> section_name \<Rightarrow> json list \<Rightarrow> snapshot \<Rightarrow> snapshot list \<times> snapshot" where
  "add_items L sec js s = fold (add_item L sec) js ([], s)"

fun send_pieces :: "'r chat_env \<Rightarrow> string \<Rightarrow> snapshot list \<Rightarrow> ('r, unit) action" where
  "send_pieces E sid [] = io_return ()"
| "send_pieces E sid (s # ss) = io_then (send_json E sid (snapshot_json s) ID_HEARTBEAT_RSP) (send_pieces E sid ss)"

definition TouchActivity :: "string \<Rightarrow> ('r, unit) action" where
  "TouchActivity sid = upd_world (\<lambda>w. w\<lparr>touched := touched w @ [sid]\<rparr>)"

definition heartbeat_sync :: "'r chat_env \<Rightarrow> string \<Rightarrow> ('r, unit) action" where
  "heartbeat_sync E sid =
     io_bind (user_of sid) (\<lambda>uid.
     io_bind (GetFriendApplyInfo E uid) (\<lambda>(b_apply, applies).
       let (out1, s1) = add_items (lib E) ApplySection (if b_apply then map apply_json applies else [])
             \<lparr>snap_apply = [], snap_friend = [], snap_files = [], snap_unavailable = None\<rparr> in
       io_then (send_pieces E sid out1)
     (io_bind (friend_list_call E uid) (\<lambda>(b_friends, friends).
       let (out2, s2) = add_items (lib E) FriendSection (if b_friends then map friend_json friends else []) s1 in
       io_then (send_pieces E sid out2)
     (io_bind (PendingResources E uid) (\<lambda>files.
       let (out3, s3) = add_items (lib E) FileSection (items files) (s2\<lparr>snap_unavailable := Some (isNull files)\<rparr>) in
       io_then (send_pieces E sid out3) (send_pieces E sid [s3])))))))"

definition HeartbeatCallback :: "'r chat_env \<Rightarrow> string \<Rightarrow> string \<Rightarrow> ('r, unit) action" where
  "HeartbeatCallback E sid msg =
     io_then (TouchActivity sid)
       (let req = (case parse_json (lib E) msg of Some j \<Rightarrow> j | None \<Rightarrow> JNull) in
        if \<not> isObject req \<or> \<not> isBool (field ''sync_friends'' req) \<or> \<not> bool_val (field ''sync_friends'' req)
        then io_then (send_raw sid ''{}'' ID_HEARTBEAT_RSP) (io_return ())
        else heartbeat_sync E sid)"

section \<open>Dispatch\<close>

definition callback :: "'r chat_env \<Rightarrow> 16 word \<Rightarrow> (string \<Rightarrow> string \<Rightarrow> ('r, unit) action) option" where
  "callback E i =
     (if i = ID_RESOURCE_TOKEN_REQ then Some (ResourceTokenCallback E)
      else if i = ID_RESOURCE_REVOKE_REQ then Some (\<lambda>sid _. ResourceRevokeCallback E sid)
      else if i = MSG_CHAT_LOGIN then Some (LoginChatCallback E)
      else if i = ID_SEARCH_USER_REQ then Some (SearchUserCallback E)
      else if i = ID_ADD_FRIEND_REQ then Some (AddFriendCallback E)
      else if i = ID_AUTH_FRIEND_REQ then Some (AuthFriendCallback E)
      else if i = ID_TEXT_CHAT_MSG_REQ then Some (TextChatMsgCallback E)
      else if i = ID_TEXT_CHAT_MSG_ACK then Some (TextChatAckCallback E)
      else if i = ID_HEART_BEAT_REQ then Some (HeartbeatCallback E)
      else None)"

definition DealMsg :: "'r chat_env \<Rightarrow> string \<Rightarrow> 16 word \<Rightarrow> string \<Rightarrow> ('r, unit) action" where
  "DealMsg E sid msg_id body =
     io_bind (is_closed sid) (\<lambda>closed.
       if closed then io_return ()
       else case callback E msg_id of
         None \<Rightarrow> io_return ()
       | Some f \<Rightarrow> io_bind (user_of sid) (\<lambda>uid.
           if msg_id \<noteq> MSG_CHAT_LOGIN \<and> uid \<le> 0 then close_session sid
           else io_catch (f sid body) (close_session sid)))"

text \<open>No file worker is ever created, so no index is in range.\<close>

definition PostMsgToFileQue :: "int \<Rightarrow> bool" where
  "PostMsgToFileQue index = (let workers = 0 in 0 \<le> index \<and> nat index < workers)"

end
