(* ===== verification/Request_Authority.thy ===== *)
theory Request_Authority
  imports Chat_Logic
begin

text \<open>
  What a request may change. Most of what a handler does leaves the database alone: \<open>keeps f m\<close> says
  that an action does not change the part \<open>f\<close> of the world, with one rule per construct and call, so that
  it is established for a handler from its text. What remains are the four writes, and
  each of them acts for the user of the session that sent the request.
\<close>

section \<open>Actions that leave a part of the world alone\<close>

definition keeps :: "('s \<Rightarrow> 'b) \<Rightarrow> ('s, 'a) io \<Rightarrow> bool" where
  "keeps f m \<longleftrightarrow> (\<forall>w. f (snd (m w)) = f w)"

named_theorems keeps_rules \<open>introduction rules for \<open>keeps\<close>\<close>

lemma keeps_return [keeps_rules]: "keeps f (io_return a)"
  by (simp add: keeps_def io_return_def)

lemma keeps_throw [keeps_rules]: "keeps f io_throw"
  by (simp add: keeps_def io_throw_def)

lemma keeps_bind [keeps_rules]: "keeps f m \<Longrightarrow> (\<And>a. keeps f (k a)) \<Longrightarrow> keeps f (io_bind m k)"
  unfolding keeps_def io_bind_def by (auto split: prod.split outcome.split) (metis snd_conv)+

lemma keeps_then [keeps_rules]: "keeps f m \<Longrightarrow> keeps f k \<Longrightarrow> keeps f (io_then m k)"
  by (simp add: io_then_def keeps_bind)

lemma keeps_catch [keeps_rules]: "keeps f m \<Longrightarrow> keeps f h \<Longrightarrow> keeps f (io_catch m h)"
  unfolding keeps_def io_catch_def by (auto split: prod.split outcome.split) (metis snd_conv)+

lemma keeps_if [keeps_rules]: "keeps f m \<Longrightarrow> keeps f k \<Longrightarrow> keeps f (if b then m else k)"
  by simp

lemma keeps_option [keeps_rules]:
  "keeps f m \<Longrightarrow> (\<And>x. keeps f (k x)) \<Longrightarrow> keeps f (case v of None \<Rightarrow> m | Some x \<Rightarrow> k x)"
  by (simp split: option.split)

lemma keeps_prod [keeps_rules]: "(\<And>x y. keeps f (k x y)) \<Longrightarrow> keeps f (case p of (x, y) \<Rightarrow> k x y)"
  by (simp split: prod.split)

lemma keeps_get [keeps_rules]: "keeps f (get_world g)"
  by (simp add: keeps_def get_world_def)

lemma keeps_upd: "(\<And>w. f (g w) = f w) \<Longrightarrow> keeps f (upd_world g)"
  by (simp add: keeps_def upd_world_def)

lemma keeps_queries [keeps_rules]: "keeps f (is_closed sid)" "keeps f (user_of sid)" "keeps f (session_of uid)"
  by (simp_all add: is_closed_def user_of_def session_of_def keeps_get)

lemma keeps_db_query: "(\<And>e d. snd (q e d) = d) \<Longrightarrow> keeps cdb (db_call E q)"
  by (auto simp: keeps_def db_call_def split: prod.split) (metis snd_conv)

lemma keeps_redis [keeps_rules]: "keeps cdb (redis_call q)" "keeps tbl (redis_call q)"
  by (simp_all add: keeps_def redis_call_def split: prod.split)

lemma keeps_db_tbl [keeps_rules]: "keeps tbl (db_call E q)" "keeps rds (db_call E q)"
  by (simp_all add: keeps_def db_call_def split: prod.split)

lemma keeps_send [keeps_rules]: "keeps cdb (send_raw sid text i)" "keeps rds (send_raw sid text i)"
    "keeps cdb (send_json E sid v i)" "keeps rds (send_json E sid v i)"
  by (simp_all add: keeps_def send_json_def send_raw_def split: prod.split)

lemma keeps_close [keeps_rules]: "keeps cdb (close_session sid)" "keeps rds (close_session sid)"
  by (simp_all add: close_session_def keeps_upd)

lemma keeps_peer [keeps_rules]: "keeps cdb (peer_rpc E call)" "keeps tbl (peer_rpc E call)" "keeps rds (peer_rpc E call)"
  by (simp_all add: keeps_def peer_rpc_def)

section \<open>The queries of the access layer\<close>

lemma with_connection_reads:
  assumes "wp body (\<lambda>_ c. durable c = d) (\<lambda>c. durable c = d) (fresh_conn d (sql_faults e))"
  shows "snd (with_connection e u body d) = d"
  using with_connection_cases [OF assms, of u] by (cases "with_connection e u body d") (auto split: outcome.splits)

lemma database_reads [simp]:
  "snd (GetUser e uid d) = d"
  "snd (GetUser_by_name ck e name d) = d"
  "snd (GetApplyList e to b l d) = d"
  "snd (GetFriendList e pe self d) = d"
  unfolding GetUser_def GetUser_by_name_def GetApplyList_def GetFriendList_def
  by (rule with_connection_reads, auto intro!: wp_rules wp_statement simp: select_apply_list_def split: if_splits)+

lemma message_reads [simp]:
  "snd (CheckFriendRelation e a b d) = d"
  "snd (GetPendingTextMessages e u l d) = d"
  using CheckFriendRelation_spec [of e a b d] GetPendingTextMessages_spec [of e u l d] by (metis prod.collapse)+

lemma keeps_friend_list [keeps_rules]: "keeps cdb (friend_list_call E uid)" "keeps tbl (friend_list_call E uid)"
    "keeps rds (friend_list_call E uid)"
  by (simp_all add: keeps_def friend_list_call_def db_call_def split: prod.split) (metis database_reads(4) snd_conv)

lemma keeps_deliver_loop [keeps_rules]: "keeps cdb (deliver_loop E sid now ms)"
  by (induction ms) (auto intro!: keeps_rules keeps_upd)

lemma keeps_deliver [keeps_rules]: "keeps cdb (DeliverPendingTextMessages E sid u)"
  unfolding DeliverPendingTextMessages_def
  by (auto intro!: keeps_rules keeps_upd keeps_db_query)

lemma keeps_profile [keeps_rules]: "keeps cdb (GetBaseInfo E k u)" "keeps cdb (GetFriendApplyInfo E u)" "keeps tbl (GetBaseInfo E k u)"
    "keeps tbl (GetFriendApplyInfo E u)" "keeps rds (GetFriendApplyInfo E u)"
  unfolding GetBaseInfo_def load_profile_def GetFriendApplyInfo_def
  by (auto intro!: keeps_rules keeps_db_query)

lemma keeps_search [keeps_rules]: "keeps cdb (SearchUserCallback E sid msg)"
  unfolding SearchUserCallback_def GetUserByUid_def GetUserByName_def store_found_def Let_def
  by (auto intro!: keeps_rules keeps_db_query)

lemma keeps_pending [keeps_rules]: "keeps f (PendingResources E uid)"
  by (simp add: keeps_def PendingResources_def)

lemma keeps_attempt [keeps_rules]: "keeps f m \<Longrightarrow> keeps f (attempt m)"
  unfolding attempt_def by (auto intro!: keeps_rules)

lemma keeps_login [keeps_rules]: "keeps cdb (LoginChatCallback E sid msg)"
  unfolding LoginChatCallback_def login_reply_def login_profile_def login_finish_def bind_user_def Let_def
  by (auto intro!: keeps_rules keeps_upd keeps_db_query)

lemma keeps_pieces [keeps_rules]: "keeps cdb (send_pieces E sid ss)"
  by (induction ss) (auto intro!: keeps_rules)

lemma keeps_heartbeat [keeps_rules]: "keeps cdb (HeartbeatCallback E sid msg)"
  unfolding HeartbeatCallback_def heartbeat_sync_def TouchActivity_def Let_def
  by (auto intro!: keeps_rules keeps_upd split: prod.split)

lemma keeps_resource [keeps_rules]: "keeps cdb (ResourceTokenCallback E sid msg)" "keeps cdb (ResourceRevokeCallback E sid)"
  unfolding ResourceTokenCallback_def ResourceRevokeCallback_def Let_def
  by (auto intro!: keeps_rules)

lemma keeps_notify [keeps_rules]: "keeps cdb (notify_apply E uid touid name rt)" "keeps cdb (notify_accepted E uid touid)"
  unfolding notify_apply_def notify_accepted_def Let_def
  by (auto intro!: keeps_rules)

section \<open>The writes\<close>

text \<open>The changes that a request of user \<open>u\<close> can make.\<close>

inductive request_effect :: "(string \<Rightarrow> string) \<Rightarrow> (string \<Rightarrow> string) \<Rightarrow> int \<Rightarrow> chat_db \<Rightarrow> chat_db \<Rightarrow> bool"
  for ck fit :: "string \<Rightarrow> string" and u :: int where
  nothing: "request_effect ck fit u d d"
| texts: "admissible u to ms \<Longrightarrow> mutual_friends d u to \<Longrightarrow> insert_all ck ms d = Some d' \<Longrightarrow> request_effect ck fit u d d'"
| acks: "request_effect ck fit u d (ack_all ck now u sender cids d)"
| applies: "u \<noteq> to \<Longrightarrow> insert_apply u to d = Some (n, d') \<Longrightarrow> request_effect ck fit u d d'"
| accepts: "accepted_db fit u applicant bk d = (1, d') \<Longrightarrow> request_effect ck fit u d d'"

text \<open>The rows in which the user takes no part.\<close>

definition others :: "int \<Rightarrow> chat_db \<Rightarrow> user_row list \<times> message_row list \<times> friend_row list \<times> apply_row list" where
  "others u d =
     (user_rows d,
      filter (\<lambda>r. sender_uid (m_msg r) \<noteq> u \<and> receiver_uid (m_msg r) \<noteq> u) (message_rows d),
      filter (\<lambda>r. self_id r \<noteq> u \<and> friend_id r \<noteq> u) (friend_rows d),
      filter (\<lambda>r. from_uid r \<noteq> u \<and> to_uid r \<noteq> u) (apply_rows d))"

lemma others_insert_all:
  "insert_all ck ms d = Some d' \<Longrightarrow> \<forall>m \<in> set ms. sender_uid m = u \<Longrightarrow> others u d' = others u d"
  by (induction ms arbitrary: d)
    (auto simp: insert_message_def others_def split: option.splits if_splits)

lemma filter_map_same:
  assumes "\<And>x. P (f x) = P x" and "\<And>x. P x \<Longrightarrow> f x = x"
  shows "filter P (map f xs) = filter P xs"
  using assms by (induction xs) auto

lemma others_acknowledge_one: "others u (acknowledge_one ck now u sender cid d) = others u d"
proof -
  have "filter (\<lambda>r. sender_uid (m_msg r) \<noteq> u \<and> receiver_uid (m_msg r) \<noteq> u)
      (map (acknowledge_row ck now u sender cid) rs)
    = filter (\<lambda>r. sender_uid (m_msg r) \<noteq> u \<and> receiver_uid (m_msg r) \<noteq> u) rs" for rs
    by (rule filter_map_same) (auto simp: acknowledge_row_def)
  then show ?thesis
    by (simp add: others_def acknowledge_one_def)
qed

lemma others_ack_all: "others u (ack_all ck now u sender cids d) = others u d"
  unfolding ack_all_def
  by (induction cids arbitrary: d) (simp_all add: others_acknowledge_one)

lemma others_accepted:
  assumes "accepted_db fit u b k d = (1, d')"
  shows "others u d' = others u d"
proof -
  have ins: "others u (snd (insert_ignore_friend fit x y k d)) = others u d" if "x = u \<or> y = u" for x y k d
    using that by (auto simp: others_def insert_ignore_friend_def)
  have acc: "others u (snd (accept_pending_apply b u d)) = others u d" for d
  proof -
    have "filter (\<lambda>r. from_uid r \<noteq> u \<and> to_uid r \<noteq> u) (map (\<lambda>r. if pending_apply b u r then r\<lparr>a_status := 1\<rparr> else r) rs)
      = filter (\<lambda>r. from_uid r \<noteq> u \<and> to_uid r \<noteq> u) rs" for rs
      by (rule filter_map_same) (auto simp: pending_apply_def)
    then show ?thesis
      by (simp add: others_def accept_pending_apply_def)
  qed
  have "d' = snd (accept_pending_apply b u (snd (insert_ignore_friend fit b u [] (snd (insert_ignore_friend fit u b k d)))))"
    using assms by (metis accepted_state_def snd_conv)
  then show ?thesis
    by (simp add: acc ins)
qed

lemma insert_apply_ok: "insert_apply a b d = Some (n, d') \<Longrightarrow> db_ok ck d \<Longrightarrow> db_ok ck d'"
  by (auto simp: insert_apply_def db_ok_def applies_ok_def sorted_wrt_append list_ex_iff less_Suc_eq split: if_splits)

lemma request_effect_sound:
  assumes "request_effect ck fit u d d'" and "db_ok ck d"
  shows "db_ok ck d' \<and> others u d' = others u d"
  using assms
proof (induction rule: request_effect.induct)
  case (texts to ms d d')
  then show ?case
    using insert_all_ok others_insert_all [of ck ms d d' u] by (auto simp: admissible_def valid_message_def)
next
  case (applies to d n d')
  then show ?case
    using insert_apply_ok [of u to d n d' ck] by (auto simp: insert_apply_def others_def split: if_splits)
next
  case (accepts applicant bk d d')
  then show ?case
    using accepted_db_effect others_accepted by blast
qed (simp_all add: ack_all_ok others_ack_all)

text \<open>An action that changes the database by one such change at most.\<close>

definition acts :: "(chat_db \<Rightarrow> chat_db \<Rightarrow> bool) \<Rightarrow> ('r, 'a) action \<Rightarrow> 'r chat_world \<Rightarrow> bool" where
  "acts R m w \<longleftrightarrow> R (cdb w) (cdb (snd (m w)))"

lemma acts_keeps: "keeps cdb m \<Longrightarrow> R (cdb w) (cdb w) \<Longrightarrow> acts R m w"
  by (simp add: acts_def keeps_def)

lemma acts_after:
  assumes "keeps cdb m" and "R (cdb w) (cdb w)" and "\<And>a w'. cdb w' = cdb w \<Longrightarrow> acts R (f a) w'"
  shows "acts R (io_bind m f) w"
proof -
  obtain r w' where m: "m w = (r, w')"
    by fastforce
  then have "cdb w' = cdb w"
    using assms(1) by (metis keeps_def snd_conv)
  then show ?thesis
    using assms(2) assms(3) [of w'] m by (simp add: acts_def io_bind_def split: outcome.split)
qed

lemma acts_before: "acts R m w \<Longrightarrow> (\<And>a. keeps cdb (f a)) \<Longrightarrow> acts R (io_bind m f) w"
  by (auto simp: acts_def keeps_def io_bind_def split: prod.split outcome.split)

lemma acts_user: "acts R (f (GetUserId sid (tbl w))) w \<Longrightarrow> acts R (io_bind (user_of sid) f) w"
  by (simp add: acts_def io_bind_def user_of_def get_world_def)

lemma acts_leaf: "R (cdb w) (cdb w) \<Longrightarrow> acts R (io_return a) w" "R (cdb w) (cdb w) \<Longrightarrow> acts R (close_session sid) w"
  by (simp_all add: acts_keeps keeps_rules)

lemma acts_if: "(b \<Longrightarrow> acts R m w) \<Longrightarrow> (\<not> b \<Longrightarrow> acts R k w) \<Longrightarrow> acts R (if b then m else k) w"
  by simp

lemma acts_relation:
  "R (cdb w) (cdb w) \<Longrightarrow> (\<And>a w'. cdb w' = cdb w \<Longrightarrow> acts R (f a) w') \<Longrightarrow>
   acts R (io_bind (db_call E (\<lambda>e. CheckFriendRelation e x y)) f) w"
  by (rule acts_after) (auto intro!: keeps_db_query)

lemma acts_profile:
  assumes "R (cdb w) (cdb w)" and "\<And>a w'. cdb w' = cdb w \<Longrightarrow> acts R (f a) w'"
  shows "acts R (io_bind (db_call E (\<lambda>e. GetUser e x)) f) w" and "acts R (io_bind (GetBaseInfo E k x) f) w"
  using assms by (auto intro!: acts_after keeps_rules keeps_db_query)

lemma acts_db_call: "(\<And>e d'. snd (q e (cdb w)) = d' \<Longrightarrow> R (cdb w) d') \<Longrightarrow> acts R (db_call E q) w"
  by (auto simp: acts_def db_call_def split: prod.split) (metis snd_conv)

definition allowed :: "'r chat_env \<Rightarrow> int \<Rightarrow> chat_db \<Rightarrow> chat_db \<Rightarrow> bool" where
  "allowed E u d d' \<longleftrightarrow> (friends_ok d \<longrightarrow> request_effect (collate E) (column_fit E) u d d')"

lemma allowed_refl [simp]: "allowed E u d d"
  by (simp add: allowed_def request_effect.nothing)

lemma acts_accept: "acts (allowed E u) (accept_call E u to ms) w"
proof -
  let ?fr = "\<lambda>a b. db_call E (\<lambda>e. CheckFriendRelation e a b)"
  let ?ps = "\<lambda>ms. db_call E (\<lambda>e. PersistTextMessages (collate E) e ms)"
  obtain r w' where acc: "accept ?fr ?ps u to ms w = (r, w')"
    by fastforce
  have "allowed E u (cdb w) (cdb w')"
  proof (cases "admissible u to ms")
    case False
    then show ?thesis
      using acc accept_rejects [OF False, of ?fr ?ps w] by simp
  next
    case True
    obtain q w1 where q: "?fr u to w = (q, w1)"
      by fastforce
    then have w1: "cdb w1 = cdb w" "q = Returns None \<or> q = Returns (Some (count_relation u to (cdb w) = 2))"
      using CheckFriendRelation_spec [of "db_env E (db_calls w)" u to "cdb w"] by (auto simp: db_call_def split: prod.splits)
    obtain p w2 where p: "?ps ms w1 = (p, w2)"
      by fastforce
    have w2: "w' = w1 \<or> (q = Returns (Some True) \<and> w' = w2)"
      using acc q p unfolding accept_admissible [OF True] by (auto split: outcome.splits option.splits bool.splits)
    have "ms \<noteq> []" "u \<noteq> to"
      using True by (simp_all add: admissible_def)
    then have "cdb w2 = cdb w \<or> insert_all (collate E) ms (cdb w) = Some (cdb w2)"
      using p PersistTextMessages_spec [of ms "collate E" "db_env E (db_calls w1)" "cdb w1"] w1(1)
      by (auto simp: db_call_def split: prod.splits)
    moreover have "mutual_friends (cdb w) u to" if "q = Returns (Some True)" "friends_ok (cdb w)"
      using that w1(2) count_relation_iff [OF that(2) \<open>u \<noteq> to\<close>] by simp
    ultimately show ?thesis
      using w2 w1(1) True by (auto simp: allowed_def request_effect.nothing intro: request_effect.texts)
  qed
  then show ?thesis
    using acc by (simp add: acts_def accept_call_def)
qed

lemma acts_text_reply: "acts (allowed E u) (text_reply E u req) w"
  unfolding text_reply_def Let_def post_notification_def
  by (intro acts_if acts_leaf acts_before acts_accept allowed_refl) (auto intro!: keeps_rules keeps_upd)

lemma acts_acknowledge:
  "acts (allowed E u) (db_call E (\<lambda>e. AcknowledgeTextMessages (collate E) e u sender cids)) w"
proof (rule acts_db_call)
  fix e d'
  assume "snd (AcknowledgeTextMessages (collate E) e u sender cids (cdb w)) = d'"
  then obtain r where r: "AcknowledgeTextMessages (collate E) e u sender cids (cdb w) = (r, d')"
    by (metis prod.collapse)
  show "allowed E u (cdb w) d'"
  proof (cases "0 < u \<and> 0 < sender \<and> cids \<noteq> []")
    case True
    then show ?thesis
      using AcknowledgeTextMessages_spec [OF _ _ _ r] by (auto simp: allowed_def intro: request_effect.nothing request_effect.acks)
  qed (use r in \<open>auto simp: AcknowledgeTextMessages_def split: if_splits\<close>)
qed

lemma AddFriendApply_effect:
  assumes "snd (AddFriendApply e a b d) = d'"
  shows "d' = d \<or> (\<exists>n. insert_apply a b d = Some (n, d'))"
proof -
  let ?Q = "\<lambda>d'. d' = d \<or> (\<exists>n. insert_apply a b d = Some (n, d'))"
  obtain r where r: "AddFriendApply e a b d = (r, d')"
    using assms by (metis prod.collapse)
  have "wp (io_catch (io_bind (statement (insert_apply a b)) (\<lambda>rowAffected. io_return (\<not> rowAffected < 0))) (io_return False))
      (\<lambda>_ c. ?Q (durable c)) (\<lambda>c. ?Q (durable c)) (fresh_conn d (sql_faults e))"
    by (auto intro!: wp_rules wp_statement)
  from with_connection_cases [OF this, of False r d'] show ?thesis
    using r by (auto simp: AddFriendApply_def split: outcome.splits)
qed

lemma acts_add_friend: "acts (allowed E u) (add_friend_reply E u req) w"
proof -
  have ins: "acts (allowed E u) (db_call E (\<lambda>e. AddFriendApply e u to)) w'" if "u \<noteq> to" for to and w' :: "'a chat_world"
  proof (rule acts_db_call)
    fix e d'
    assume "snd (AddFriendApply e u to (cdb w')) = d'"
    from AddFriendApply_effect [OF this] show "allowed E u (cdb w') d'"
      using that by (auto simp: allowed_def intro: request_effect.nothing request_effect.applies)
  qed
  show ?thesis
    unfolding add_friend_reply_def Let_def
    by (auto intro!: acts_relation acts_profile acts_if acts_leaf split: option.split bool.split)
      ((rule acts_before [OF ins], auto intro!: keeps_rules)+)
qed

lemma acts_auth_friend: "acts (allowed E u) (auth_friend_reply E u req) w"
proof -
  have acc: "acts (allowed E u) (db_call E (\<lambda>e. AddFriend (column_fit E) e u to k)) w'" for to k and w' :: "'a chat_world"
  proof (rule acts_db_call)
    fix e d'
    assume "snd (AddFriend (column_fit E) e u to k (cdb w')) = d'"
    then have "AddFriend (column_fit E) e u to k (cdb w') = (fst (AddFriend (column_fit E) e u to k (cdb w')), d')"
      by (metis prod.collapse)
    then show "allowed E u (cdb w') d'"
      using AddFriend_spec by (fastforce simp: allowed_def intro: request_effect.nothing request_effect.accepts)
  qed
  have finish: "acts (allowed E u) (io_bind (if friends then io_return Success else db_call E (\<lambda>e. AddFriend (column_fit E) e u to k))
      (\<lambda>acceptance. if acceptance = PendingMissing then io_return x else if acceptance = StorageError then io_return y
         else io_then (notify_accepted E u to) (io_return z))) w'" for friends to k x y z and w' :: "'a chat_world"
    by (intro acts_before acts_if acts_leaf acc keeps_rules allowed_refl)
  have decide: "acts (allowed E u) (if b then io_return v else io_bind (db_call E (\<lambda>e. CheckFriendRelation e u to)) (\<lambda>relation.
      case relation of None \<Rightarrow> io_return x' | Some friends \<Rightarrow>
        io_bind (if friends then io_return Success else db_call E (\<lambda>e. AddFriend (column_fit E) e u to k))
          (\<lambda>acceptance. if acceptance = PendingMissing then io_return x else if acceptance = StorageError then io_return y
             else io_then (notify_accepted E u to) (io_return z)))) w'" for b v to k x' x y z and w' :: "'a chat_world"
    by (intro acts_if acts_leaf acts_relation) (simp_all add: acts_leaf finish split: option.split)
  show ?thesis
    unfolding auth_friend_reply_def Let_def by (rule acts_profile(2)) (rule allowed_refl decide)+
qed

lemma acts_callback:
  assumes "callback E i = Some f"
  shows "acts (allowed E (GetUserId sid (tbl w))) (f sid body) w"
proof -
  have "acts (allowed E (GetUserId sid (tbl w))) (AddFriendCallback E sid body) w"
    "acts (allowed E (GetUserId sid (tbl w))) (AuthFriendCallback E sid body) w"
    "acts (allowed E (GetUserId sid (tbl w))) (TextChatMsgCallback E sid body) w"
    "acts (allowed E (GetUserId sid (tbl w))) (TextChatAckCallback E sid body) w"
    unfolding AddFriendCallback_def AuthFriendCallback_def TextChatMsgCallback_def TextChatAckCallback_def Let_def
    by (auto intro!: acts_user acts_leaf acts_before acts_add_friend acts_auth_friend acts_text_reply acts_acknowledge
        keeps_rules keeps_upd split: option.split)
  then show ?thesis
    using assms by (auto simp: callback_def intro!: acts_keeps keeps_rules split: if_splits)
qed

lemma DealMsg_cases:
  assumes "DealMsg E sid i body w = (res, w')"
  obtains (skipped) "res = Returns ()" "w' = w"
  | (closed) "res = Returns ()" "w' = w\<lparr>tbl := CloseSession sid (tbl w)\<rparr>"
  | (handled) f where "callback E i = Some f" "i = MSG_CHAT_LOGIN \<or> 0 < GetUserId sid (tbl w)"
      "io_catch (f sid body) (close_session sid) w = (res, w')"
proof (cases "IsClosed sid (tbl w) \<or> callback E i = None \<or> (i \<noteq> MSG_CHAT_LOGIN \<and> GetUserId sid (tbl w) \<le> 0)")
  case True
  then show ?thesis
    using assms skipped closed
    by (auto simp: DealMsg_def io_bind_def is_closed_def user_of_def get_world_def io_return_def close_session_def upd_world_def
        split: if_splits option.splits)
next
  case False
  then show ?thesis
    using assms handled by (auto simp: DealMsg_def io_bind_def is_closed_def user_of_def get_world_def)
qed

lemma DealMsg_acts:
  assumes "DealMsg E sid i body w = (res, w')"
  shows "res = Returns () \<and> (GetUserId sid (tbl w) \<le> 0 \<longrightarrow> cdb w' = cdb w)
    \<and> allowed E (GetUserId sid (tbl w)) (cdb w) (cdb w')"
  using assms
proof (cases rule: DealMsg_cases)
  case (handled f)
  let ?uid = "GetUserId sid (tbl w)"
  obtain r w1 where f: "f sid body w = (r, w1)"
    by fastforce
  have "allowed E ?uid (cdb w) (cdb w1)"
    using acts_callback [OF handled(1), of sid w body] f by (simp add: acts_def)
  moreover have "cdb w1 = cdb w" if "?uid \<le> 0"
  proof -
    have "f = LoginChatCallback E"
      using handled(1,2) that by (simp add: callback_def)
    then show ?thesis
      using keeps_login [of E sid body] f by (metis keeps_def snd_conv)
  qed
  moreover have "res = Returns ()" "cdb w' = cdb w1"
    using handled(3) f by (auto simp: io_catch_def close_session_def upd_world_def split: outcome.splits)
  ultimately show ?thesis
    by simp
qed simp_all

text \<open>
  C5: A request acts for the user of its session and for nobody else. Whatever a client sends, and
  whatever fails: handling the message ends, the tables stay well formed, and the change to
  them is one of those of \<open>request_effect\<close> for the user the session was bound to at login
  (new messages from that user to a mutual friend, acknowledgements of messages to that user, an
  application by that user, an acceptance of an application to that user). No row in which
  that user takes no part changes, and a session that is not logged in changes nothing.
\<close>

theorem request_authority:
  assumes "db_ok (collate E) (cdb w)" and "DealMsg E sid i body w = (res, w')"
  shows "res = Returns () \<and> db_ok (collate E) (cdb w')
    \<and> request_effect (collate E) (column_fit E) (GetUserId sid (tbl w)) (cdb w) (cdb w')
    \<and> others (GetUserId sid (tbl w)) (cdb w') = others (GetUserId sid (tbl w)) (cdb w)
    \<and> (GetUserId sid (tbl w) \<le> 0 \<longrightarrow> cdb w' = cdb w)"
proof -
  have "request_effect (collate E) (column_fit E) (GetUserId sid (tbl w)) (cdb w) (cdb w')"
    using DealMsg_acts [OF assms(2)] assms(1) by (simp add: allowed_def db_ok_def)
  then show ?thesis
    using request_effect_sound [OF _ assms(1)] DealMsg_acts [OF assms(2)] by blast
qed

theorem request_authority_witness:
  "\<exists>res w'. DealMsg sample_env ''s'' ID_TEXT_CHAT_MSG_REQ ''{}'' (sample_world sample_db) = (res, w')
     \<and> res = Returns () \<and> cdb w' = sample_db"
proof -
  obtain res w' where r: "DealMsg sample_env ''s'' ID_TEXT_CHAT_MSG_REQ ''{}'' (sample_world sample_db) = (res, w')"
    by fastforce
  have "db_ok (collate sample_env) (cdb (sample_world sample_db))"
    by (simp add: db_ok_def messages_ok_def friends_ok_def applies_ok_def sample_simps sample_env_def sample_world_def)
  from request_authority [OF this r] show ?thesis
    using r by (simp add: sample_world_def GetUserId_def empty_table_def new_session_def)
qed

end
