(* ===== verification/Request_Outcome.thy ===== *)
theory Request_Outcome
  imports Request_Authority
begin

text \<open>What the answers of the handlers promise: acceptance of messages, login, recovery.\<close>

section \<open>Acceptance\<close>

lemma bind_user_of: "io_bind (user_of sid) f w = f (GetUserId sid (tbl w)) w"
  by (simp add: io_bind_def user_of_def get_world_def)

lemma db_call_result:
  assumes "db_call E q w = (r, w')"
  shows "q (db_env E (db_calls w)) (cdb w) = (r, cdb w') \<and> w' = w\<lparr>cdb := cdb w', db_calls := db_calls w + 1\<rparr>"
  using assms by (auto simp: db_call_def split: prod.splits)

lemma accept_call_result:
  assumes "accept_call E u to ms w = (res, w')" and "friends_ok (cdb w)"
  shows "\<exists>r n. res = Returns r \<and> w' = w\<lparr>cdb := cdb w', db_calls := n\<rparr>
    \<and> (r = Accepted \<longrightarrow> admissible u to ms \<and> mutual_friends (cdb w) u to \<and> (\<forall>m \<in> set ms. holds_message (collate E) (cdb w') m))"
proof -
  let ?fr = "\<lambda>a b. db_call E (\<lambda>e. CheckFriendRelation e a b)"
  let ?ps = "\<lambda>ms. db_call E (\<lambda>e. PersistTextMessages (collate E) e ms)"
  obtain r where acc: "accept ?fr ?ps u to ms w = (r, w')" "res = Returns r"
    using assms(1) by (auto simp: accept_call_def split: prod.splits)
  have "\<exists>n. w' = w\<lparr>cdb := cdb w', db_calls := n\<rparr>"
  proof (cases "admissible u to ms")
    case False
    then have "w' = w"
      using acc(1) accept_rejects [OF False, of ?fr ?ps w] by simp
    then have "w' = w\<lparr>cdb := cdb w', db_calls := db_calls w\<rparr>"
      by simp
    then show ?thesis ..
  next
    case True
    obtain q w1 p w2 where q: "?fr u to w = (q, w1)" and p: "?ps ms w1 = (p, w2)"
      by (metis surj_pair)
    have "w' = w1 \<or> w' = w2"
      using acc(1) q p unfolding accept_admissible [OF True] by (auto split: outcome.splits option.splits bool.splits)
    moreover obtain d1 n1 d2 n2 where "w1 = w\<lparr>cdb := d1, db_calls := n1\<rparr>" "w2 = w1\<lparr>cdb := d2, db_calls := n2\<rparr>"
      using db_call_result [OF q] db_call_result [OF p] by blast
    ultimately show ?thesis
      by auto
  qed
  moreover have "admissible u to ms \<and> mutual_friends (cdb w) u to \<and> (\<forall>m \<in> set ms. holds_message (collate E) (cdb w') m)"
    if "r = Accepted"
  proof (rule accept_AcceptedE [OF acc(1) [unfolded that]])
    fix w1
    assume adm: "admissible u to ms" and f: "?fr u to w = (Returns (Some True), w1)" and p: "?ps ms w1 = (Returns True, w')"
    have "ms \<noteq> []" "u \<noteq> to"
      using adm by (simp_all add: admissible_def)
    moreover have "cdb w1 = cdb w" "count_relation u to (cdb w) = 2"
      using CheckFriendRelation_spec [of "db_env E (db_calls w)" u to "cdb w"] db_call_result [OF f] by auto
    moreover have "insert_all (collate E) ms (cdb w1) = Some (cdb w')"
      using PersistTextMessages_spec [OF \<open>ms \<noteq> []\<close>] db_call_result [OF p] by blast
    ultimately show ?thesis
      using adm count_relation_iff [OF assms(2)] insert_all_holds by metis
  qed
  ultimately show ?thesis
    using acc(2) by blast
qed

text \<open>What the reply to a text request says about the batch of the request.\<close>

definition reply_truthful :: "'r chat_env \<Rightarrow> int \<Rightarrow> json \<Rightarrow> 'r chat_world \<Rightarrow> json \<Rightarrow> 'r chat_world \<Rightarrow> bool" where
  "reply_truthful E u req w rt w' \<longleftrightarrow>
     (let to = int_val (field ''touid'' req); ms = map (text_of_item u to) (items (field ''text_array'' req)) in
      if field ''error'' rt = code ERROR_CODE_OK
      then field ''delivery'' rt = JStr ''accepted'' \<and> admissible u to ms \<and> mutual_friends (cdb w) u to
        \<and> (\<forall>m \<in> set ms. holds_message (collate E) (cdb w') m)
        \<and> (post_room E (posts w) \<longrightarrow> notifications w' = notifications w @ [(to, ms)])
      else field ''delivery'' rt = JNull \<and> notifications w' = notifications w)"

lemma code_inject [simp]: "code a = code b \<longleftrightarrow> a = b"
  unfolding code_def by (cases a; cases b) simp_all

definition text_base :: "int \<Rightarrow> json \<Rightarrow> json" where
  "text_base u req = JObj [(''error'', code ERROR_CODE_OK), (''text_array'', field ''text_array'' req), (''fromuid'', JInt u),
     (''touid'', JInt (int_val (field ''touid'' req)))]"

lemma text_base_fields [simp]:
  "isObject (text_base u req)" "field ''error'' (text_base u req) = code ERROR_CODE_OK" "field ''delivery'' (text_base u req) = JNull"
  by (simp_all add: text_base_def field_def)

lemma truthful_refusal:
  assumes "e \<noteq> ERROR_CODE_OK" and "notifications w' = notifications w"
  shows "reply_truthful E u req w (set_error e (text_base u req)) w'"
    and "reply_truthful E u req w (set_member ''retryable'' v (set_error e (text_base u req))) w'"
  using assms by (simp_all add: reply_truthful_def set_error_def Let_def)

lemma text_reply_result:
  assumes "text_reply E u req w = (res, w')" and "friends_ok (cdb w)"
  shows "\<exists>rt. res = Returns rt \<and> reply_truthful E u req w rt w' \<and> tbl w' = tbl w"
proof (cases "list_all text_item_ok (items (field ''text_array'' req))")
  case False
  then have "res = Returns (set_error JSON_ERROR (text_base u req))" "w' = w"
    using assms(1) by (simp_all add: text_reply_def io_return_def text_base_def Let_def)
  then show ?thesis
    by (simp add: truthful_refusal)
next
  case True
  let ?to = "int_val (field ''touid'' req)"
  let ?ms = "map (text_of_item u ?to) (items (field ''text_array'' req))"
  obtain r1 w1 where acc: "accept_call E u ?to ?ms w = (r1, w1)"
    by fastforce
  from accept_call_result [OF this assms(2)] obtain r n where r: "r1 = Returns r" "w1 = w\<lparr>cdb := cdb w1, db_calls := n\<rparr>"
    "r = Accepted \<longrightarrow> admissible u ?to ?ms \<and> mutual_friends (cdb w) u ?to \<and> (\<forall>m \<in> set ?ms. holds_message (collate E) (cdb w1) m)"
    by blast
  have w1: "tbl w1 = tbl w" "posts w1 = posts w" "notifications w1 = notifications w"
    by (subst r(2), simp)+
  have run: "(if r = InvalidMessage then io_return (set_error JSON_ERROR (text_base u req))
      else if r = InvalidRecipient then io_return (set_error UidInvalid (text_base u req))
      else if r \<noteq> Accepted then io_return (set_member ''retryable'' (JBool True) (set_error RPC_ERROR (text_base u req)))
      else io_then (post_notification E ?to ?ms) (io_return (set_member ''delivery'' (JStr ''accepted'') (text_base u req)))) w1 = (res, w')"
    using assms(1) True acc r(1) by (simp add: text_reply_def Let_def io_bind_def text_base_def cong: if_cong split del: if_split)
  show ?thesis
  proof (cases "r = Accepted")
    case accepted: True
    let ?rt = "set_member ''delivery'' (JStr ''accepted'') (text_base u req)"
    have res: "res = Returns ?rt"
      "w' = (if post_room E (posts w) then w1\<lparr>posts := posts w + 1, notifications := notifications w @ [(?to, ?ms)]\<rparr>
        else w1\<lparr>posts := posts w + 1\<rparr>)"
      using run accepted w1
      by (cases "post_room E (posts w)", auto simp: io_then_def io_bind_def post_notification_def upd_world_def io_return_def)+
    have "cdb w' = cdb w1" "tbl w' = tbl w"
      unfolding res(2) using w1 by simp_all
    moreover have "post_room E (posts w) \<longrightarrow> notifications w' = notifications w @ [(?to, ?ms)]"
      unfolding res(2) by simp
    ultimately show ?thesis
      using res(1) r(3) accepted by (simp add: reply_truthful_def Let_def)
  next
    case False
    then show ?thesis
      using run w1 by (cases r) (auto simp: io_return_def truthful_refusal)
  qed
qed

text \<open>
  C2: An accepted text request is durable before it is answered. Whatever happens in handling it,
  the session gets at most one answer, and an answer without an error says \<open>accepted\<close> and means that
  the batch was admissible, that sender and receiver are mutual friends, that every message of
  the request is stored with the user of the session as sender, and that the receiver's server is
  told if there is room. An answer with an error never says \<open>accepted\<close> and notifies nobody.
\<close>

theorem acceptance_durable:
  assumes "db_ok (collate E) (cdb w)" and "DealMsg E sid ID_TEXT_CHAT_MSG_REQ body w = (res, w')"
  shows "outbox sid w' = outbox sid w \<or>
    (\<exists>req rt. parse_json (lib E) body = Some req \<and> 0 < GetUserId sid (tbl w)
       \<and> outbox sid w' = outbox sid w @ [SendNode (bytes_of (toStyledString (lib E) rt)) ID_TEXT_CHAT_MSG_RSP]
       \<and> reply_truthful E (GetUserId sid (tbl w)) req w rt w')"
proof -
  let ?u = "GetUserId sid (tbl w)"
  have close: "outbox sid (w\<lparr>tbl := CloseSession sid (tbl w)\<rparr>) = outbox sid w"
    by (simp add: outbox_def CloseSession_def close_send_def)
  from assms(2) show ?thesis
  proof (cases rule: DealMsg_cases)
    case (handled f)
    then have 3: "0 < ?u" "io_catch (TextChatMsgCallback E sid body) (close_session sid) w = (res, w')"
      by (auto simp: callback_def)
    have "TextChatMsgCallback E sid body w = (Returns (), w\<lparr>tbl := CloseSession sid (tbl w)\<rparr>)
      \<or> (\<exists>req. parse_json (lib E) body = Some req \<and> TextChatMsgCallback E sid body w =
          io_bind (text_reply E ?u req) (\<lambda>rt. io_then (send_json E sid rt ID_TEXT_CHAT_MSG_RSP) (io_return ())) w)"
      by (cases "parse_json (lib E) body")
        (simp_all add: TextChatMsgCallback_def bind_user_of close_session_def upd_world_def)
    then consider "TextChatMsgCallback E sid body w = (Returns (), w\<lparr>tbl := CloseSession sid (tbl w)\<rparr>)"
      | req where "parse_json (lib E) body = Some req" "TextChatMsgCallback E sid body w =
          io_bind (text_reply E ?u req) (\<lambda>rt. io_then (send_json E sid rt ID_TEXT_CHAT_MSG_RSP) (io_return ())) w"
      by blast
    then show ?thesis
    proof cases
      case 1
      then show ?thesis
        using 3(2) close by (simp add: io_catch_def)
    next
      case (2 req)
      obtain r1 w1 where t: "text_reply E ?u req w = (r1, w1)"
        by fastforce
      from text_reply_result [OF this] obtain rt where rt: "r1 = Returns rt" "reply_truthful E ?u req w rt w1" "tbl w1 = tbl w"
        using assms(1) by (auto simp: db_ok_def)
      obtain r2 w2 where s: "send_json E sid rt ID_TEXT_CHAT_MSG_RSP w1 = (r2, w2)"
        by fastforce
      from s show ?thesis
      proof (cases rule: send_json_cases)
        case sent
        then have "w' = w2"
          using 2(2) 3(2) t rt(1) s by (simp add: io_catch_def io_bind_def io_then_def io_return_def)
        moreover have "reply_truthful E ?u req w rt w2"
          using sent(3) rt(2) by (auto simp: reply_truthful_def Let_def)
        ultimately show ?thesis
          using sent(2) rt(3) 2(1) 3(1) by (auto simp: outbox_def)
      next
        case refused
        then have "w' = w2"
          using 2(2) 3(2) t rt(1) s by (simp add: io_catch_def io_bind_def io_then_def io_return_def)
        then show ?thesis
          using refused(2) rt(3) by (simp add: outbox_def)
      qed
    qed
  qed (use close in simp_all)
qed

definition text_env :: "(time \<times> keyspace) chat_env" where
  "text_env = sample_env\<lparr>lib := (lib sample_env)\<lparr>parse_json := (\<lambda>_. Some (JObj [(''touid'', JInt 2),
     (''text_array'', JArr [JObj [(''content'', JStr ''hi''), (''msgid'', JStr ''m'')]])]))\<rparr>\<rparr>"

definition user_world :: "int \<Rightarrow> chat_db \<Rightarrow> (time \<times> keyspace) chat_world" where
  "user_world u d = (sample_world d)\<lparr>tbl := SetUserId ''s'' u empty_table\<rparr>"

theorem acceptance_durable_witness:
  "\<exists>res w'. DealMsg text_env ''s'' ID_TEXT_CHAT_MSG_REQ ''x'' (user_world 1 sample_db) = (res, w')
     \<and> (outbox ''s'' w' = outbox ''s'' (user_world 1 sample_db)
        \<or> (\<exists>req rt. reply_truthful text_env 1 req (user_world 1 sample_db) rt w'))"
proof -
  obtain res w' where r: "DealMsg text_env ''s'' ID_TEXT_CHAT_MSG_REQ ''x'' (user_world 1 sample_db) = (res, w')"
    by fastforce
  have ok: "db_ok (collate text_env) (cdb (user_world 1 sample_db))"
    by (simp add: db_ok_def messages_ok_def friends_ok_def applies_ok_def sample_simps sample_env_def text_env_def user_world_def
        sample_world_def)
  have "GetUserId ''s'' (tbl (user_world 1 sample_db)) = 1"
    by (simp add: user_world_def GetUserId_def SetUserId_def empty_table_def new_session_def new_send_side_def Let_def)
  then show ?thesis
    using acceptance_durable [OF ok r] r by auto
qed

section \<open>Login\<close>

text \<open>The single commands leave the other keys alone.\<close>

lemma redisCommand_other:
  assumes "redis_server c now ks" and "\<And>t m. snd (redis_effect t args m) x = m x"
  shows "ks (snd (redisCommand c args s)) x = ks s x"
proof -
  obtain r s' where r: "redisCommand c args s = (r, s')"
    by fastforce
  from assms(1) r show ?thesis
  proof (rule redisCommand_cases)
    fix t
    assume "\<And>v. r = Some v \<Longrightarrow> redis_effect t args (ks s) = (v, ks s')"
      and "r = None \<Longrightarrow> ks s' = ks s \<or> ks s' = snd (redis_effect t args (ks s))"
    then show ?thesis
      using r assms(2) [of t "ks s"] by (cases r) (metis snd_conv)+
  qed
qed

lemma keeps_other_keys:
  assumes "redis_server (link E) now ks" and "x \<noteq> c_str k"
  shows "keeps (\<lambda>w. ks (rds w) x) (redis_call (Get (link E) k))"
    and "keeps (\<lambda>w. ks (rds w) x) (redis_call (Set (link E) k v))"
    and "keeps (\<lambda>w. ks (rds w) x) (redis_call (Del (link E) k))"
proof -
  have eff: "snd (redis_effect t [''GET'', c_str k] m) x = m x" "snd (redis_effect t [''SET'', c_str k, c_str v] m) x = m x"
    "snd (redis_effect t [''DEL'', c_str k] m) x = m x" for t m
    using assms(2) by (simp_all add: redis_effect_def delete_effect_def)
  have "ks (snd (Get (link E) k s)) x = ks s x" "ks (snd (Set (link E) k v s)) x = ks s x" "ks (snd (Del (link E) k s)) x = ks s x" for s
    using redisCommand_other [OF assms(1) eff(1), of s] redisCommand_other [OF assms(1) eff(2), of s]
      redisCommand_other [OF assms(1) eff(3), of s]
    by (auto simp: Get_def Set_def Del_def split: prod.splits option.splits reply.splits)
  then show "keeps (\<lambda>w. ks (rds w) x) (redis_call (Get (link E) k))"
    "keeps (\<lambda>w. ks (rds w) x) (redis_call (Set (link E) k v))"
    "keeps (\<lambda>w. ks (rds w) x) (redis_call (Del (link E) k))"
    by (auto simp: keeps_def redis_call_def split: prod.split) (metis snd_conv)+
qed

lemma wp_keeps:
  "keeps f m \<Longrightarrow> (\<And>a w'. f w' = f w \<Longrightarrow> Q a w') \<Longrightarrow> (\<And>w'. f w' = f w \<Longrightarrow> X w') \<Longrightarrow> wp m Q X w"
  by (auto simp: wp_def keeps_def split: prod.split outcome.split) (metis snd_conv)+

text \<open>Database calls touch neither the sessions nor Redis.\<close>

lemma keeps_database [keeps_rules]:
  "keeps (\<lambda>w. GetUserId x (tbl w)) (db_call E q)" "keeps (\<lambda>w. ks (rds w) k) (db_call E q)"
  "keeps (\<lambda>w. ks (rds w) k) (friend_list_call E u)" "keeps (\<lambda>w. ks (rds w) k) (GetFriendApplyInfo E u)"
  by (simp_all add: keeps_def friend_list_call_def GetFriendApplyInfo_def db_call_def split: prod.split)

lemma keeps_user_send [keeps_rules]: "keeps (\<lambda>w. GetUserId x (tbl w)) (send_raw sid text i)" "keeps (\<lambda>w. GetUserId x (tbl w)) (send_json E sid v i)"
  by (simp_all add: keeps_def send_json_def send_raw_def split: prod.split) (metis session_send_user snd_conv)+

lemma keeps_user_close [keeps_rules]: "keeps (\<lambda>w. GetUserId x (tbl w)) (close_session sid)"
  by (simp add: close_session_def keeps_upd)

lemma keeps_user_deliver [keeps_rules]: "keeps (\<lambda>w. GetUserId x (tbl w)) (DeliverPendingTextMessages E sid u)"
proof -
  have "keeps (\<lambda>w. GetUserId x (tbl w)) (deliver_loop E sid now ms)" for now ms
    by (induction ms) (auto intro!: keeps_rules keeps_upd)
  then show ?thesis
    unfolding DeliverPendingTextMessages_def
    by (auto intro!: keeps_rules keeps_upd split: option.split)
qed

lemma keeps_rds_deliver [keeps_rules]: "keeps rds (DeliverPendingTextMessages E sid u)"
proof -
  have "keeps rds (deliver_loop E sid now ms)" for now ms
    by (induction ms) (auto intro!: keeps_rules keeps_upd)
  then show ?thesis
    unfolding DeliverPendingTextMessages_def by (auto intro!: keeps_rules keeps_upd split: option.split)
qed

lemma ticket_key_differs: "ticket_key token \<noteq> c_str (base_key_of u)" "ticket_key token \<noteq> c_str (uip_key u)"
  by (simp_all add: ticket_key_def base_key_of_def uip_key_def c_str_def)

lemma login_profile_result:
  assumes "redis_server (link E) now ks" and "login_profile E sid u w = (res, w')"
  shows "ks (rds w') (ticket_key token) = ks (rds w) (ticket_key token)"
    and "GetUserId sid (tbl w') = GetUserId sid (tbl w) \<or> GetUserId sid (tbl w') = u"
proof -
  let ?f = "\<lambda>w. ks (rds w) (ticket_key token)"
  note other = keeps_other_keys [OF assms(1)]
  have base: "keeps ?f (GetBaseInfo E (base_key_of u) u)"
    unfolding GetBaseInfo_def load_profile_def
    by (auto intro!: keeps_rules other ticket_key_differs)
  have bind: "keeps ?f (bind_user E sid u)"
    unfolding bind_user_def by (auto intro!: keeps_rules keeps_upd other ticket_key_differs)
  have "keeps ?f (login_profile E sid u)"
    unfolding login_profile_def login_finish_def
    by (auto intro!: keeps_rules base bind split: option.split)
  then show "ks (rds w') (ticket_key token) = ks (rds w) (ticket_key token)"
    using assms(2) by (metis keeps_def snd_conv)
next
  have bound: "wp (bind_user E sid u) (\<lambda>_ w'. GetUserId sid (tbl w') = u) (\<lambda>_. False) w1" for w1
    unfolding bind_user_def
    by (auto intro!: wp_rules wp_redis_call simp: GetUserId_def SetUserId_def SetUserSession_def)
  let ?P = "\<lambda>w'. GetUserId sid (tbl w') = GetUserId sid (tbl w) \<or> GetUserId sid (tbl w') = u"
  have finish: "wp (io_then (bind_user E sid u) (io_return v)) (\<lambda>_. ?P) ?P w1" for v :: "json \<times> bool \<times> bool" and w1
    by (rule wp_then, rule wp_mono [OF bound]) (auto intro!: wp_rules)
  have files: "wp (login_finish E sid u v) (\<lambda>_. ?P) ?P w1" if "tbl w1 = tbl w" for v w1
    unfolding login_finish_def
    by (rule wp_bind, rule wp_keeps [where f = tbl]) (auto intro!: keeps_rules finish wp_return simp: that split: option.split)
  have friends: "wp (io_bind (friend_list_call E u) (\<lambda>(x, y). login_finish E sid u (g x y))) (\<lambda>_. ?P) ?P w1"
    if "tbl w1 = tbl w" for g :: "bool \<Rightarrow> user_info list \<Rightarrow> (string \<times> json) list" and w1
    by (rule wp_bind, rule wp_keeps [where f = tbl]) (auto intro!: keeps_rules files simp: that split: prod.split)
  have lists: "wp (io_bind (GetFriendApplyInfo E u) (\<lambda>(x, y). io_bind (friend_list_call E u) (\<lambda>(x', y').
      login_finish E sid u (g x y x' y')))) (\<lambda>_. ?P) ?P w1" if "tbl w1 = tbl w"
    for g :: "bool \<Rightarrow> apply_info list \<Rightarrow> bool \<Rightarrow> user_info list \<Rightarrow> (string \<times> json) list" and w1
    by (rule wp_bind, rule wp_keeps [where f = tbl]) (auto intro!: keeps_rules friends simp: that split: prod.split)
  have "wp (login_profile E sid u) (\<lambda>_. ?P) ?P w"
    unfolding login_profile_def
    by (rule wp_bind, rule wp_keeps [where f = tbl]) (auto intro!: keeps_rules wp_return lists split: option.split)
  then show "GetUserId sid (tbl w') = GetUserId sid (tbl w) \<or> GetUserId sid (tbl w') = u"
    using assms(2) by (cases res) (auto dest: wpD)
qed

text \<open>
  When asking the resource servers throws, the response that is sent says that the login succeeded, although the session is not
  bound; \<^const>\<open>DealMsg\<close> then closes it.
\<close>

lemma login_reply_without_login:
  "resources_at E (db_calls w) u = Throws \<Longrightarrow> login_finish E sid u profile w = (Returns (JObj profile, False, True), w)"
  by (simp add: login_finish_def attempt_def PendingResources_def io_catch_def io_bind_def io_return_def)

lemma keeps_tail:
  "(\<And>a. keeps f (k a)) \<Longrightarrow> f (snd (io_bind m k w)) = f (snd (m w))"
  "keeps f h \<Longrightarrow> f (snd (io_catch m h w)) = f (snd (m w))"
  by (auto simp: keeps_def io_bind_def io_catch_def split: prod.split outcome.split)

lemma login_reply_result:
  assumes "redis_server (link E) now ks" and "login_reply E sid req w = (res, w')" and "GetUserId sid (tbl w') \<noteq> GetUserId sid (tbl w)"
  shows "\<exists>text t. GetUserId sid (tbl w') = int_val (field ''uid'' req) \<and> now (rds w) \<le> t
    \<and> live t (ks (rds w)) (ticket_key (str_val (field ''token'' req))) = Some (VStr text)
    \<and> ticket_valid E (int_val (field ''uid'' req)) text
    \<and> ks (rds w') (ticket_key (str_val (field ''token'' req))) = None"
proof -
  let ?u = "int_val (field ''uid'' req)"
  let ?k = "ticket_key (str_val (field ''token'' req))"
  obtain ticket s where g: "GetDel (link E) ?k (rds w) = (ticket, s)"
    by fastforce
  let ?w1 = "w\<lparr>rds := s\<rparr>"
  obtain entry where entry: "ticket = Some entry" "ticket_valid E ?u entry" "login_profile E sid ?u ?w1 = (res, w')"
    using assms(2,3) g
    by (auto simp: login_reply_def Let_def bind_user_of io_return_def io_throw_def io_bind_def [of "redis_call (GetDel (link E) ?k)"]
        redis_call_def split: if_splits option.splits prod.splits)
  have "GetUserId sid (tbl w') = ?u"
    using login_profile_result(2) [OF assms(1) entry(3)] assms(3) by simp
  moreover have kept: "ks (rds w') ?k = ks s ?k"
    using login_profile_result(1) [OF assms(1) entry(3)] by simp
  from assms(1) g show ?thesis
  proof (cases rule: GetDel_cases)
    case (hit v t)
    then show ?thesis
      using calculation kept entry(1,2) by auto
  qed (use entry(1) in simp)
qed

definition well_formed_login :: "json \<Rightarrow> bool" where
  "well_formed_login req \<longleftrightarrow> isObject req \<and> isInt (field ''uid'' req) \<and> isString (field ''token'' req)"

lemma login_tail:
  assumes "parse_json (lib E) body = Some req" and "well_formed_login req"
  shows "GetUserId x (tbl (snd (LoginChatCallback E sid body w))) = GetUserId x (tbl (snd (login_reply E sid req w)))"
    and "rds (snd (LoginChatCallback E sid body w)) = rds (snd (login_reply E sid req w))"
proof -
  have eq: "LoginChatCallback E sid body =
      io_bind (login_reply E sid req) (\<lambda>(rtvalue, authenticated, thrown). io_bind (send_json E sid rtvalue MSG_CHAT_LOGIN_RSP) (\<lambda>ok.
           io_then (if ok \<and> authenticated then DeliverPendingTextMessages E sid (int_val (field ''uid'' req)) else io_return ())
             (if thrown then io_throw else io_return ())))"
    using assms by (simp add: LoginChatCallback_def well_formed_login_def)
  show "GetUserId x (tbl (snd (LoginChatCallback E sid body w))) = GetUserId x (tbl (snd (login_reply E sid req w)))"
    unfolding eq by (rule keeps_tail(1) [where f = "\<lambda>w. GetUserId x (tbl w)"]) (auto intro!: keeps_rules)
  show "rds (snd (LoginChatCallback E sid body w)) = rds (snd (login_reply E sid req w))"
    unfolding eq by (rule keeps_tail(1) [where f = rds]) (auto intro!: keeps_rules)
qed

text \<open>
  C14: Nobody logs in without a ticket. In a session that is not logged in yet, handling a message
  can bind a user only if the message is a login request that names that user and a token
  for which Redis held, at some moment during the request, an unexpired ticket for that user and
  this server; afterwards the ticket is gone, so that it admits one session only.
\<close>

theorem login_needs_ticket:
  assumes "redis_server (link E) now ks" and "DealMsg E sid i body w = (res, w')"
    and "GetUserId sid (tbl w) \<le> 0" and "0 < GetUserId sid (tbl w')"
  shows "\<exists>req text t. i = MSG_CHAT_LOGIN \<and> parse_json (lib E) body = Some req
    \<and> GetUserId sid (tbl w') = int_val (field ''uid'' req) \<and> now (rds w) \<le> t
    \<and> live t (ks (rds w)) (ticket_key (str_val (field ''token'' req))) = Some (VStr text)
    \<and> ticket_valid E (GetUserId sid (tbl w')) text
    \<and> ks (rds w') (ticket_key (str_val (field ''token'' req))) = None"
proof -
  have changed: "GetUserId sid (tbl w') \<noteq> GetUserId sid (tbl w)"
    using assms(3,4) by simp
  from assms(2) show ?thesis
  proof (cases rule: DealMsg_cases)
    case (handled f)
    then have i: "i = MSG_CHAT_LOGIN" and f: "f = LoginChatCallback E"
      using assms(3) by (simp_all add: callback_def)
    have same: "GetUserId sid (tbl w') = GetUserId sid (tbl (snd (LoginChatCallback E sid body w)))"
      "rds w' = rds (snd (LoginChatCallback E sid body w))"
      using handled(3) keeps_tail(2) [where f = "\<lambda>w. GetUserId sid (tbl w)", of "close_session sid" "LoginChatCallback E sid body" w]
        keeps_tail(2) [where f = rds, of "close_session sid" "LoginChatCallback E sid body" w]
      unfolding f by (simp_all add: keeps_rules)
    obtain req where req: "parse_json (lib E) body = Some req" "well_formed_login req"
      using same(1) changed
      by (auto simp: LoginChatCallback_def well_formed_login_def close_session_def upd_world_def split: option.splits if_splits)
    obtain r w1 where reply: "login_reply E sid req w = (r, w1)"
      by fastforce
    then have "GetUserId sid (tbl w') = GetUserId sid (tbl w1)" "rds w' = rds w1"
      using same login_tail(1) [OF req, where x = sid and sid = sid and w = w] login_tail(2) [OF req, where sid = sid and w = w] by simp_all
    then show ?thesis
      using login_reply_result [OF assms(1) reply] changed i req(1) by auto
  qed (use changed in simp_all)
qed

text \<open>A login with a ticket in Redis, for the example; the database is down and the profile is cached.\<close>

definition login_env :: "(time \<times> keyspace) chat_env" where
  "login_env = sample_env\<lparr>
     lib := (lib sample_env)\<lparr>parse_json := (\<lambda>s.
       if s = ''login'' then Some (JObj [(''uid'', JInt 7), (''token'', JStr ''k''), (''resource_protocol_version'', JInt 1)])
       else if s = ''ticket'' then Some (JObj [(''uid'', JInt 7), (''server'', JStr ''chat1'')])
       else Some (JObj [(''uid'', JInt 7), (''name'', JStr ''n''), (''email'', JStr ''e''), (''nick'', JStr ''n''), (''desc'', JStr []),
         (''sex'', JInt 0), (''icon'', JStr [])]))\<rparr>,
     db_env := (\<lambda>_. \<lparr>available = False, sql_faults = [], sql_now = 0\<rparr>)\<rparr>"

definition login_world :: "(time \<times> keyspace) chat_world" where
  "login_world = (sample_world sample_db)\<lparr>rds := (0, [''chat_ticket_k'' \<mapsto> (VStr ''ticket'', Some 5), ''ubaseinfo_7'' \<mapsto> (VStr ''p'', None)])\<rparr>"

lemma local_redis_simps:
  "Get local_redis k (t, m) = (case live t m (c_str k) of Some (VStr v) \<Rightarrow> Some (c_str v) | _ \<Rightarrow> None, (t, m))"
  "GetDel local_redis k (t, m) = (case live t m k of Some (VStr v) \<Rightarrow> (Some v, (t, m(k := None))) | _ \<Rightarrow> (None, (t, m)))"
  by (auto simp: Get_def GetDel_def redisCommand_def local_redis_def redis_effect_def get_effect_def wrong_type_def
      split: option.split rvalue.split)

lemma login_env_simps:
  "link login_env = local_redis" "self_name login_env = ''chat1''" "available (db_env login_env n) = False"
  "parse_json (lib login_env) ''login'' = Some (JObj [(''uid'', JInt 7), (''token'', JStr ''k''), (''resource_protocol_version'', JInt 1)])"
  "parse_json (lib login_env) ''ticket'' = Some (JObj [(''uid'', JInt 7), (''server'', JStr ''chat1'')])"
  "parse_json (lib login_env) ''p'' = Some (JObj [(''uid'', JInt 7), (''name'', JStr ''n''), (''email'', JStr ''e''), (''nick'', JStr ''n''), (''desc'', JStr []),
         (''sex'', JInt 0), (''icon'', JStr [])])"
  by (simp_all add: login_env_def sample_env_def)

lemma ask_nobody:
  "(\<And>h p. channel_opens E h p) \<Longrightarrow> internal_token E \<noteq> [] \<Longrightarrow> (\<And>h p. list_pending E n h p u = None) \<Longrightarrow> ask_resources E n u es = Returns JNull"
  by (induction es) (auto split: option.split)

lemma login_works: "GetUserId ''s'' (tbl (snd (DealMsg login_env ''s'' MSG_CHAT_LOGIN ''login'' login_world))) = 7"
proof -
  let ?req = "JObj [(''uid'', JInt 7), (''token'', JStr ''k''), (''resource_protocol_version'', JInt 1)]"
  have p: "parse_json (lib login_env) ''login'' = Some ?req" and ok: "well_formed_login ?req"
    by (simp_all add: login_env_def well_formed_login_def field_def int_range_def)
  have lists: "GetFriendApplyInfo login_env u w = (Returns (False, []), w\<lparr>db_calls := db_calls w + 1\<rparr>)"
    "friend_list_call login_env u w = (Returns (False, []), w\<lparr>db_calls := db_calls w + 1\<rparr>)" for u w
    by (simp_all add: GetFriendApplyInfo_def friend_list_call_def db_call_def GetApplyList_def GetFriendList_def with_connection_def login_env_simps)
  have bound: "GetUserId ''s'' (tbl (snd (io_then (bind_user login_env ''s'' 7) (io_return v) w))) = 7" for v w
    by (simp add: bind_user_def io_then_def io_bind_def io_return_def upd_world_def redis_call_def GetUserId_def SetUserId_def
        SetUserSession_def set_session_def split: prod.split)
  have pending: "PendingResources login_env u w = (Returns JNull, w)" for u w
    unfolding PendingResources_def resources_at_def by (subst ask_nobody) (simp_all add: login_env_def sample_env_def)
  have key: "c_str (base_key_of 7) = ''ubaseinfo_7''" "ticket_key ''k'' = ''chat_ticket_k''" "c_str ''p'' = ''p''"
    by code_simp+
  define w1 where "w1 = login_world\<lparr>rds := (0, [''ubaseinfo_7'' \<mapsto> (VStr ''p'', None)])\<rparr>"
  have rds: "rds login_world = (0, [''chat_ticket_k'' \<mapsto> (VStr ''ticket'', Some 5), ''ubaseinfo_7'' \<mapsto> (VStr ''p'', None)])"
    "rds w1 = (0, [''ubaseinfo_7'' \<mapsto> (VStr ''p'', None)])"
    by (simp_all add: login_world_def w1_def)
  obtain i where "GetBaseInfo login_env (base_key_of 7) 7 w1 = (Returns (Some i), w1)"
    by (simp add: GetBaseInfo_def io_bind_def redis_call_def rds login_env_simps local_redis_simps live_def key cached_profile_def field_def
        int_range_def io_return_def)
  then have prof: "GetUserId ''s'' (tbl (snd (login_profile login_env ''s'' 7 w1))) = 7"
    by (simp add: login_profile_def login_finish_def attempt_def io_catch_def io_bind_def io_return_def pending lists bound [unfolded io_return_def])
  have "redis_call (GetDel local_redis ''chat_ticket_k'') login_world = (Returns (Some ''ticket''), w1)"
    by (simp add: redis_call_def rds local_redis_simps live_def w1_def fun_upd_twist)
  moreover have "ticket_valid login_env 7 ''ticket''"
    by (simp add: ticket_valid_def login_env_simps field_def int_range_def)
  moreover have "GetUserId ''s'' (tbl login_world) = 0"
    by (simp add: login_world_def sample_world_def GetUserId_def empty_table_def new_session_def)
  ultimately have "GetUserId ''s'' (tbl (snd (login_reply login_env ''s'' ?req login_world))) = 7"
    by (simp add: login_reply_def Let_def bind_user_of io_bind_def [of "redis_call _"] login_env_simps key prof field_def isMember_def
        int_range_def)
  moreover have "DealMsg login_env ''s'' MSG_CHAT_LOGIN ''login'' login_world =
      io_catch (LoginChatCallback login_env ''s'' ''login'') (close_session ''s'') login_world"
    by (simp add: DealMsg_def io_bind_def is_closed_def user_of_def get_world_def callback_def login_world_def sample_world_def
        IsClosed_def empty_table_def new_session_def new_send_side_def)
  ultimately show ?thesis
    using login_tail(1) [OF p ok, where x = "''s''" and sid = "''s''" and w = login_world]
      keeps_tail(2) [where f = "\<lambda>w. GetUserId ''s'' (tbl w)", of "close_session ''s''" "LoginChatCallback login_env ''s'' ''login''" login_world]
    by (simp add: keeps_rules)
qed

theorem login_needs_ticket_witness:
  "\<exists>res w' text t. DealMsg login_env ''s'' MSG_CHAT_LOGIN ''login'' login_world = (res, w') \<and> 0 \<le> t
     \<and> live t (snd (rds login_world)) (ticket_key ''k'') = Some (VStr text) \<and> snd (rds w') (ticket_key ''k'') = None"
proof -
  obtain res w' where r: "DealMsg login_env ''s'' MSG_CHAT_LOGIN ''login'' login_world = (res, w')"
    by fastforce
  have red: "redis_server (link login_env) fst snd"
    using local_redis_server by (simp add: login_env_def sample_env_def)
  have "GetUserId ''s'' (tbl login_world) = 0" "fst (rds login_world) = 0"
    by (simp_all add: login_world_def sample_world_def GetUserId_def empty_table_def new_session_def)
  moreover have "GetUserId ''s'' (tbl w') = 7"
    using login_works r by simp
  moreover have "parse_json (lib login_env) ''login'' =
      Some (JObj [(''uid'', JInt 7), (''token'', JStr ''k''), (''resource_protocol_version'', JInt 1)])"
    by (simp add: login_env_def)
  ultimately show ?thesis
    using login_needs_ticket [OF red r] r by (auto simp: field_def)
qed

end
