(* ===== verification/Recovery.thy ===== *)
theory Recovery
  imports Request_Outcome "HOL-Library.Sublist"
begin

text \<open>
  The recovery snapshot of \<^verbatim>\<open>HeartbeatCallback\<close>: cut into pieces, nothing of it is lost, repeated or
  reordered, and no piece has more than 20 entries of a kind.
\<close>

definition collected :: "section_name \<Rightarrow> snapshot list \<Rightarrow> json list" where
  "collected sec ps = concat (map (snapshot_list sec) ps)"

definition small :: "snapshot \<Rightarrow> bool" where
  "small s \<longleftrightarrow> length (snap_apply s) \<le> 20 \<and> length (snap_friend s) \<le> 20 \<and> length (snap_files s) \<le> 20"

definition open_piece :: "snapshot \<Rightarrow> bool" where
  "open_piece s \<longleftrightarrow> length (snap_apply s) < 20 \<and> length (snap_friend s) < 20 \<and> length (snap_files s) < 20"

lemma collected_simps [simp]:
  "collected sec [] = []" "collected sec (p # ps) = snapshot_list sec p @ collected sec ps"
  "collected sec (ps @ qs) = collected sec ps @ collected sec qs"
  by (simp_all add: collected_def)

lemma snapshot_clear_list [simp]: "snapshot_list sec (snapshot_clear s) = []"
  by (cases sec) (simp_all add: snapshot_clear_def)

lemma snapshot_append_list [simp]:
  "snapshot_list sec' (snapshot_append sec j s) = snapshot_list sec' s @ (if sec' = sec then [j] else [])"
  by (cases sec; cases sec') simp_all

lemma small_clear [simp]: "open_piece (snapshot_clear s)"
  by (simp add: open_piece_def snapshot_clear_def)

lemma open_small: "open_piece s \<Longrightarrow> small s"
  by (simp add: small_def open_piece_def)

lemma small_append:
  "open_piece s \<Longrightarrow> small (snapshot_append sec j s)"
  "open_piece s \<Longrightarrow> length (snapshot_list sec (snapshot_append sec j s)) \<noteq> 20 \<Longrightarrow> open_piece (snapshot_append sec j s)"
  by (cases sec; simp add: small_def open_piece_def)+

lemma snapshot_flag [simp]:
  "snap_unavailable (snapshot_append sec j s) = snap_unavailable s" "snap_unavailable (snapshot_clear s) = snap_unavailable s"
  by (cases sec) (simp_all add: snapshot_clear_def)

lemma add_item_result:
  assumes "add_item L sec j (out, s) = (out', s')" and "open_piece s" and "list_all small out"
  shows "collected sec' (out' @ [s']) = collected sec' (out @ [s]) @ (if sec' = sec then [j] else [])
    \<and> open_piece s' \<and> list_all small out' \<and> snap_unavailable s' = snap_unavailable s"
proof -
  have small: "small s"
    using assms(2) by (rule open_small)
  let ?big = "length (toStyledString L (snapshot_json s)) + length (toStyledString L j) > 12 * 1024"
  define out1 s1 where "out1 = (if ?big then out @ [s] else out)" and "s1 = (if ?big then snapshot_clear s else s)"
  have one: "collected sec' (out1 @ [s1]) = collected sec' (out @ [s])" "open_piece s1" "list_all small out1"
    "snap_unavailable s1 = snap_unavailable s"
    using assms(2,3) small by (simp_all add: out1_def s1_def)
  have "(out', s') = (if length (snapshot_list sec (snapshot_append sec j s1)) = 20
      then (out1 @ [snapshot_append sec j s1], snapshot_clear (snapshot_append sec j s1)) else (out1, snapshot_append sec j s1))"
    using assms(1) by (cases ?big) (auto simp: out1_def s1_def Let_def split: if_splits)
  then show ?thesis
    using one small_append [OF one(2), of sec j] by (cases "length (snapshot_list sec (snapshot_append sec j s1)) = 20") auto
qed

lemma add_items_result:
  assumes "add_items L sec js s = (out, s')" and "open_piece s"
  shows "collected sec' (out @ [s']) = snapshot_list sec' s @ (if sec' = sec then js else [])
    \<and> open_piece s' \<and> list_all small out \<and> snap_unavailable s' = snap_unavailable s"
proof -
  have "fold (add_item L sec) js (out0, s) = (out, s') \<Longrightarrow> open_piece s \<Longrightarrow> list_all small out0 \<Longrightarrow>
      collected sec' (out @ [s']) = collected sec' (out0 @ [s]) @ (if sec' = sec then js else [])
      \<and> open_piece s' \<and> list_all small out \<and> snap_unavailable s' = snap_unavailable s" for out0 s
  proof (induction js arbitrary: out0 s)
    case (Cons j js)
    obtain out1 s1 where one: "add_item L sec j (out0, s) = (out1, s1)"
      by fastforce
    with Cons.prems(1) have "fold (add_item L sec) js (out1, s1) = (out, s')"
      by simp
    from Cons.IH [OF this] add_item_result [OF one Cons.prems(2,3)] show ?case
      by auto
  qed simp
  then show ?thesis
    using assms by (simp add: add_items_def)
qed

section \<open>Sending the pieces\<close>

definition piece_frame :: "'r chat_env \<Rightarrow> snapshot \<Rightarrow> byte list" where
  "piece_frame E s = SendNode (bytes_of (toStyledString (lib E) (snapshot_json s))) ID_HEARTBEAT_RSP"

lemma send_pieces_room:
  assumes "send_pieces E sid ps w = (res, w')" and "room_for sid (map (piece_frame E) ps @ fs) w"
  shows "res = Returns () \<and> outbox sid w' = outbox sid w @ map (piece_frame E) ps \<and> room_for sid fs w' \<and> (\<exists>t. w' = w\<lparr>tbl := t\<rparr>)"
  using assms
proof (induction ps arbitrary: w)
  case Nil
  then have "w' = w\<lparr>tbl := tbl w\<rparr>"
    by (simp add: io_return_def)
  then show ?case
    using Nil by (auto simp: io_return_def intro: exI [of _ "tbl w"])
next
  case (Cons p ps)
  obtain r w1 where send: "send_json E sid (snapshot_json p) ID_HEARTBEAT_RSP w = (r, w1)"
    by fastforce
  then show ?case
  proof (cases rule: send_json_cases)
    case sent
    then have "send_pieces E sid ps w1 = (res, w')"
      using Cons.prems(1) send by (simp add: io_then_def io_bind_def)
    moreover have "room_for sid (map (piece_frame E) ps @ fs) w1"
      using Cons.prems(2) sent [folded piece_frame_def] by (auto simp: room_for_def)
    ultimately show ?thesis
      using Cons.IH [of w1] sent(2,3) [folded piece_frame_def] by auto
  next
    case refused
    then show ?thesis
      using Cons.prems(2) by (auto simp: piece_frame_def)
  qed
qed

text \<open>Without room the pieces that fit are sent; the action itself never fails.\<close>

lemma send_pieces_returns: "\<exists>t. send_pieces E sid ps w = (Returns (), w\<lparr>tbl := t\<rparr>)"
proof (induction ps arbitrary: w)
  case Nil
  show ?case
    by (intro exI [of _ "tbl w"]) (simp add: io_return_def)
next
  case (Cons p ps)
  obtain r w1 where send: "send_json E sid (snapshot_json p) ID_HEARTBEAT_RSP w = (r, w1)"
    by fastforce
  then obtain b t where "r = Returns b" "w1 = w\<lparr>tbl := t\<rparr>"
    by (cases rule: send_json_cases) auto
  then show ?case
    using Cons [of w1] send by (auto simp: io_then_def io_bind_def)
qed

lemma send_pieces_append: "send_pieces E sid (ps @ qs) = io_then (send_pieces E sid ps) (send_pieces E sid qs)"
  by (induction ps) (simp_all add: fun_eq_iff io_simps split: prod.split outcome.split)

text \<open>The session side of the world does not see the counters of the database.\<close>

lemma db_calls_frame [simp]:
  "outbox sid (w\<lparr>db_calls := n\<rparr>) = outbox sid w" "room_for sid fs (w\<lparr>db_calls := n\<rparr>) = room_for sid fs w"
  by (simp_all add: outbox_def room_for_def)

lemma apply_list_returns: "\<exists>b l. fst (GetApplyList e to x y d) = Returns (b, l)"
proof -
  have "wp (io_catch (io_bind (statement (select_apply_list to x y)) (\<lambda>l. io_return (True, l))) (io_return (False, [])))
      (\<lambda>_ _. True) (\<lambda>_. False) (fresh_conn d (sql_faults e))"
    by (auto intro!: wp_rules wp_statement)
  then show ?thesis
    using with_connection_cases [where Q = "\<lambda>_ _. True" and E = "\<lambda>_. False" and unavailable = "(False, [])"
        and r = "fst (GetApplyList e to x y d)" and d' = "snd (GetApplyList e to x y d)"]
    by (cases "fst (GetApplyList e to x y d)") (auto simp: GetApplyList_def)
qed

lemma friend_list_returns: "\<exists>b l. fst (GetFriendList e pe self d) = Returns (b, l)"
proof -
  have "wp (io_catch (io_bind (select (\<lambda>d. take 200 (sort_key friend_id (filter (\<lambda>r. self_id r = self) (friend_rows d)))))
             (\<lambda>rows. io_return (True, friend_profiles pe d rows 0))) (io_return (False, [])))
      (\<lambda>_ _. True) (\<lambda>_. False) (fresh_conn d (sql_faults e))"
    by (auto intro!: wp_rules)
  then show ?thesis
    using with_connection_cases [where Q = "\<lambda>_ _. True" and E = "\<lambda>_. False" and unavailable = "(False, [])"
        and r = "fst (GetFriendList e pe self d)" and d' = "snd (GetFriendList e pe self d)"]
    by (cases "fst (GetFriendList e pe self d)") (auto simp: GetFriendList_def)
qed

text \<open>What the recovery reads: the applications, the friends and the files of the user.\<close>

definition recovered_applies :: "'r chat_env \<Rightarrow> int \<Rightarrow> 'r chat_world \<Rightarrow> json list" where
  "recovered_applies E u w =
     (case fst (GetApplyList (db_env E (db_calls w)) u 0 50 (cdb w)) of
        Returns (b, l) \<Rightarrow> if b then map apply_json l else [] | Throws \<Rightarrow> [])"

definition recovered_friends :: "'r chat_env \<Rightarrow> int \<Rightarrow> 'r chat_world \<Rightarrow> json list" where
  "recovered_friends E u w =
     (case fst (GetFriendList (db_env E (db_calls w + 1)) (profile_env E (db_calls w + 1)) u (cdb w)) of
        Returns (b, l) \<Rightarrow> if b then map friend_json l else [] | Throws \<Rightarrow> [])"

text \<open>
  C19: The recovery snapshot is complete. What is read for the user of the session are the first 50 applications and the first 200
  friends, none of a kind whose query fails, and the pending files that the resource servers report. If
  asking the resource servers does not throw, the snapshot goes out in pieces of at most 20 entries of a kind, and taken
  together the pieces carry exactly what was read, once and in order; the last piece tells whether the
  resource servers could be asked. If it throws, the request throws, and the pieces that were cut off before carry
  a beginning of the applications and of the friends. If the queue of the session has room, the pieces are sent.
\<close>

theorem recovery_complete:
  assumes "heartbeat_sync E sid w = (res, w')"
  shows "cdb w' = cdb w \<and> (\<exists>ps. list_all small ps \<and> (room_for sid (map (piece_frame E) ps) w \<longrightarrow> outbox sid w' = outbox sid w @ map (piece_frame E) ps)
    \<and> (case resources_at E (db_calls w + 2) (GetUserId sid (tbl w)) of
         Returns files \<Rightarrow>
           res = Returns () \<and> ps \<noteq> [] \<and> snap_unavailable (last ps) = Some (isNull files)
           \<and> collected ApplySection ps = recovered_applies E (GetUserId sid (tbl w)) w
           \<and> collected FriendSection ps = recovered_friends E (GetUserId sid (tbl w)) w
           \<and> collected FileSection ps = items files
       | Throws \<Rightarrow>
           res = Throws \<and> prefix (collected ApplySection ps) (recovered_applies E (GetUserId sid (tbl w)) w)
           \<and> prefix (collected FriendSection ps) (recovered_friends E (GetUserId sid (tbl w)) w) \<and> collected FileSection ps = []))"
proof -
  let ?u = "GetUserId sid (tbl w)"
  obtain ba la where a: "GetApplyList (db_env E (db_calls w)) ?u 0 50 (cdb w) = (Returns (ba, la), cdb w)"
    using apply_list_returns [of "db_env E (db_calls w)" ?u 0 50 "cdb w"] by (metis database_reads(3) prod.collapse)
  obtain bf lf where f: "GetFriendList (db_env E (db_calls w + 1)) (profile_env E (db_calls w + 1)) ?u (cdb w) = (Returns (bf, lf), cdb w)"
    using friend_list_returns [of "db_env E (db_calls w + 1)" "profile_env E (db_calls w + 1)" ?u "cdb w"]
    by (metis database_reads(4) prod.collapse)
  define s0 where "s0 = \<lparr>snap_apply = [], snap_friend = [], snap_files = [], snap_unavailable = None\<rparr>"
  obtain out1 s1 where p1: "add_items (lib E) ApplySection (recovered_applies E ?u w) s0 = (out1, s1)"
    by fastforce
  obtain out2 s2 where p2: "add_items (lib E) FriendSection (recovered_friends E ?u w) s1 = (out2, s2)"
    by fastforce
  have o0: "open_piece s0"
    by (simp add: s0_def open_piece_def)
  note r1 = add_items_result [OF p1 o0]
  then have o1: "open_piece s1" by simp
  note r2 = add_items_result [OF p2 o1]
  let ?w1 = "w\<lparr>db_calls := db_calls w + 1\<rparr>"
  obtain t1 where t1: "send_pieces E sid out1 ?w1 = (Returns (), ?w1\<lparr>tbl := t1\<rparr>)"
    using send_pieces_returns by blast
  let ?w2 = "?w1\<lparr>tbl := t1, db_calls := db_calls w + 2\<rparr>"
  have two: "collected sec (out1 @ out2 @ [s2]) = (case sec of ApplySection \<Rightarrow> recovered_applies E ?u w | FriendSection \<Rightarrow> recovered_friends E ?u w
      | FileSection \<Rightarrow> [])" for sec
    using add_items_result [OF p1 o0, of sec] add_items_result [OF p2 o1, of sec] by (cases sec) (simp_all add: s0_def)
  have calls: "GetFriendApplyInfo E ?u w = (Returns (ba, la), ?w1)" "friend_list_call E ?u (?w1\<lparr>tbl := t1\<rparr>) = (Returns (bf, lf), ?w2)"
    "(if ba then map apply_json la else []) = recovered_applies E ?u w" "(if bf then map friend_json lf else []) = recovered_friends E ?u w"
    using a f by (simp_all add: GetFriendApplyInfo_def friend_list_call_def db_call_def recovered_applies_def recovered_friends_def)
  have sent: "outbox sid (?w2\<lparr>tbl := t\<rparr>) = outbox sid w @ map (piece_frame E) (out1 @ ps)"
    if "send_pieces E sid ps ?w2 = (Returns (), ?w2\<lparr>tbl := t\<rparr>)" "room_for sid (map (piece_frame E) (out1 @ ps)) w" for ps t
  proof -
    have "outbox sid (?w1\<lparr>tbl := t1\<rparr>) = outbox sid w @ map (piece_frame E) out1" "room_for sid (map (piece_frame E) ps) (?w1\<lparr>tbl := t1\<rparr>)"
      using send_pieces_room [OF t1, of "map (piece_frame E) ps"] that(2) by simp_all
    then show ?thesis
      using send_pieces_room [OF that(1), of "[]"] by (simp add: outbox_def room_for_def)
  qed
  show ?thesis
  proof (cases "resources_at E (db_calls w + 2) ?u")
    case (Returns files)
    obtain out3 s3 where p3: "add_items (lib E) FileSection (items files) (s2\<lparr>snap_unavailable := Some (isNull files)\<rparr>) = (out3, s3)"
      by fastforce
    have o2: "open_piece (s2\<lparr>snap_unavailable := Some (isNull files)\<rparr>)"
      using r2 by (simp add: open_piece_def)
    note r3 = add_items_result [OF p3 o2]
    let ?ps = "out2 @ out3 @ [s3]"
    obtain t2 where t2: "send_pieces E sid out2 ?w2 = (Returns (), ?w2\<lparr>tbl := t2\<rparr>)"
      using send_pieces_returns by blast
    obtain t3 where t3: "send_pieces E sid (out3 @ [s3]) (?w2\<lparr>tbl := t2\<rparr>) = (Returns (), ?w2\<lparr>tbl := t3\<rparr>)"
      using send_pieces_returns [of E sid "out3 @ [s3]" "?w2\<lparr>tbl := t2\<rparr>"] by auto
    have all: "send_pieces E sid ?ps ?w2 = (Returns (), ?w2\<lparr>tbl := t3\<rparr>)"
      using t2 t3 by (simp add: send_pieces_append io_then_def io_bind_def)
    have run: "res = Returns ()" "w' = ?w2\<lparr>tbl := t3\<rparr>"
      using assms t1 t2 t3 p1 p2 p3 calls Returns
      by (simp_all add: heartbeat_sync_def Let_def user_of_def get_world_def io_bind_def io_then_def send_pieces_append s0_def [symmetric]
          PendingResources_def)
    have "collected sec (out1 @ ?ps) = (case sec of ApplySection \<Rightarrow> recovered_applies E ?u w | FriendSection \<Rightarrow> recovered_friends E ?u w
        | FileSection \<Rightarrow> items files)" for sec
      using two [of sec] add_items_result [OF p3 o2, of sec] by (cases sec) simp_all
    from this [of ApplySection] this [of FriendSection] this [of FileSection] show ?thesis
      using run sent [OF all] r1 r2 r3 Returns by (intro conjI exI [of _ "out1 @ ?ps"]) (simp_all add: open_small)
  next
    case Throws
    obtain t2 where t2: "send_pieces E sid out2 ?w2 = (Returns (), ?w2\<lparr>tbl := t2\<rparr>)"
      using send_pieces_returns by blast
    have run: "res = Throws" "w' = ?w2\<lparr>tbl := t2\<rparr>"
      using assms t1 t2 p1 p2 calls Throws
      by (simp_all add: heartbeat_sync_def Let_def user_of_def get_world_def io_bind_def io_then_def s0_def [symmetric] PendingResources_def)
    have "prefix (collected sec (out1 @ out2)) (case sec of ApplySection \<Rightarrow> recovered_applies E ?u w
        | FriendSection \<Rightarrow> recovered_friends E ?u w | FileSection \<Rightarrow> [])" for sec
      unfolding two [of sec, symmetric] by simp
    from this [of ApplySection] this [of FriendSection] this [of FileSection] show ?thesis
      using run sent [OF t2] r1 r2 Throws by (intro conjI exI [of _ "out1 @ out2"]) simp_all
  qed
qed

theorem recovery_complete_witness:
  "\<exists>ps w'. heartbeat_sync sample_env ''s'' (sample_world sample_db) = (Returns (), w') \<and> list_all small ps
     \<and> collected FileSection ps = [] \<and> snap_unavailable (last ps) = Some True"
proof -
  obtain res w' where r: "heartbeat_sync sample_env ''s'' (sample_world sample_db) = (res, w')"
    by fastforce
  have "resources_at sample_env n u = Returns JNull" for n u
    unfolding resources_at_def by (rule ask_nobody) (simp_all add: sample_env_def)
  then show ?thesis
    using recovery_complete [OF r] r by auto
qed

end
