(* ===== verification/Internal_Rpc.thy ===== *)
theory Internal_Rpc
  imports Prelude
begin

text \<open>
  The authentication of the calls between the servers, \<^verbatim>\<open>common/InternalRpcAuth.h\<close>. The metadata of a
  call are the list of its keys and values; a token is compared byte by byte without
  leaving the loop early.
\<close>

unbundle bit_operations_syntax

datatype rpc_status = RpcOk | Unauthenticated string | InvalidArgument string | PermissionDenied string

definition kMetadataKey :: string where
  "kMetadataKey = ''x-chat-internal-token''"

definition kRequestIdMetadataKey :: string where
  "kRequestIdMetadataKey = ''x-chat-request-id''"

definition kDevelopmentToken :: string where
  "kDevelopmentToken = ''local-development-only-change-me''"

definition unsigned_char :: "char \<Rightarrow> 8 word" where
  "unsigned_char c = word_of_nat (of_char c)"

fun difference_loop :: "8 word \<Rightarrow> string \<Rightarrow> string \<Rightarrow> 8 word" where
  "difference_loop difference (a # as) (b # bs) = difference_loop (difference OR (unsigned_char a XOR unsigned_char b)) as bs"
| "difference_loop difference _ _ = difference"

definition constant_time_equal :: "string \<Rightarrow> string \<Rightarrow> bool" where
  "constant_time_equal supplied expected =
     (if length supplied \<noteq> length expected then False else difference_loop 0 supplied expected = 0)"

definition authorize :: "(string \<times> string) list \<Rightarrow> string \<Rightarrow> rpc_status" where
  "authorize metadata expected =
     (if expected = [] then Unauthenticated ''internal RPC authentication is not configured''
      else case map_of metadata kMetadataKey of
        None \<Rightarrow> Unauthenticated ''invalid internal RPC identity''
      | Some supplied \<Rightarrow>
          if \<not> constant_time_equal supplied expected then Unauthenticated ''invalid internal RPC identity'' else RpcOk)"

definition authenticate :: "(string \<times> string) list \<Rightarrow> string \<Rightarrow> (string \<times> string) list option" where
  "authenticate metadata token = (if token = [] then None else Some (metadata @ [(kMetadataKey, token)]))"

definition propagate_request_id :: "(string \<times> string) list \<Rightarrow> string \<Rightarrow> (string \<times> string) list" where
  "propagate_request_id metadata request_id = (if request_id \<noteq> [] then metadata @ [(kRequestIdMetadataKey, request_id)] else metadata)"

definition request_id :: "(string \<times> string) list \<Rightarrow> string" where
  "request_id metadata =
     (case map_of metadata kRequestIdMetadataKey of
        None \<Rightarrow> []
      | Some supplied \<Rightarrow> if length supplied > 64 then [] else supplied)"

definition is_loopback :: "string \<Rightarrow> bool" where
  "is_loopback host \<longleftrightarrow> host = ''127.0.0.1'' \<or> host = ''::1'' \<or> host = ''localhost''"

text \<open>Whether a server configuration passes, that is, no exception is thrown.\<close>

definition validate_server_configuration :: "string \<Rightarrow> string \<Rightarrow> string \<Rightarrow> bool" where
  "validate_server_configuration host token transport_mode =
     (if token = [] then False
      else if \<not> is_loopback host \<and> transport_mode \<noteq> ''tls'' \<and> transport_mode \<noteq> ''mtls'' then False
      else if \<not> is_loopback host \<and> token = kDevelopmentToken then False
      else True)"

lemma unsigned_char_inject [simp]: "unsigned_char a = unsigned_char b \<longleftrightarrow> a = b"
proof
  assume "unsigned_char a = unsigned_char b"
  then have "(of_char a :: nat) mod 256 = of_char b mod 256"
    by (simp add: unsigned_char_def word_of_nat_eq_iff take_bit_eq_mod)
  then show "a = b"
    by simp
qed simp

lemma difference_loop_zero:
  "length as = length bs \<Longrightarrow> difference_loop d as bs = 0 \<longleftrightarrow> d = 0 \<and> as = bs"
proof (induction d as bs rule: difference_loop.induct)
  case (1 d a as b bs)
  have "d OR (unsigned_char a XOR unsigned_char b) = 0 \<longleftrightarrow> d = 0 \<and> a = b"
    by (metis or_eq_0_iff unsigned_char_inject xor_self_eq bit.xor_left_self xor.right_neutral)
  then show ?case
    using 1 by auto
qed auto

text \<open>
  C36: The comparison of tokens that inspects every byte decides equality: it answers true exactly
  when the two tokens are the same.
\<close>

theorem constant_time_equal_eq: "constant_time_equal supplied expected \<longleftrightarrow> supplied = expected"
  by (auto simp: constant_time_equal_def difference_loop_zero)

text \<open>What the services rely on: only a caller with the configured, non-empty token passes.\<close>

lemma authorize_ok: "authorize metadata expected = RpcOk \<longleftrightarrow> expected \<noteq> [] \<and> map_of metadata kMetadataKey = Some expected"
  by (auto simp: authorize_def constant_time_equal_def difference_loop_zero split: option.splits)

lemma authenticate_authorized:
  "authenticate metadata token = Some m \<Longrightarrow> map_of metadata kMetadataKey = None \<Longrightarrow>
   authorize (propagate_request_id m r) expected = RpcOk \<longleftrightarrow> token = expected"
  by (auto simp: authenticate_def propagate_request_id_def authorize_ok kMetadataKey_def kRequestIdMetadataKey_def
      map_of_append map_add_def split: if_splits option.splits)

end
