(* ===== verification/Status_Service.thy ===== *)
theory Status_Service
  imports Internal_Rpc Redis_Store Json_Value Wire_Protocol "HOL-Library.List_Lexorder" "HOL-Library.Char_ord" "HOL-Library.Multiset"
begin

text \<open>
  The status server: the choice of a chat server in \<^verbatim>\<open>common/ChatServerSelector.cpp\<close>, and the table of
  servers, the health check and the tickets of \<^verbatim>\<open>servers/status/rpc/StatusServiceImpl.cpp\<close>. The error codes
  \<^verbatim>\<open>Success\<close> and \<^verbatim>\<open>RPCFailed\<close> of this server have the numbers of \<open>ERROR_CODE_OK\<close> and \<open>RPC_ERROR\<close>.
  The unordered map of servers is a list in an arbitrary order; the configuration is a function from
  section and key to a text, empty where there is none.
\<close>

section \<open>Selection\<close>

record server_load =
  sl_name :: string
  connection_count :: int

fun minimum_loop :: "int \<Rightarrow> server_load list \<Rightarrow> int" where
  "minimum_loop minimum [] = minimum"
| "minimum_loop minimum (server # servers) = minimum_loop (min minimum (connection_count server)) servers"

definition candidates :: "server_load list \<Rightarrow> string list" where
  "candidates healthy =
     sort (map sl_name (filter (\<lambda>s. connection_count s = minimum_loop (2 ^ 31 - 1) healthy) healthy))"

definition selectLeastLoaded :: "server_load list \<Rightarrow> 64 word \<Rightarrow> string option" where
  "selectLeastLoaded healthy round_robin_cursor =
     (if healthy = [] then None
      else Some (candidates healthy ! (unat round_robin_cursor mod length (candidates healthy))))"

section \<open>Configuration\<close>

record chat_server =
  cs_host :: string
  cs_port :: string
  cs_name :: string
  cs_transport :: string
  cs_tls_name :: string
  cs_con_count :: int

text \<open>The trimming of the pieces.\<close>

definition is_space :: "char \<Rightarrow> bool" where
  "is_space c \<longleftrightarrow> of_char c \<in> {9, 10, 11, 12, 13, 32 :: nat}"

definition trim :: "string \<Rightarrow> string" where
  "trim w = rev (dropWhile is_space (rev (dropWhile is_space w)))"

definition tolower_char :: "char \<Rightarrow> char" where
  "tolower_char c = (if of_char c \<ge> (65 :: nat) \<and> of_char c \<le> (90 :: nat) then char_of (of_char c + (32 :: nat)) else c)"

definition configured_server :: "(string \<Rightarrow> string \<Rightarrow> string) \<Rightarrow> string \<Rightarrow> chat_server" where
  "configured_server cfg word =
     (let port = (if cfg word ''PublicPort'' = [] then cfg word ''Port'' else cfg word ''PublicPort'');
          host = (if cfg word ''PublicHost'' = [] then cfg word ''Host'' else cfg word ''PublicHost'');
          transport = map tolower_char (if cfg word ''Transport'' = [] then ''insecure'' else cfg word ''Transport'');
          tls_name = (if transport = ''tls'' \<and> cfg word ''TLSName'' = [] then host else cfg word ''TLSName'')
      in \<lparr>cs_host = host, cs_port = port, cs_name = cfg word ''Name'', cs_transport = transport, cs_tls_name = tls_name,
          cs_con_count = 0\<rparr>)"

definition server_ok :: "chat_server \<Rightarrow> bool" where
  "server_ok s \<longleftrightarrow> \<not> (cs_transport s \<noteq> ''tls'' \<and> cs_transport s \<noteq> ''insecure'') \<and> \<not> (cs_host s = [] \<or> cs_port s = [])"

fun load_servers :: "(string \<Rightarrow> string \<Rightarrow> string) \<Rightarrow> string list \<Rightarrow> (string \<times> chat_server) list \<Rightarrow> (string \<times> chat_server) list option" where
  "load_servers cfg [] table = Some table"
| "load_servers cfg (word # words) table =
     (if cfg word ''Name'' = [] then load_servers cfg words table
      else let server = configured_server cfg word in
        if \<not> server_ok server then None
        else load_servers cfg words (AList.update (cs_name server) server table))"

record status_state =
  servers :: "(string \<times> chat_server) list"
  cursor :: "64 word"

definition StatusServiceImpl :: "(string \<Rightarrow> string \<Rightarrow> string) \<Rightarrow> status_state option" where
  "StatusServiceImpl cfg =
     (let words = filter (\<lambda>w. w \<noteq> []) (map trim (split_comma (cfg ''chatservers'' ''Name''))) in
      case load_servers cfg words [] of
        None \<Rightarrow> None
      | Some table \<Rightarrow> if table = [] then None else Some \<lparr>servers = table, cursor = 0\<rparr>)"

section \<open>Health and tickets\<close>

definition health_key :: "string \<Rightarrow> string" where
  "health_key name = ''chat_health_'' @ name"

definition health_count :: "string option \<Rightarrow> int option" where
  "health_count count_text =
     (case Option.bind count_text from_chars of
        None \<Rightarrow> None
      | Some n \<Rightarrow> if n < 0 then None else Some n)"

fun healthy_servers :: "'s redis_link \<Rightarrow> (string \<times> chat_server) list \<Rightarrow> 's \<Rightarrow> server_load list \<times> 's" where
  "healthy_servers c [] s = ([], s)"
| "healthy_servers c ((name, server) # rest) s =
     (case Get c (health_key name) s of
        (count_text, s1) \<Rightarrow>
          (case healthy_servers c rest s1 of
             (loads, s2) \<Rightarrow>
               (case health_count count_text of
                  None \<Rightarrow> (loads, s2)
                | Some n \<Rightarrow> (\<lparr>sl_name = cs_name server, connection_count = n\<rparr> # loads, s2))))"

definition getChatServer :: "'s redis_link \<Rightarrow> status_state \<Rightarrow> 's \<Rightarrow> chat_server option \<times> status_state \<times> 's" where
  "getChatServer c st s =
     (if servers st = [] then (None, st, s)
      else case healthy_servers c (servers st) s of
        (loads, s1) \<Rightarrow>
          (case selectLeastLoaded loads (cursor st) of
             None \<Rightarrow> (None, st, s1)
           | Some selected_name \<Rightarrow>
               (case (map_of (servers st) selected_name, find (\<lambda>l. sl_name l = selected_name) loads) of
                  (Some selected, Some load) \<Rightarrow>
                    (Some (selected\<lparr>cs_con_count := connection_count load\<rparr>), st\<lparr>cursor := cursor st + 1\<rparr>, s1)
                | _ \<Rightarrow> (None, st, s1))))"

definition SetEx :: "'s redis_link \<Rightarrow> string \<Rightarrow> string \<Rightarrow> int \<Rightarrow> 's \<Rightarrow> bool \<times> 's" where
  "SetEx c key v ttl s =
     (case redisCommand c [''SET'', key, v, ''EX'', to_string ttl, ''NX''] s of
        (Some (RStatus t), s') \<Rightarrow> (t = ''OK'', s')
      | (_, s') \<Rightarrow> (False, s'))"

definition ticket_json :: "int \<Rightarrow> string \<Rightarrow> json" where
  "ticket_json uid server_name = JObj [(''uid'', JInt uid), (''server'', JStr server_name)]"

definition insertToken :: "'s redis_link \<Rightarrow> json_lib \<Rightarrow> int \<Rightarrow> string \<Rightarrow> string \<Rightarrow> 's \<Rightarrow> bool \<times> 's" where
  "insertToken c lib uid token server_name =
     SetEx c (''chat_ticket_'' @ token) (toStyledString lib (ticket_json uid server_name)) 60"

record routing_reply =
  rr_error :: error_code
  rr_host :: string
  rr_port :: string
  rr_token :: string
  rr_transport :: string
  rr_tls_name :: string

definition empty_reply :: routing_reply where
  "empty_reply = \<lparr>rr_error = ERROR_CODE_OK, rr_host = [], rr_port = [], rr_token = [], rr_transport = [], rr_tls_name = []\<rparr>"

definition GetChatServer ::
  "'s redis_link \<Rightarrow> json_lib \<Rightarrow> string \<Rightarrow> (string \<times> string) list \<Rightarrow> string \<Rightarrow> int \<Rightarrow> status_state \<Rightarrow> 's
   \<Rightarrow> rpc_status \<times> routing_reply \<times> status_state \<times> 's" where
  "GetChatServer c lib gate_token metadata uuid uid st s =
     (if authorize metadata gate_token \<noteq> RpcOk then (authorize metadata gate_token, empty_reply, st, s)
      else if uid \<le> 0 then (InvalidArgument ''uid must be positive'', empty_reply, st, s)
      else case getChatServer c st s of
        (None, st1, s1) \<Rightarrow> (RpcOk, empty_reply\<lparr>rr_error := RPC_ERROR\<rparr>, st1, s1)
      | (Some server, st1, s1) \<Rightarrow>
          let reply = \<lparr>rr_error = ERROR_CODE_OK, rr_host = cs_host server, rr_port = cs_port server, rr_token = uuid,
                rr_transport = cs_transport server, rr_tls_name = cs_tls_name server\<rparr> in
          (case insertToken c lib uid uuid (cs_name server) s1 of
             (ok, s2) \<Rightarrow> (RpcOk, if ok then reply else reply\<lparr>rr_error := RPC_ERROR, rr_token := []\<rparr>, st1, s2)))"

definition Login :: error_code where
  "Login = TokenInvalid"

section \<open>The choice\<close>

lemma minimum_loop_Min: "minimum_loop m ls = Min (insert m (connection_count ` set ls))"
proof (induction ls arbitrary: m)
  case (Cons l ls)
  have "minimum_loop m (l # ls) = Min (insert (min m (connection_count l)) (connection_count ` set ls))"
    using Cons [of "min m (connection_count l)"] by simp
  also have "\<dots> = Min (insert m (connection_count ` set (l # ls)))"
    by (cases "set ls = {}") (simp_all add: min.assoc)
  finally show ?case .
qed simp

text \<open>The least number of connections, without the bound the loop starts from.\<close>

definition least_load :: "server_load list \<Rightarrow> int" where
  "least_load ls = Min (connection_count ` set ls)"

lemma minimum_loop_least:
  assumes "ls \<noteq> []" and "\<forall>l \<in> set ls. connection_count l < 2 ^ 31"
  shows "minimum_loop (2 ^ 31 - 1) ls = least_load ls"
proof -
  have "least_load ls \<le> 2 ^ 31 - 1"
    using assms by (cases ls) (auto simp: least_load_def Min_le_iff)
  then show ?thesis
    using assms(1) by (simp add: minimum_loop_Min least_load_def)
qed

lemma candidates_mset: "mset ls = mset ls' \<Longrightarrow> candidates ls = candidates ls'"
proof -
  assume eq: "mset ls = mset ls'"
  then have "set ls = set ls'"
    by (metis set_mset_mset)
  then have "minimum_loop m ls = minimum_loop m ls'" for m
    by (simp add: minimum_loop_Min)
  then have "mset (map sl_name (filter (\<lambda>s. connection_count s = minimum_loop (2 ^ 31 - 1) ls) ls))
      = mset (map sl_name (filter (\<lambda>s. connection_count s = minimum_loop (2 ^ 31 - 1) ls') ls'))"
    using eq by (simp add: mset_filter)
  then show ?thesis
    unfolding candidates_def by (intro properties_for_sort) simp_all
qed

lemma candidates_set:
  assumes "ls \<noteq> []" and "\<forall>l \<in> set ls. connection_count l < 2 ^ 31"
  shows "set (candidates ls) = sl_name ` {l \<in> set ls. connection_count l = least_load ls}" "candidates ls \<noteq> []"
proof -
  show "set (candidates ls) = sl_name ` {l \<in> set ls. connection_count l = least_load ls}"
    using minimum_loop_least [OF assms] by (auto simp: candidates_def)
  moreover have "least_load ls \<in> connection_count ` set ls"
    unfolding least_load_def using assms(1) by (intro Min_in) auto
  ultimately show "candidates ls \<noteq> []"
    by force
qed

text \<open>
  C37: The choice of a chat server. A server is chosen exactly when one is healthy; it is one with the
  fewest connections; the choice depends on which servers are healthy and not on the order
  in which the unordered table yields them; and with unchanged loads, successive requests go through
  all the servers with the fewest connections before one of them is chosen again.
\<close>

theorem selection_fair:
  assumes "\<forall>l \<in> set ls. 0 \<le> connection_count l \<and> connection_count l < 2 ^ 31" and "distinct (map sl_name ls)"
    and "unat n + length ls < 2 ^ 64"
  shows "(selectLeastLoaded ls n = None \<longleftrightarrow> ls = [])
    \<and> (\<forall>name. selectLeastLoaded ls n = Some name \<longrightarrow>
         (\<exists>l \<in> set ls. sl_name l = name \<and> (\<forall>l' \<in> set ls. connection_count l \<le> connection_count l')))
    \<and> (\<forall>ls'. mset ls' = mset ls \<longrightarrow> selectLeastLoaded ls' n = selectLeastLoaded ls n)
    \<and> (let best = filter (\<lambda>l. connection_count l = least_load ls) ls in
       distinct (map (\<lambda>k. selectLeastLoaded ls (n + of_nat k)) [0..<length best])
       \<and> set (map (\<lambda>k. selectLeastLoaded ls (n + of_nat k)) [0..<length best]) = Some ` sl_name ` set best)"
proof (cases "ls = []")
  case True
  then show ?thesis
    by (simp add: selectLeastLoaded_def)
next
  case False
  let ?best = "filter (\<lambda>l. connection_count l = least_load ls) ls"
  let ?c = "candidates ls"
  have bound: "\<forall>l \<in> set ls. connection_count l < 2 ^ 31"
    using assms(1) by blast
  have c: "mset ?c = mset (map sl_name ?best)"
    using minimum_loop_least [OF False bound] by (simp add: candidates_def)
  have len: "length ?c = length ?best" "length ?best \<le> length ls" "?c \<noteq> []"
    using c candidates_set(2) [OF False bound] by (metis length_map mset_eq_length, simp_all)
  have dist: "distinct ?c"
    using assms(2) c by (metis distinct_map_filter mset_eq_imp_distinct_iff)
  have step: "selectLeastLoaded ls (n + of_nat k) = Some (rotate (unat n) ?c ! k)" if "k < length ?c" for k
  proof -
    have "unat n + k < 2 ^ 64"
      using that len(1,2) assms(3) by linarith
    then have "unat (n + of_nat k :: 64 word) = unat n + k"
      by (simp add: unat_word_ariths unat_of_nat)
    then show ?thesis
      using that False by (simp add: selectLeastLoaded_def nth_rotate)
  qed
  have all: "map (\<lambda>k. selectLeastLoaded ls (n + of_nat k)) [0..<length ?best] = map Some (rotate (unat n) ?c)"
    by (rule nth_equalityI) (simp_all add: len(1) [symmetric] step)
  have "distinct (map (\<lambda>k. selectLeastLoaded ls (n + of_nat k)) [0..<length ?best])"
    "set (map (\<lambda>k. selectLeastLoaded ls (n + of_nat k)) [0..<length ?best]) = Some ` sl_name ` set ?best"
    unfolding all using dist candidates_set(1) [OF False bound] by (simp_all add: distinct_map)
  moreover have "\<exists>l \<in> set ls. sl_name l = name \<and> (\<forall>l' \<in> set ls. connection_count l \<le> connection_count l')"
    if "selectLeastLoaded ls n = Some name" for name
  proof -
    have "name \<in> set ?c"
      using that False len(3) by (auto simp: selectLeastLoaded_def)
    then show ?thesis
      using candidates_set(1) [OF False bound] by (auto simp: least_load_def)
  qed
  moreover have "selectLeastLoaded ls' n = selectLeastLoaded ls n" if "mset ls' = mset ls" for ls'
    using candidates_mset [OF that] that by (auto simp: selectLeastLoaded_def)
  ultimately show ?thesis
    using False unfolding Let_def by (auto simp: selectLeastLoaded_def)
qed

theorem selection_fair_witness:
  "let ls = [\<lparr>sl_name = ''b'', connection_count = 1\<rparr>, \<lparr>sl_name = ''a'', connection_count = 1\<rparr>, \<lparr>sl_name = ''c'', connection_count = 2\<rparr>] in
   \<forall>name. selectLeastLoaded ls 5 = Some name \<longrightarrow> (\<exists>l \<in> set ls. sl_name l = name \<and> (\<forall>l' \<in> set ls. connection_count l \<le> connection_count l'))"
proof -
  define ls where "ls = [\<lparr>sl_name = ''b'', connection_count = 1\<rparr>, \<lparr>sl_name = ''a'', connection_count = 1\<rparr>, \<lparr>sl_name = ''c'', connection_count = 2\<rparr>]"
  have "\<forall>l \<in> set ls. 0 \<le> connection_count l \<and> connection_count l < 2 ^ 31" "distinct (map sl_name ls)"
    "unat (5 :: 64 word) + length ls < 2 ^ 64"
    by (simp_all add: ls_def)
  from selection_fair [OF this] show ?thesis
    unfolding Let_def ls_def [symmetric] by blast
qed

section \<open>Tickets\<close>

lemma SetEx_cases:
  assumes "redis_server c now ks" and "SetEx c key v ttl s = (ok, s')" and "- (2 ^ 31) \<le> ttl" "ttl < 2 ^ 31" and "ok"
  obtains t where "now s \<le> t" "t \<le> now s'" "live t (ks s) key = None" "ks s' = (ks s)(key \<mapsto> (VStr v, Some (t + seconds ttl)))"
proof -
  let ?args = "[''SET'', key, v, ''EX'', to_string ttl, ''NX'']"
  have q: "redisCommand c ?args s = (Some (RStatus ''OK''), s')"
    using assms(2,5) by (auto simp: SetEx_def split: prod.splits option.splits reply.splits)
  from assms(1) q show ?thesis
  proof (rule redisCommand_cases)
    fix t
    assume t: "now s \<le> t" "t \<le> now s'" and some: "\<And>v. Some (RStatus ''OK'') = Some v \<Longrightarrow> redis_effect t ?args (ks s) = (v, ks s')"
    have "redis_effect t ?args (ks s) = (RStatus ''OK'', ks s')"
      by (rule some) simp
    then show ?thesis
      using that [OF t] from_chars_to_string [OF assms(3,4)] by (auto simp: redis_effect_def expiry_def split: if_splits)
  qed
qed

text \<open>The table of servers: keyed by their own names, and usable.\<close>

definition status_ok :: "status_state \<Rightarrow> bool" where
  "status_ok st \<longleftrightarrow> distinct (map fst (servers st)) \<and> (\<forall>(k, v) \<in> set (servers st). cs_name v = k \<and> server_ok v)"

lemma load_servers_ok:
  assumes "load_servers cfg ws table = Some table'" and "distinct (map fst table)"
    and "\<forall>(k, v) \<in> set table. cs_name v = k \<and> server_ok v"
  shows "distinct (map fst table') \<and> (\<forall>(k, v) \<in> set table'. cs_name v = k \<and> server_ok v)"
  using assms
proof (induction ws arbitrary: table)
  case (Cons w ws)
  show ?case
  proof (cases "cfg w ''Name'' = []")
    case True
    then show ?thesis
      using Cons by simp
  next
    case False
    let ?s = "configured_server cfg w"
    have ok: "server_ok ?s" and rest: "load_servers cfg ws (AList.update (cs_name ?s) ?s table) = Some table'"
      using Cons.prems(1) False by (auto simp: Let_def split: if_splits)
    have "set (AList.update (cs_name ?s) ?s table) \<subseteq> insert (cs_name ?s, ?s) (set table)"
      by (induction table) auto
    then have "\<forall>(k, v) \<in> set (AList.update (cs_name ?s) ?s table). cs_name v = k \<and> server_ok v"
      using Cons.prems(3) ok by auto
    moreover have "distinct (map fst (AList.update (cs_name ?s) ?s table))"
      using Cons.prems(2) by (rule distinct_update)
    ultimately show ?thesis
      using Cons.IH [OF rest] by blast
  qed
qed simp

lemma StatusServiceImpl_ok:
  assumes "StatusServiceImpl cfg = Some st"
  shows "status_ok st \<and> servers st \<noteq> []"
proof -
  obtain ws where "load_servers cfg ws [] = Some (servers st)" "servers st \<noteq> []"
    using assms by (auto simp: StatusServiceImpl_def Let_def split: option.splits if_splits)
  then show ?thesis
    using load_servers_ok [of cfg ws "[]" "servers st"] by (simp add: status_ok_def)
qed

lemma getChatServer_result:
  assumes "getChatServer c st s = (Some server, st', s')" and "status_ok st"
  shows "\<exists>v. (cs_name server, v) \<in> set (servers st) \<and> cs_host server = cs_host v \<and> cs_port server = cs_port v
    \<and> cs_transport server = cs_transport v \<and> cs_tls_name server = cs_tls_name v \<and> servers st' = servers st"
  using assms by (auto simp: getChatServer_def status_ok_def dest!: map_of_SomeD split: if_splits prod.splits option.splits)

text \<open>A reply without an error names a configured server, and its ticket is stored for that server.\<close>

lemma GetChatServer_result:
  assumes "redis_server c now ks" and "status_ok st"
    and "GetChatServer c lib gate_token metadata uuid uid st s = (RpcOk, reply, st', s')" and "rr_error reply = ERROR_CODE_OK"
  shows "0 < uid \<and> gate_token \<noteq> [] \<and> map_of metadata kMetadataKey = Some gate_token \<and> status_ok st' \<and> rr_token reply = uuid
    \<and> (\<exists>name v t. (name, v) \<in> set (servers st) \<and> rr_host reply = cs_host v \<and> rr_port reply = cs_port v
         \<and> ks s' (''chat_ticket_'' @ uuid) = Some (VStr (toStyledString lib (ticket_json uid name)), Some (t + seconds 60))
         \<and> t \<le> now s')"
proof -
  have auth: "authorize metadata gate_token = RpcOk" and uid: "0 < uid"
    using assms(3,4) by (auto simp: GetChatServer_def split: if_splits)
  obtain server s1 where g: "getChatServer c st s = (Some server, st', s1)"
    and ins: "insertToken c lib uid uuid (cs_name server) s1 = (True, s')"
    and r: "rr_token reply = uuid" "rr_host reply = cs_host server" "rr_port reply = cs_port server"
    using assms(3,4) auth uid
    by (auto simp: GetChatServer_def Let_def split: prod.splits option.splits if_splits)
  obtain t where "t \<le> now s'" "ks s' (''chat_ticket_'' @ uuid) = Some (VStr (toStyledString lib (ticket_json uid (cs_name server))), Some (t + seconds 60))"
    by (rule SetEx_cases [OF assms(1) ins [unfolded insertToken_def]]) auto
  then show ?thesis
    using getChatServer_result [OF g assms(2)] r auth uid assms(2) by (auto simp: authorize_ok status_ok_def)
qed

end
