(* ===== verification/Verification.thy ===== *)
theory Verification
  imports Redis_Store
begin

text \<open>
  Verification codes: how the verification service issues a code (\<^verbatim>\<open>VarifyServer/redis.js\<close>,
  \<^verbatim>\<open>VarifyServer/security.js\<close>) and how the gate consumes it
  (\<^verbatim>\<open>servers/gate/storage/RedisMgr.cpp\<close>). The random number of a code and the limit of
  codes per hour for all addresses, which comes from the environment, are arguments.
\<close>

section \<open>Issuing\<close>

text \<open>\<^verbatim>\<open>padStart(6, '0')\<close> of the decimal writing of the random number.\<close>

definition generateVerificationCode :: "nat \<Rightarrow> string" where
  "generateVerificationCode n = replicate (6 - length (decimal n)) (CHR ''0'') @ decimal n"

record verification_keys =
  key_code :: string
  key_attempts :: string
  key_cooldown :: string
  key_hourly :: string

definition verificationKeys :: "string \<Rightarrow> verification_keys" where
  "verificationKeys email =
     \<lparr>key_code = ''code_'' @ email, key_attempts = ''code_attempts_'' @ email,
      key_cooldown = ''code_cooldown_'' @ email, key_hourly = ''code_hourly_'' @ email\<rparr>"

definition global_key :: string where
  "global_key = ''verification_global_hourly''"

text \<open>The number of the reply; a failure is 0.\<close>

definition IssueVerificationCode :: "'s redis_link \<Rightarrow> int \<Rightarrow> string \<Rightarrow> string \<Rightarrow> 's \<Rightarrow> int \<times> 's" where
  "IssueVerificationCode c globalHourlyLimit email code s =
     (let keys = verificationKeys email in
      case redisCommand c
             [''EVAL'', ISSUE_CODE_SCRIPT, ''5'', key_code keys, key_cooldown keys, key_hourly keys, key_attempts keys,
              global_key, code, to_string 60, to_string 3600, to_string 10, to_string 300, to_string globalHourlyLimit] s of
        (Some (RInteger n), s') \<Rightarrow> (n, s')
      | (_, s') \<Rightarrow> (0, s'))"

section \<open>Consuming\<close>

datatype VerificationResult = Success | Expired | Mismatch | TooManyAttempts | RedisError

definition verification_result :: "int \<Rightarrow> VerificationResult" where
  "verification_result n =
     (if n = 1 then Success else if n = -1 then Expired else if n = -2 then Mismatch
      else if n = -3 then TooManyAttempts else RedisError)"

definition ConsumeVerificationCode :: "'s redis_link \<Rightarrow> string \<Rightarrow> string \<Rightarrow> int \<Rightarrow> 's \<Rightarrow> VerificationResult \<times> 's" where
  "ConsumeVerificationCode c email submitted max_attempts s =
     (case redisCommand c
             [''EVAL'', consume_text, ''2'', ''code_'' @ email, ''code_attempts_'' @ email, submitted, to_string max_attempts] s of
        (Some (RInteger n), s') \<Rightarrow> (verification_result n, s')
      | (_, s') \<Rightarrow> (RedisError, s'))"

section \<open>The state of a code\<close>

text \<open>
  \<open>code_state\<close> is what the keys of an address say: no code, or a code and the number of wrong
  guesses, with a counter that does not expire more than half a second before the code.
\<close>

definition code_state :: "string \<Rightarrow> string \<Rightarrow> time \<Rightarrow> nat \<Rightarrow> keyspace \<Rightarrow> bool" where
  "code_state email code e n ks \<longleftrightarrow>
     ks (''code_'' @ email) = Some (VStr code, Some e)
     \<and> (if n = 0 then ks (''code_attempts_'' @ email) = None
        else \<exists>e'. ks (''code_attempts_'' @ email) = Some (VStr (to_string (int n)), Some e') \<and> e - millis 500 \<le> e')"

definition code_gone :: "string \<Rightarrow> keyspace \<Rightarrow> bool" where
  "code_gone email ks \<longleftrightarrow> ks (''code_'' @ email) = None"

lemma keys_differ [simp]:
  "''code_attempts_'' @ email \<noteq> ''code_'' @ email" "''code_'' @ email \<noteq> ''code_attempts_'' @ email"
  by (auto dest: arg_cong [where f = length])

lemma rounded_ttl: "\<exists>w. (if (e - t + millis 500) div seconds 1 < 1 then 300 else (e - t + millis 500) div seconds 1) = w
    \<and> 0 < w \<and> e - millis 500 \<le> t + seconds w"
  by auto

lemma five: "from_chars ''5'' = Some 5"
  by code_simp

lemma one: "to_string 1 = ''1''"
  by code_simp

lemma wrong_guess:
  assumes st: "code_state email code e n ks" and t: "t < e - millis 500" and g: "g \<noteq> code" and n: "n < 5"
  shows "\<exists>ks'. consume_script t (''code_'' @ email) (''code_attempts_'' @ email) g ''5'' ks
           = (RInteger (if n = 4 then -3 else -2), ks')
         \<and> (if n = 4 then code_gone email ks' else code_state email code e (Suc n) ks')"
proof (cases n)
  case 0
  let ?a = "''code_attempts_'' @ email"
  let ?w = "if (e - t + millis 500) div seconds 1 < 1 then 300 else (e - t + millis 500) div seconds 1"
  have w: "0 < ?w" "e - millis 500 \<le> t + seconds ?w"
    using rounded_ttl [of e t] by auto
  have "consume_script t (''code_'' @ email) ?a g ''5'' ks = (RInteger (-2), ks(?a \<mapsto> (VStr ''1'', Some (t + seconds ?w))))"
    using st t g w(1) 0
    by (simp add: consume_script_def get_effect_def incr_effect_def ttl_effect_def expire_effect_def live_def code_state_def
        five Let_def)
  moreover have "code_state email code e 1 (ks(?a \<mapsto> (VStr ''1'', Some (t + seconds ?w))))"
    using st w(2) by (simp add: code_state_def one)
  ultimately show ?thesis
    using 0 by simp
next
  case (Suc m)
  let ?a = "''code_attempts_'' @ email"
  obtain e' where a: "ks ?a = Some (VStr (to_string (int n)), Some e')" "e - millis 500 \<le> e'"
    using st Suc by (auto simp: code_state_def)
  have i: "incr_effect t ?a ks = (RInteger (int n + 1), ks(?a \<mapsto> (VStr (to_string (int n + 1)), Some e')))"
    using a t n by (simp add: incr_effect_def live_def store_kept_def)
  have "consume_script t (''code_'' @ email) ?a g ''5'' ks =
      (if n = 4 then (RInteger (-3), ks(''code_'' @ email := None, ?a := None))
       else (RInteger (-2), ks(?a \<mapsto> (VStr (to_string (int n + 1)), Some e'))))"
    using st t g n Suc i
    by (auto simp: consume_script_def get_effect_def live_def code_state_def five Let_def fun_upd_twist)
  then show ?thesis
    using st a(2) by (auto simp: code_state_def code_gone_def add.commute)
qed

lemma right_guess:
  assumes "code_state email code e n ks" and "t < e - millis 500"
  shows "\<exists>ks'. consume_script t (''code_'' @ email) (''code_attempts_'' @ email) code ''5'' ks = (RInteger 1, ks')
         \<and> code_gone email ks'"
  using assms by (simp add: consume_script_def get_effect_def live_def code_state_def code_gone_def)

lemma no_guess:
  assumes "code_gone email ks"
  shows "consume_script t (''code_'' @ email) (''code_attempts_'' @ email) g m ks = (RInteger (-1), ks)"
  using assms by (simp add: consume_script_def get_effect_def live_def code_gone_def)

section \<open>A series of guesses\<close>

text \<open>
  Guesses for one address with the results they get. Before each one anything may happen that does not touch
  the two keys of the address and does not turn the clock back.
\<close>

fun guess_all :: "'s redis_link \<Rightarrow> string \<Rightarrow> (('s \<Rightarrow> 's) \<times> string) list \<Rightarrow> 's \<Rightarrow> VerificationResult list \<times> 's" where
  "guess_all c email [] s = ([], s)"
| "guess_all c email ((f, g) # gs) s =
     (case ConsumeVerificationCode c email g 5 (f s) of
        (r, s1) \<Rightarrow> (case guess_all c email gs s1 of (rs, s2) \<Rightarrow> (r # rs, s2)))"

definition meanwhile :: "('s \<Rightarrow> time) \<Rightarrow> ('s \<Rightarrow> keyspace) \<Rightarrow> string \<Rightarrow> ('s \<Rightarrow> 's) \<Rightarrow> bool" where
  "meanwhile now ks email f \<longleftrightarrow>
     (\<forall>s. now s \<le> now (f s) \<and> ks (f s) (''code_'' @ email) = ks s (''code_'' @ email)
        \<and> ks (f s) (''code_attempts_'' @ email) = ks s (''code_attempts_'' @ email))"

text \<open>The results that tell the caller something about the code.\<close>

definition answered :: "VerificationResult \<Rightarrow> bool" where
  "answered r \<longleftrightarrow> r \<in> {Success, Mismatch, TooManyAttempts}"

lemma five_text: "to_string 5 = ''5''"
  by code_simp

lemma eval_scripts:
  "redis_effect t [''EVAL'', consume_text, ''2'', k1, k2, a1, a2] ks = consume_script t k1 k2 a1 a2 ks"
  "redis_effect t [''EVAL'', ISSUE_CODE_SCRIPT, ''5'', k1, k2, k3, k4, k5, a1, a2, a3, a4, a5, a6] ks =
     issue_script t k1 k2 k3 k4 k5 a1 a2 a3 a4 a5 a6 ks"
  by (simp_all add: redis_effect_def code_effect_def)

lemma Consume_cases:
  assumes "redis_server c now ks" and "ConsumeVerificationCode c email g 5 s = (r, s')"
  obtains t where "now s \<le> t" "t \<le> now s'"
    "\<And>n ks'. consume_script t (''code_'' @ email) (''code_attempts_'' @ email) g ''5'' (ks s) = (RInteger n, ks')
       \<Longrightarrow> (r = verification_result n \<and> ks s' = ks') \<or> (r = RedisError \<and> (ks s' = ks s \<or> ks s' = ks'))"
proof -
  let ?args = "[''EVAL'', consume_text, ''2'', ''code_'' @ email, ''code_attempts_'' @ email, g, ''5'']"
  obtain q where q: "redisCommand c ?args s = (q, s')"
      "r = (case q of Some (RInteger n) \<Rightarrow> verification_result n | _ \<Rightarrow> RedisError)"
    using assms(2) by (auto simp: ConsumeVerificationCode_def five_text split: prod.splits option.splits reply.splits)
  show thesis
    by (rule redisCommand_cases [OF assms(1) q(1)], rule that) (use q(2) in \<open>auto simp: eval_scripts split: option.splits\<close>)
qed

lemma consume_script_one:
  assumes "consume_script t k1 k2 g m ks = (RInteger 1, ks')"
  shows "live t ks k1 = Some (VStr g) \<and> ks' = ks(k1 := None, k2 := None)"
  using assms unfolding consume_script_def get_effect_def
  by (auto simp: wrong_type_def Let_def split: option.splits rvalue.splits prod.splits if_splits reply.splits)

lemma Consume_success:
  assumes "redis_server c now ks" and "ConsumeVerificationCode c email g m s = (Success, s')"
  shows "\<exists>t. now s \<le> t \<and> t \<le> now s' \<and> live t (ks s) (''code_'' @ email) = Some (VStr g) \<and> code_gone email (ks s')"
proof -
  let ?args = "[''EVAL'', consume_text, ''2'', ''code_'' @ email, ''code_attempts_'' @ email, g, to_string m]"
  have q: "redisCommand c ?args s = (Some (RInteger 1), s')"
    using assms(2)
    by (auto simp: ConsumeVerificationCode_def verification_result_def split: prod.splits option.splits reply.splits if_splits)
  show ?thesis
  proof (rule redisCommand_cases [OF assms(1) q])
    fix t
    assume t: "now s \<le> t" "t \<le> now s'"
      and "\<And>v. Some (RInteger 1) = Some v \<Longrightarrow> redis_effect t ?args (ks s) = (v, ks s')"
    from this(3) [OF refl, unfolded eval_scripts]
    have "live t (ks s) (''code_'' @ email) = Some (VStr g) \<and> code_gone email (ks s')"
      using consume_script_one by (fastforce simp: code_gone_def)
    then show ?thesis
      using t by blast
  qed
qed

lemma guess_step:
  assumes "redis_server c now ks" and "ConsumeVerificationCode c email g 5 s = (r, s')"
    and st: "code_state email code e n (ks s)" and n: "n < 5" and e: "now s' < e - millis 500"
  shows "now s \<le> now s' \<and>
    (r = Success \<and> g = code \<and> code_gone email (ks s')
     \<or> r = Mismatch \<and> g \<noteq> code \<and> Suc n < 5 \<and> code_state email code e (Suc n) (ks s')
     \<or> r = TooManyAttempts \<and> g \<noteq> code \<and> code_gone email (ks s')
     \<or> r = RedisError \<and> (code_gone email (ks s') \<or> (\<exists>m<5. n \<le> m \<and> code_state email code e m (ks s'))))"
proof (rule Consume_cases [OF assms(1,2)])
  fix t
  assume t: "now s \<le> t" "t \<le> now s'"
    and run: "\<And>n ks'. consume_script t (''code_'' @ email) (''code_attempts_'' @ email) g ''5'' (ks s) = (RInteger n, ks')
       \<Longrightarrow> (r = verification_result n \<and> ks s' = ks') \<or> (r = RedisError \<and> (ks s' = ks s \<or> ks s' = ks'))"
  have te: "t < e - millis 500"
    using t(2) e by simp
  show ?thesis
  proof (cases "g = code")
    case True
    then show ?thesis
      using right_guess [OF st te] run t st n by (auto simp: verification_result_def)
  next
    case False
    obtain ks' where k: "(r = verification_result (if n = 4 then -3 else -2) \<and> ks s' = ks') \<or> (r = RedisError \<and> (ks s' = ks s \<or> ks s' = ks'))"
      "if n = 4 then code_gone email ks' else code_state email code e (Suc n) ks'"
      using wrong_guess [OF st te False n] run by blast
    consider "n = 4" | "n \<noteq> 4" "Suc n < 5"
      using n by linarith
    then show ?thesis
      using k st n t False by cases (auto simp: verification_result_def intro: exI [of _ n] exI [of _ "Suc n"])
  qed
qed

lemma guess_gone:
  assumes "redis_server c now ks" and "ConsumeVerificationCode c email g 5 s = (r, s')" and "code_gone email (ks s)"
  shows "now s \<le> now s' \<and> (r = Expired \<or> r = RedisError) \<and> code_gone email (ks s')"
  using assms(3)
  by - (rule Consume_cases [OF assms(1,2)], use no_guess [OF assms(3)] in \<open>auto simp: verification_result_def\<close>)

lemma meanwhile_state:
  assumes "meanwhile now ks email f"
  shows "code_state email code e n (ks (f s)) \<longleftrightarrow> code_state email code e n (ks s)"
    "code_gone email (ks (f s)) \<longleftrightarrow> code_gone email (ks s)" "now s \<le> now (f s)"
  using assms by (auto simp: meanwhile_def code_state_def code_gone_def)

lemma guess_all_time:
  assumes "redis_server c now ks" and "\<forall>(f, g) \<in> set gs. meanwhile now ks email f" and "guess_all c email gs s = (rs, s')"
  shows "now s \<le> now s'"
  using assms(2,3)
proof (induction gs arbitrary: s rs)
  case (Cons fg gs)
  obtain f g r s1 rs' where p: "fg = (f, g)" "ConsumeVerificationCode c email g 5 (f s) = (r, s1)"
      "guess_all c email gs s1 = (rs', s')"
    using Cons.prems(2) by (cases fg) (auto split: prod.splits)
  have "now s \<le> now (f s)" "now s1 \<le> now s'"
    using Cons p meanwhile_state(3) by fastforce+
  moreover have "now (f s) \<le> now s1"
    by (rule Consume_cases [OF assms(1) p(2)]) simp
  ultimately show ?case
    by simp
qed simp

lemma guess_all_gone:
  assumes "redis_server c now ks" and "\<forall>(f, g) \<in> set gs. meanwhile now ks email f" and "guess_all c email gs s = (rs, s')"
    and "code_gone email (ks s)"
  shows "\<forall>r \<in> set rs. \<not> answered r"
  using assms(2-)
proof (induction gs arbitrary: s rs)
  case (Cons fg gs)
  obtain f g r s1 rs' where p: "fg = (f, g)" "ConsumeVerificationCode c email g 5 (f s) = (r, s1)"
      "guess_all c email gs s1 = (rs', s')" "rs = r # rs'"
    using Cons.prems(2) by (cases fg) (auto split: prod.splits)
  have "code_gone email (ks (f s))"
    using Cons.prems p(1) meanwhile_state(2) by fastforce
  note step = guess_gone [OF assms(1) p(2) this]
  then show ?case
    using Cons.IH [OF _ p(3)] Cons.prems(1) p(4) by (auto simp: answered_def)
qed simp

lemma filter_none: "\<forall>r \<in> set rs. \<not> P r \<Longrightarrow> filter P rs = []"
  by (induction rs) auto

lemma guess_all_bound:
  assumes "redis_server c now ks" and "\<forall>(f, g) \<in> set gs. meanwhile now ks email f" and "guess_all c email gs s = (rs, s')"
    and "code_state email code e n (ks s)" and "n < 5" and "now s' < e - millis 500"
  shows "length (filter answered rs) + n \<le> 5 \<and> length (filter (\<lambda>r. r = Success) rs) \<le> 1
    \<and> (\<forall>(g, r) \<in> set (zip (map snd gs) rs). r = Success \<longrightarrow> g = code)"
  using assms(2-)
proof (induction gs arbitrary: s rs n)
  case (Cons fg gs)
  obtain f g r s1 rs' where p: "fg = (f, g)" "ConsumeVerificationCode c email g 5 (f s) = (r, s1)"
      "guess_all c email gs s1 = (rs', s')" "rs = r # rs'"
    using Cons.prems(2) by (cases fg) (auto split: prod.splits)
  have m: "\<forall>(f, g) \<in> set gs. meanwhile now ks email f"
    using Cons.prems(1) by simp
  have "code_state email code e n (ks (f s))"
    using Cons.prems p(1) meanwhile_state(1) by fastforce
  moreover have "now s1 < e - millis 500"
    using guess_all_time [OF assms(1) m p(3)] Cons.prems(5) by simp
  ultimately have step: "r = Success \<and> g = code \<and> code_gone email (ks s1)
     \<or> r = Mismatch \<and> g \<noteq> code \<and> Suc n < 5 \<and> code_state email code e (Suc n) (ks s1)
     \<or> r = TooManyAttempts \<and> g \<noteq> code \<and> code_gone email (ks s1)
     \<or> r = RedisError \<and> (code_gone email (ks s1) \<or> (\<exists>m<5. n \<le> m \<and> code_state email code e m (ks s1)))"
    using guess_step [OF assms(1) p(2)] Cons.prems(4) by blast
  show ?case
  proof (cases "code_gone email (ks s1)")
    case True
    have "\<forall>r \<in> set rs'. \<not> answered r"
      by (rule guess_all_gone [OF assms(1) m p(3) True])
    then have "filter answered rs' = []" "filter (\<lambda>r. r = Success) rs' = []" "Success \<notin> set rs'"
      by (auto simp: answered_def intro!: filter_none)
    then show ?thesis
      using step p Cons.prems(4) by (auto simp: code_state_def code_gone_def dest: set_zip_rightD)
  next
    case False
    then obtain m' where m': "n \<le> m'" "m' < 5" "code_state email code e m' (ks s1)" "r = Mismatch \<and> m' = Suc n \<or> r = RedisError"
      using step by auto
    show ?thesis
      using Cons.IH [OF m p(3) m'(3,2) Cons.prems(5)] m' p by (auto simp: answered_def)
  qed
qed simp

lemma issue_texts:
  "from_chars (to_string 60) = Some 60" "from_chars (to_string 3600) = Some 3600"
  "from_chars (to_string 10) = Some 10" "from_chars (to_string 300) = Some 300"
  by (simp_all add: from_chars_to_string)

lemma issued_script:
  assumes "issue_script t k1 k2 k3 k4 k5 code (to_string 60) w l (to_string 300) g ks = (RInteger 1, ks')"
    and "k1 \<noteq> k4" "k2 \<noteq> k1" "k2 \<noteq> k4"
  shows "ks' k1 = Some (VStr code, Some (t + seconds 300)) \<and> ks' k4 = None \<and> ks' k2 = Some (VStr ''1'', Some (t + seconds 60))"
  using assms
  by (auto simp: issue_script_def store_code_def issue_texts fun_upd_def split: if_splits prod.splits reply.splits option.splits)

lemma Issue_success:
  assumes "redis_server c now ks" and "IssueVerificationCode c limit email code s = (1, s')"
  obtains t where "now s \<le> t" "t \<le> now s'" "code_state email code (t + seconds 300) 0 (ks s')"
    "ks s' (''code_cooldown_'' @ email) = Some (VStr ''1'', Some (t + seconds 60))"
proof -
  let ?k = "verificationKeys email"
  let ?args = "[''EVAL'', ISSUE_CODE_SCRIPT, ''5'', key_code ?k, key_cooldown ?k, key_hourly ?k, key_attempts ?k,
              global_key, code, to_string 60, to_string 3600, to_string 10, to_string 300, to_string limit]"
  have q: "redisCommand c ?args s = (Some (RInteger 1), s')"
    using assms(2) by (auto simp: IssueVerificationCode_def Let_def split: prod.splits option.splits reply.splits)
  show thesis
  proof (rule redisCommand_cases [OF assms(1) q])
    fix t
    assume t: "now s \<le> t" "t \<le> now s'"
      and "\<And>v. Some (RInteger 1) = Some v \<Longrightarrow> redis_effect t ?args (ks s) = (v, ks s')"
    from this(3) [OF refl, unfolded eval_scripts]
    have "ks s' (key_code ?k) = Some (VStr code, Some (t + seconds 300)) \<and> ks s' (key_attempts ?k) = None
        \<and> ks s' (key_cooldown ?k) = Some (VStr ''1'', Some (t + seconds 60))"
      by (rule issued_script) (auto simp: verificationKeys_def dest: arg_cong [where f = length])
    then show thesis
      using that [OF t] by (simp add: verificationKeys_def code_state_def)
  qed
qed

text \<open>
  C9: Until half a second before a code expires, and whatever else happens meanwhile to other keys, at
  most five guesses for its address tell anything about it, at most one succeeds, none succeeds
  but with the code itself, and the code given first is refused only when Redis fails.
\<close>

theorem code_guesses_bounded:
  assumes "redis_server c now ks" and "IssueVerificationCode c limit email code s0 = (1, s)"
    and "\<forall>(f, g) \<in> set gs. meanwhile now ks email f" and "guess_all c email gs s = (rs, s')"
    and "now s' < now s0 + seconds 300 - millis 500"
  shows "length (filter answered rs) \<le> 5 \<and> length (filter (\<lambda>r. r = Success) rs) \<le> 1
    \<and> (\<forall>(g, r) \<in> set (zip (map snd gs) rs). r = Success \<longrightarrow> g = code)
    \<and> (\<forall>f gs'. gs = (f, code) # gs' \<longrightarrow> hd rs = Success \<or> hd rs = RedisError)"
proof -
  obtain t where t: "now s0 \<le> t" "code_state email code (t + seconds 300) 0 (ks s)"
    using Issue_success [OF assms(1,2)] by metis
  have e: "now s' < t + seconds 300 - millis 500"
    using t(1) assms(5) by simp
  have "hd rs = Success \<or> hd rs = RedisError" if g: "gs = (f, code) # gs'" for f gs'
  proof -
    obtain r s1 rs' where p: "ConsumeVerificationCode c email code 5 (f s) = (r, s1)" "guess_all c email gs' s1 = (rs', s')" "rs = r # rs'"
      using assms(4) g by (auto split: prod.splits)
    have "code_state email code (t + seconds 300) 0 (ks (f s))"
      using meanwhile_state(1) [of now ks email f] assms(3) g t(2) by simp
    moreover have "now s1 \<le> now s'"
      using guess_all_time [OF assms(1) _ p(2)] assms(3) g by simp
    ultimately show ?thesis
      using guess_step [OF assms(1) p(1), of code "t + seconds 300" 0] e p(3) by auto
  qed
  then show ?thesis
    using guess_all_bound [OF assms(1,3,4) t(2) _ e] by simp
qed

lemmas local_code_simps =
  IssueVerificationCode_def ConsumeVerificationCode_def verificationKeys_def local_redis_def redisCommand_def
  eval_scripts issue_script_def count_window_def incr_effect_def expire_effect_def live_def issue_texts store_code_def
  from_chars_to_string consume_script_def get_effect_def verification_result_def global_key_def Let_def ttl_effect_def
  five one five_text

definition example_keys :: keyspace where
  "example_keys =
     Map.empty(''code_hourly_a@b.c'' \<mapsto> (VStr ''1'', Some (seconds 3600)),
      ''verification_global_hourly'' \<mapsto> (VStr ''1'', Some (seconds 3600)),
      ''code_cooldown_a@b.c'' \<mapsto> (VStr ''1'', Some (seconds 60)),
      ''code_a@b.c'' \<mapsto> (VStr ''004213'', Some (seconds 300)), ''code_attempts_a@b.c'' := None)"

definition example_guesses :: "((time \<times> keyspace \<Rightarrow> time \<times> keyspace) \<times> string) list" where
  "example_guesses = [(\<lambda>s. s, ''111111''), (\<lambda>(t, ks). (t + seconds 1, ks), ''004213''), (\<lambda>s. s, ''004213'')]"

lemma example_issued:
  "IssueVerificationCode local_redis 500 ''a@b.c'' (generateVerificationCode 4213) (0, Map.empty) = (1, (0, example_keys))"
proof -
  have "generateVerificationCode 4213 = ''004213''"
    by (simp add: generateVerificationCode_def decimal.simps digit_char_def char_of_def numeral_2_eq_2 bit_Suc_0_iff)
  then show ?thesis
    by (simp add: local_code_simps example_keys_def)
qed

lemma example_results:
  "\<exists>ks. guess_all local_redis ''a@b.c'' example_guesses (0, example_keys) = ([Mismatch, Success, Expired], (seconds 1, ks))"
  by (simp add: local_code_simps example_keys_def example_guesses_def)

theorem code_guesses_bounded_witness:
  "\<exists>rs s'. guess_all local_redis ''a@b.c'' example_guesses (0, example_keys) = (rs, s') \<and> rs = [Mismatch, Success, Expired]
     \<and> length (filter answered rs) \<le> 5"
proof -
  obtain ks where g: "guess_all local_redis ''a@b.c'' example_guesses (0, example_keys) = ([Mismatch, Success, Expired], (seconds 1, ks))"
    using example_results by blast
  have m: "\<forall>(f, g) \<in> set example_guesses. meanwhile fst snd ''a@b.c'' f"
    by (auto simp: example_guesses_def meanwhile_def)
  have "length (filter answered [Mismatch, Success, Expired]) \<le> 5"
    using code_guesses_bounded [OF local_redis_server example_issued m g] by simp
  then show ?thesis
    using g by blast
qed

section \<open>Keys of different addresses\<close>

text \<open>
  The keys of different addresses are not kept apart: the cooldown mark of an address is the code of
  another one, so that after a request for a code the text 1 verifies the address that has
  \<open>cooldown_\<close> in front.
\<close>

lemma cooldown_mark_verifies:
  assumes "IssueVerificationCode local_redis 500 email code (t, Map.empty) = (n, s)"
  shows "n = 1 \<and> fst (ConsumeVerificationCode local_redis (''cooldown_'' @ email) ''1'' 5 s) = Success"
  using assms
  by (auto simp: local_code_simps)

end
