(* ===== verification/Varify_Service.thy ===== *)
theory Varify_Service
  imports Verification Internal_Rpc
begin

text \<open>
  The verification service, \<^verbatim>\<open>VarifyServer/server.js\<close> and \<^verbatim>\<open>VarifyServer/security.js\<close>. A
  JavaScript string is the list of its UTF-16 code units. Three things come from outside: the case
  mapping of \<^verbatim>\<open>toLowerCase\<close>, which is a table of Unicode, the encoding \<open>utf8\<close> with which
  ioredis sends a string, and whether the mail could be sent. The environment is a function from names to texts, empty where
  there is none.
\<close>

type_synonym js_string = "nat list"

definition js :: "string \<Rightarrow> js_string" where
  "js s = map of_char s"

section \<open>Addresses\<close>

text \<open>White space as \<^verbatim>\<open>trim\<close> and the class \<^verbatim>\<open>\s\<close> of regular expressions know it.\<close>

definition js_space :: "nat \<Rightarrow> bool" where
  "js_space u \<longleftrightarrow> u \<in> {9, 10, 11, 12, 13, 32, 0xA0, 0x1680, 0x2028, 0x2029, 0x202F, 0x205F, 0x3000, 0xFEFF}
     \<or> 0x2000 \<le> u \<and> u \<le> 0x200A"

definition js_trim :: "js_string \<Rightarrow> js_string" where
  "js_trim s = rev (dropWhile js_space (rev (dropWhile js_space s)))"

definition email_unit :: "nat \<Rightarrow> bool" where
  "email_unit u \<longleftrightarrow> \<not> js_space u \<and> u \<noteq> 64"

text \<open>
  \<^verbatim>\<open>EMAIL_PATTERN\<close>: a name, an at sign, and a domain with a dot that is neither its first nor its
  last unit.
\<close>

definition EMAIL_PATTERN :: "js_string \<Rightarrow> bool" where
  "EMAIL_PATTERN s =
     (let name = takeWhile email_unit s; rest = dropWhile email_unit s
      in name \<noteq> [] \<and> rest \<noteq> [] \<and> hd rest = 64 \<and> list_all email_unit (tl rest) \<and> 46 \<in> set (butlast (tl (tl rest))))"

definition normalizeEmail :: "(js_string \<Rightarrow> js_string) \<Rightarrow> js_string \<Rightarrow> js_string option" where
  "normalizeEmail toLowerCase v =
     (let email = toLowerCase (js_trim v)
      in if length email = 0 \<or> length email > 254 \<or> \<not> EMAIL_PATTERN email then None else Some email)"

section \<open>Authentication\<close>

definition starts_with :: "string \<Rightarrow> string \<Rightarrow> bool" where
  "starts_with p s \<longleftrightarrow> take (length p) s = p"

definition isLoopbackBind :: "string \<Rightarrow> bool" where
  "isLoopbackBind bindAddress \<longleftrightarrow> starts_with ''127.0.0.1:'' bindAddress \<or> starts_with ''[::1]:'' bindAddress"

definition bind_address :: "(string \<Rightarrow> string) \<Rightarrow> string" where
  "bind_address env = (if env ''VARIFY_BIND_ADDRESS'' = [] then ''127.0.0.1:5000'' else env ''VARIFY_BIND_ADDRESS'')"

definition configuredGateToken :: "(string \<Rightarrow> string) \<Rightarrow> string option" where
  "configuredGateToken env =
     (if env ''CHAT_GATE_VARIFY_TOKEN'' \<noteq> [] then Some (env ''CHAT_GATE_VARIFY_TOKEN'')
      else if isLoopbackBind (bind_address env) then Some kDevelopmentToken else None)"

definition authorizeGate :: "(string \<Rightarrow> string) \<Rightarrow> (string \<times> string) list \<Rightarrow> bool" where
  "authorizeGate env metadata =
     (case configuredGateToken env of
        None \<Rightarrow> False
      | Some expected \<Rightarrow> map snd (filter (\<lambda>(k, _). k = kMetadataKey) metadata) = [expected])"

text \<open>Whether \<^verbatim>\<open>main\<close> gets past its checks of the configuration; the mode is given in lower case.\<close>

definition main_checks :: "(string \<Rightarrow> string) \<Rightarrow> string \<Rightarrow> bool" where
  "main_checks env tlsMode \<longleftrightarrow>
     \<not> (\<not> isLoopbackBind (bind_address env) \<and> tlsMode \<noteq> ''tls'' \<and> tlsMode \<noteq> ''mtls'') \<and> configuredGateToken env \<noteq> None"

section \<open>The call\<close>

datatype varify_error = VSuccess | VRedisErr | VException | VInvalidEmail | VRateLimited

fun varify_number :: "varify_error \<Rightarrow> int" where
  "varify_number VSuccess = 0"
| "varify_number VRedisErr = 1"
| "varify_number VException = 2"
| "varify_number VInvalidEmail = 3"
| "varify_number VRateLimited = 4"

record 's varify_env =
  v_redis :: "'s redis_link"
  v_environment :: "string \<Rightarrow> string"
  v_global_limit :: int
  v_toLowerCase :: "js_string \<Rightarrow> js_string"
  v_utf8 :: "js_string \<Rightarrow> string"
  v_mail_sent :: "js_string \<Rightarrow> string \<Rightarrow> 's \<Rightarrow> bool"

text \<open>The answer: the status of the call, and the address and error of the reply.\<close>

definition GetVarifyCode ::
    "'s varify_env \<Rightarrow> (string \<times> string) list \<Rightarrow> nat \<Rightarrow> js_string \<Rightarrow> 's \<Rightarrow> (rpc_status \<times> js_string \<times> varify_error) \<times> 's" where
  "GetVarifyCode V metadata random request_email s =
     (if \<not> authorizeGate (v_environment V) metadata then ((Unauthenticated ''invalid internal RPC identity'', [], VSuccess), s)
      else case normalizeEmail (v_toLowerCase V) request_email of
        None \<Rightarrow> ((RpcOk, [], VInvalidEmail), s)
      | Some email \<Rightarrow>
          let uniqueId = generateVerificationCode random in
          case IssueVerificationCode (v_redis V) (v_global_limit V) (v_utf8 V email) uniqueId s of
            (issueResult, s') \<Rightarrow>
              if issueResult = 2 \<or> issueResult = 3 \<or> issueResult = 4 then ((RpcOk, email, VRateLimited), s')
              else if issueResult \<noteq> 1 then ((RpcOk, email, VRedisErr), s')
              else if v_mail_sent V email uniqueId s' then ((RpcOk, email, VSuccess), s')
              else ((RpcOk, email, VException), s'))"

section \<open>What the address check accepts\<close>

lemma takeWhile_prefix: "list_all P a \<Longrightarrow> \<not> P x \<Longrightarrow> takeWhile P (a @ x # b) = a \<and> dropWhile P (a @ x # b) = x # b"
  by (induction a) auto

lemma inner_dot: "46 \<in> set (butlast (tl d)) \<longleftrightarrow> (\<exists>b c. d = b @ 46 # c \<and> b \<noteq> [] \<and> c \<noteq> [])" for d :: js_string
proof
  assume "46 \<in> set (butlast (tl d))"
  then obtain x y where xy: "butlast (tl d) = x @ 46 # y"
    by (meson split_list)
  then have "tl d \<noteq> []"
    by auto
  then have "tl d = x @ 46 # y @ [last (tl d)]"
    using xy by (metis append_butlast_last_id append.assoc append_Cons)
  moreover from this have "d = hd d # tl d"
    by (metis append_is_Nil_conv list.exhaust_sel list.sel(2) list.distinct(1))
  ultimately have "d = (hd d # x) @ 46 # (y @ [last (tl d)])"
    by (metis append_Cons)
  then show "\<exists>b c. d = b @ 46 # c \<and> b \<noteq> [] \<and> c \<noteq> []"
    by blast
next
  assume "\<exists>b c. d = b @ 46 # c \<and> b \<noteq> [] \<and> c \<noteq> []"
  then obtain b c where "d = b @ 46 # c" "b \<noteq> []" "c \<noteq> []"
    by blast
  then show "46 \<in> set (butlast (tl d))"
    by (cases b) (auto simp: butlast_append)
qed

text \<open>The language of the regular expression.\<close>

lemma EMAIL_PATTERN_iff:
  "EMAIL_PATTERN s \<longleftrightarrow>
     (\<exists>a b c. s = a @ 64 # b @ 46 # c \<and> a \<noteq> [] \<and> b \<noteq> [] \<and> c \<noteq> []
        \<and> list_all email_unit a \<and> list_all email_unit b \<and> list_all email_unit c)"
proof
  assume p: "EMAIL_PATTERN s"
  let ?d = "tl (dropWhile email_unit s)"
  obtain b c where d: "?d = b @ 46 # c" "b \<noteq> []" "c \<noteq> []"
    using p inner_dot [of ?d] by (auto simp: EMAIL_PATTERN_def Let_def)
  have "s = takeWhile email_unit s @ 64 # ?d"
    using p by (metis (no_types, lifting) EMAIL_PATTERN_def list.collapse takeWhile_dropWhile_id)
  moreover have "list_all email_unit (takeWhile email_unit s)"
    by (auto simp: list_all_iff dest: set_takeWhileD)
  moreover have "list_all email_unit ?d" "takeWhile email_unit s \<noteq> []"
    using p by (simp_all add: EMAIL_PATTERN_def Let_def)
  ultimately show "\<exists>a b c. s = a @ 64 # b @ 46 # c \<and> a \<noteq> [] \<and> b \<noteq> [] \<and> c \<noteq> []
        \<and> list_all email_unit a \<and> list_all email_unit b \<and> list_all email_unit c"
    using d by (intro exI [of _ "takeWhile email_unit s"] exI [of _ b] exI [of _ c]) simp
next
  assume "\<exists>a b c. s = a @ 64 # b @ 46 # c \<and> a \<noteq> [] \<and> b \<noteq> [] \<and> c \<noteq> []
        \<and> list_all email_unit a \<and> list_all email_unit b \<and> list_all email_unit c"
  then obtain a b c where s: "s = a @ 64 # b @ 46 # c" "a \<noteq> []" "b \<noteq> []" "c \<noteq> []"
      "list_all email_unit a" "list_all email_unit b" "list_all email_unit c"
    by blast
  have u: "\<not> email_unit 64" "email_unit 46"
    by (simp_all add: email_unit_def js_space_def)
  note cut = takeWhile_prefix [OF s(5) u(1), of "b @ 46 # c"]
  have "46 \<in> set (butlast (tl (b @ 46 # c)))"
    using inner_dot [of "b @ 46 # c"] s by blast
  then show "EMAIL_PATTERN s"
    unfolding s(1) EMAIL_PATTERN_def Let_def using s(2,6,7) cut u by simp
qed

text \<open>
  An unauthenticated call and an address that is refused touch nothing; a positive answer means that the code
  that was mailed is the one stored for the address.
\<close>

lemma GetVarifyCode_result:
  assumes "redis_server (v_redis V) now ks" and "GetVarifyCode V metadata random request s = ((status, email, err), s')"
  shows "(status \<noteq> RpcOk \<longrightarrow> s' = s) \<and> (err = VInvalidEmail \<longrightarrow> s' = s)
    \<and> (status = RpcOk \<and> err = VSuccess \<longrightarrow>
         (\<exists>t. now s \<le> t \<and> t \<le> now s' \<and> EMAIL_PATTERN email
            \<and> code_state (v_utf8 V email) (generateVerificationCode random) (t + seconds 300) 0 (ks s')))"
proof -
  have issued: "\<exists>t. now s \<le> t \<and> t \<le> now s' \<and> code_state (v_utf8 V e) (generateVerificationCode random) (t + seconds 300) 0 (ks s')"
    if "IssueVerificationCode (v_redis V) (v_global_limit V) (v_utf8 V e) (generateVerificationCode random) s = (1, s')" for e
    using Issue_success [OF assms(1) that] by metis
  show ?thesis
    using assms(2) issued
    by (auto simp: GetVarifyCode_def normalizeEmail_def Let_def split: if_splits option.splits prod.splits)
qed

lemma decimal_length: "n < 10 ^ Suc k \<Longrightarrow> length (decimal n) \<le> Suc k"
proof (induction k arbitrary: n)
  case (Suc k)
  then show ?case
    using Suc.IH [of "n div 10"] by (subst decimal.simps) auto
qed (subst decimal.simps, simp)

lemma generateVerificationCode_length: "n < 1000000 \<Longrightarrow> length (generateVerificationCode n) = 6"
  using decimal_length [of n 5] by (simp add: generateVerificationCode_def)

end
