(* ===== verification/Credentials.thy ===== *)
theory Credentials
  imports Chat_Schema Decimal
begin

text \<open>
  Passwords and the accounts that carry them: \<^verbatim>\<open>common/PasswordHasher.cpp\<close>,
  \<^verbatim>\<open>common/PasswordUpgradeGuard.h\<close>, the access layer of the gate in
  \<^verbatim>\<open>servers/gate/storage/MysqlDao.cpp\<close> with the procedure
  \<^verbatim>\<open>reg_user\<close> of \<^verbatim>\<open>database/schema.sql\<close>, and the account methods of
  \<^verbatim>\<open>servers/chat/storage/MysqlDao.cpp\<close>. The library libsodium is the argument
  \<open>sodium\<close>; the salt that it draws for a hash is an argument of the function that hashes. The
  server's check of the width of a column is the argument \<open>too_long\<close>.
\<close>

section \<open>Password hashes\<close>

record sodium =
  sodium_init :: int
  crypto_pwhash_str :: "string \<Rightarrow> string \<Rightarrow> string option"
  crypto_pwhash_str_verify :: "string \<Rightarrow> string \<Rightarrow> bool"
  crypto_pwhash_str_needs_rehash :: "string \<Rightarrow> bool"
  crypto_hash_sha256 :: "string \<Rightarrow> string"

definition ensureSodiumInitialized :: "sodium \<Rightarrow> unit outcome" where
  "ensureSodiumInitialized L = (if sodium_init L < 0 then Throws else Returns ())"

definition hash :: "sodium \<Rightarrow> string \<Rightarrow> string \<Rightarrow> string outcome" where
  "hash L salt password =
     (case ensureSodiumInitialized L of
        Throws \<Rightarrow> Throws
      | Returns _ \<Rightarrow>
          if password = [] then Throws
          else case crypto_pwhash_str L salt password of None \<Rightarrow> Throws | Some h \<Rightarrow> Returns h)"

definition isEncodedHash :: "string \<Rightarrow> bool" where
  "isEncodedHash v \<longleftrightarrow> take 10 v = ''$argon2id$''"

definition verify :: "sodium \<Rightarrow> string \<Rightarrow> string \<Rightarrow> bool outcome" where
  "verify L password encoded_hash =
     (case ensureSodiumInitialized L of
        Throws \<Rightarrow> Throws
      | Returns _ \<Rightarrow> Returns (isEncodedHash encoded_hash \<and> crypto_pwhash_str_verify L (c_str encoded_hash) password))"

definition needsRehash :: "sodium \<Rightarrow> string \<Rightarrow> bool outcome" where
  "needsRehash L encoded_hash =
     (case ensureSodiumInitialized L of
        Throws \<Rightarrow> Throws
      | Returns _ \<Rightarrow> Returns (\<not> isEncodedHash encoded_hash \<or> crypto_pwhash_str_needs_rehash L (c_str encoded_hash)))"

definition hex_digit :: "nat \<Rightarrow> char" where
  "hex_digit n = (if n < 10 then char_of (48 + n) else char_of (87 + n))"

definition sodium_bin2hex :: "string \<Rightarrow> string" where
  "sodium_bin2hex bs = concat (map (\<lambda>b. [hex_digit (of_char b div 16), hex_digit (of_char b mod 16)]) bs)"

definition legacyClientSha256 :: "sodium \<Rightarrow> string \<Rightarrow> string outcome" where
  "legacyClientSha256 L password =
     (case ensureSodiumInitialized L of
        Throws \<Rightarrow> Throws
      | Returns _ \<Rightarrow> Returns (sodium_bin2hex (crypto_hash_sha256 L password)))"

record password_verification =
  valid :: bool
  upgrade_required :: bool
  upgraded_hash :: string

definition refused :: password_verification where
  "refused = \<lparr>valid = False, upgrade_required = False, upgraded_hash = []\<rparr>"

abbreviation raw_scheme :: string where
  "raw_scheme \<equiv> ''argon2id_raw''"

abbreviation legacy_scheme :: string where
  "legacy_scheme \<equiv> ''legacy_client_sha256''"

definition verifyCredential :: "sodium \<Rightarrow> string \<Rightarrow> string \<Rightarrow> string \<Rightarrow> string \<Rightarrow> password_verification outcome" where
  "verifyCredential L salt raw_password stored_hash password_scheme =
     (if password_scheme \<noteq> raw_scheme \<and> password_scheme \<noteq> legacy_scheme then Returns refused
      else case (if password_scheme = legacy_scheme then legacyClientSha256 L raw_password else Returns raw_password) of
        Throws \<Rightarrow> Throws
      | Returns candidate \<Rightarrow>
          let legacy_plaintext = (\<not> isEncodedHash stored_hash) in
          case (if legacy_plaintext then Returns (candidate = stored_hash) else verify L candidate stored_hash) of
            Throws \<Rightarrow> Throws
          | Returns ok \<Rightarrow>
              if \<not> ok then Returns refused
              else case (if legacy_plaintext \<or> password_scheme = legacy_scheme then Returns True else needsRehash L stored_hash) of
                Throws \<Rightarrow> Throws
              | Returns upgrade \<Rightarrow>
                  if \<not> upgrade then Returns \<lparr>valid = True, upgrade_required = False, upgraded_hash = []\<rparr>
                  else case hash L salt raw_password of
                    Throws \<Rightarrow> Throws
                  | Returns h \<Rightarrow> Returns \<lparr>valid = True, upgrade_required = True, upgraded_hash = h\<rparr>)"

definition ApplyPasswordUpgradeIfCurrent ::
    "password_verification \<Rightarrow> string \<Rightarrow> string \<Rightarrow> (string \<Rightarrow> string \<Rightarrow> string \<Rightarrow> ('s, int) io) \<Rightarrow> ('s, bool) io" where
  "ApplyPasswordUpgradeIfCurrent verification stored_hash stored_scheme compare_and_swap =
     (if \<not> upgrade_required verification then io_return True
      else io_bind (compare_and_swap (upgraded_hash verification) stored_hash stored_scheme) (\<lambda>n. io_return (n = 1)))"

section \<open>Accounts\<close>

record account_db =
  accounts :: "user_row list"
  user_id :: "int list"

text \<open>Statements. An update counts the rows that it changes.\<close>

definition update_accounts :: "(user_row \<Rightarrow> bool) \<Rightarrow> (user_row \<Rightarrow> user_row) \<Rightarrow> account_db \<Rightarrow> int \<times> account_db" where
  "update_accounts p f d =
     (int (length (filter (\<lambda>r. p r \<and> f r \<noteq> r) (accounts d))), d\<lparr>accounts := map (\<lambda>r. if p r then f r else r) (accounts d)\<rparr>)"

definition insert_account ::
    "(string \<Rightarrow> string) \<Rightarrow> (nat \<Rightarrow> string \<Rightarrow> bool) \<Rightarrow> user_row \<Rightarrow> account_db \<Rightarrow> (int \<times> account_db) option" where
  "insert_account ck too_long r d =
     (if list_ex (\<lambda>x. u_uid x = u_uid r \<or> ck (u_name x) = ck (u_name r) \<or> ck (u_email x) = ck (u_email r)) (accounts d) then None
      else if too_long 64 (u_name r) \<or> too_long 255 (u_email r) \<or> too_long 255 (u_pwd r) \<or> too_long 64 (u_nick r)
        \<or> too_long 512 (u_icon r) then None
      else Some (1, d\<lparr>accounts := accounts d @ [r]\<rparr>))"

definition next_user_id :: "account_db \<Rightarrow> (int \<times> account_db) option" where
  "next_user_id d =
     (if list_ex (\<lambda>i. i + 1 \<ge> 2 ^ 31) (user_id d) then None
      else Some (int (length (user_id d)), d\<lparr>user_id := map (\<lambda>i. i + 1) (user_id d)\<rparr>))"

definition new_account :: "int \<Rightarrow> string \<Rightarrow> string \<Rightarrow> string \<Rightarrow> string \<Rightarrow> user_row" where
  "new_account uid name email pwd icon =
     \<lparr>u_uid = uid, u_name = name, u_email = email, u_pwd = pwd, u_scheme = raw_scheme, u_nick = name, u_desc = [],
      u_sex = 0, u_icon = icon\<rparr>"

text \<open>
  The stored procedure. Its statements are committed one by one, so an error of a later one leaves the earlier ones.
  \<open>last_id\<close> is what the session last gave to \<^verbatim>\<open>LAST_INSERT_ID\<close>, which
  the procedure reads when the counter table is empty.
\<close>

definition reg_user ::
    "(string \<Rightarrow> string) \<Rightarrow> (nat \<Rightarrow> string \<Rightarrow> bool) \<Rightarrow> int \<Rightarrow> string \<Rightarrow> string \<Rightarrow> string \<Rightarrow> account_db \<Rightarrow> int outcome \<times> account_db" where
  "reg_user ck too_long last_id name email pwd d =
     (if list_ex (\<lambda>r. ck (u_name r) = ck name \<or> ck (u_email r) = ck email) (accounts d) then (Returns 0, d)
      else case next_user_id d of
        None \<Rightarrow> (Throws, d)
      | Some (_, d1) \<Rightarrow>
          let next_uid = (if user_id d1 = [] then last_id else last (user_id d1))
          in case insert_account ck too_long (new_account next_uid name email pwd []) d1 of
               None \<Rightarrow> (Throws, d1)
             | Some (_, d2) \<Rightarrow> (Returns next_uid, d2))"

definition call_procedure :: "('d \<Rightarrow> 'a outcome \<times> 'd) \<Rightarrow> ('d conn, 'a) io" where
  "call_procedure f = faulty (\<lambda>c. case f (working c) of (r, w) \<Rightarrow> (r, c\<lparr>working := w, durable := w\<rparr>))"

definition RegUser ::
    "sodium \<Rightarrow> (string \<Rightarrow> string) \<Rightarrow> (nat \<Rightarrow> string \<Rightarrow> bool) \<Rightarrow> int \<Rightarrow> string \<Rightarrow> sql_env \<Rightarrow> string \<Rightarrow> string \<Rightarrow> string \<Rightarrow> account_db
      \<Rightarrow> int outcome \<times> account_db" where
  "RegUser L ck too_long last_id salt e name email pwd d =
     with_connection e 0
       (case hash L salt pwd of
          Throws \<Rightarrow> io_throw
        | Returns password_hash \<Rightarrow>
            io_catch
              (io_bind (call_procedure (reg_user ck too_long last_id name email password_hash)) (\<lambda>n. select (\<lambda>_. n)))
              (io_return (-1))) d"

definition register_body ::
    "(string \<Rightarrow> string) \<Rightarrow> (nat \<Rightarrow> string \<Rightarrow> bool) \<Rightarrow> string \<Rightarrow> string \<Rightarrow> string \<Rightarrow> string \<Rightarrow> (account_db conn, int) io" where
  "register_body ck too_long name email password_hash icon =
     io_then (setAutoCommit False)
       (io_bind (select (\<lambda>d. list_ex (\<lambda>r. ck (u_email r) = ck email) (accounts d))) (\<lambda>email_exist.
          if email_exist then io_then rollback (io_return 0)
          else io_bind (select (\<lambda>d. list_ex (\<lambda>r. ck (u_name r) = ck name) (accounts d))) (\<lambda>name_exist.
            if name_exist then io_then rollback (io_return 0)
            else io_then (statement next_user_id)
              (io_bind (select user_id) (\<lambda>ids.
                 case ids of
                   [] \<Rightarrow> io_then rollback (io_return (-1))
                 | newId # _ \<Rightarrow>
                     io_then (statement (insert_account ck too_long (new_account newId name email password_hash icon)))
                       (io_then commit (io_return newId)))))))"

definition RegUserTransaction ::
    "sodium \<Rightarrow> (string \<Rightarrow> string) \<Rightarrow> (nat \<Rightarrow> string \<Rightarrow> bool) \<Rightarrow> string \<Rightarrow> sql_env \<Rightarrow> string \<Rightarrow> string \<Rightarrow> string \<Rightarrow> string \<Rightarrow> account_db
      \<Rightarrow> int outcome \<times> account_db" where
  "RegUserTransaction L ck too_long salt e name email pwd icon d =
     with_connection e 0
       (case hash L salt pwd of
          Throws \<Rightarrow> io_throw
        | Returns password_hash \<Rightarrow>
            io_catch (register_body ck too_long name email password_hash icon) (io_then rollback (io_return (-1)))) d"

definition CheckEmail :: "(string \<Rightarrow> string) \<Rightarrow> sql_env \<Rightarrow> string \<Rightarrow> string \<Rightarrow> account_db \<Rightarrow> bool outcome \<times> account_db" where
  "CheckEmail ck e name email d =
     with_connection e False
       (io_catch
         (io_bind (select (\<lambda>d. filter (\<lambda>r. ck (u_name r) = ck name) (accounts d))) (\<lambda>rows.
            io_return (case rows of [] \<Rightarrow> False | r # _ \<Rightarrow> email = u_email r)))
         (io_return False)) d"

definition UpdatePwd ::
    "sodium \<Rightarrow> (string \<Rightarrow> string) \<Rightarrow> string \<Rightarrow> sql_env \<Rightarrow> string \<Rightarrow> string \<Rightarrow> account_db \<Rightarrow> bool outcome \<times> account_db" where
  "UpdatePwd L ck salt e name newpwd d =
     with_connection e False
       (case hash L salt newpwd of
          Throws \<Rightarrow> io_throw
        | Returns password_hash \<Rightarrow>
            io_catch
              (io_then
                 (statement (\<lambda>d. Some (update_accounts (\<lambda>r. ck (u_name r) = ck name)
                    (\<lambda>r. r\<lparr>u_pwd := password_hash, u_scheme := raw_scheme\<rparr>) d)))
                 (io_return True))
              (io_return False)) d"

record login_user =
  lu_name :: string
  lu_email :: string
  lu_uid :: int

text \<open>What the other connections commit between two statements of a method that is not in a transaction.\<close>

definition interference :: "('d \<Rightarrow> 'd) \<Rightarrow> ('d conn, unit) io" where
  "interference other = (\<lambda>c. (Returns (), c\<lparr>durable := other (durable c), working := other (working c)\<rparr>))"

definition upgrade_credential ::
    "(string \<Rightarrow> string) \<Rightarrow> int \<Rightarrow> string \<Rightarrow> string \<Rightarrow> string \<Rightarrow> (account_db conn, int) io" where
  "upgrade_credential ck uid new_hash expected_hash expected_scheme =
     statement (\<lambda>d. Some (update_accounts
       (\<lambda>r. u_uid r = uid \<and> u_pwd r = expected_hash \<and> ck (u_scheme r) = ck expected_scheme)
       (\<lambda>r. r\<lparr>u_pwd := new_hash, u_scheme := raw_scheme\<rparr>) d))"

text \<open>The answer is the user, if the password is right, and whether the database was unavailable.\<close>

definition accept_user ::
    "(string \<Rightarrow> string) \<Rightarrow> (account_db \<Rightarrow> account_db) \<Rightarrow> string \<Rightarrow> user_row \<Rightarrow> password_verification
      \<Rightarrow> (account_db conn, login_user option \<times> bool) io" where
  "accept_user ck other email r verification =
     io_then (interference other)
       (io_catch
          (io_bind
             (ApplyPasswordUpgradeIfCurrent verification (u_pwd r) (u_scheme r) (upgrade_credential ck (u_uid r)))
             (\<lambda>upgrade_applied.
                io_return
                  (if \<not> upgrade_applied then (None, False)
                   else (Some \<lparr>lu_name = u_name r, lu_email = email, lu_uid = u_uid r\<rparr>, False))))
          (io_return (None, True)))"

definition check_row ::
    "sodium \<Rightarrow> (string \<Rightarrow> string) \<Rightarrow> string \<Rightarrow> (account_db \<Rightarrow> account_db) \<Rightarrow> string \<Rightarrow> string \<Rightarrow> user_row
      \<Rightarrow> (account_db conn, login_user option \<times> bool) io" where
  "check_row L ck salt other email pwd r =
     (case verifyCredential L salt pwd (u_pwd r) (u_scheme r) of
        Throws \<Rightarrow> io_throw
      | Returns verification \<Rightarrow>
          if \<not> valid verification then io_return (None, False)
          else accept_user ck other email r verification)"

definition CheckPwd ::
    "sodium \<Rightarrow> (string \<Rightarrow> string) \<Rightarrow> string \<Rightarrow> (account_db \<Rightarrow> account_db) \<Rightarrow> sql_env \<Rightarrow> string \<Rightarrow> string \<Rightarrow> account_db
      \<Rightarrow> (login_user option \<times> bool) outcome \<times> account_db" where
  "CheckPwd L ck salt other e email pwd d =
     with_connection e (None, True)
       (io_bind
         (io_catch
            (io_bind (select (\<lambda>d. filter (\<lambda>r. ck (u_email r) = ck email) (accounts d))) (\<lambda>rows. io_return (Some rows)))
            (io_return None))
         (\<lambda>found.
            case found of
              None \<Rightarrow> io_return (None, True)
            | Some [] \<Rightarrow> io_return (None, False)
            | Some (r # _) \<Rightarrow> check_row L ck salt other email pwd r))
       d"

text \<open>
  The migration at start-up hashes the passwords that are not hashed yet. Its update compares the old value under the
  collation; the salt of the account with identifier \<open>u\<close> is \<open>salt u\<close>.
\<close>

fun migrate_loop ::
    "sodium \<Rightarrow> (string \<Rightarrow> string) \<Rightarrow> (int \<Rightarrow> string) \<Rightarrow> (int \<times> string) list \<Rightarrow> (account_db conn, unit) io" where
  "migrate_loop L ck salt [] = io_return ()"
| "migrate_loop L ck salt ((uid, plaintext) # rest) =
     (if plaintext = [] then migrate_loop L ck salt rest
      else case hash L (salt uid) plaintext of
        Throws \<Rightarrow> io_throw
      | Returns encoded \<Rightarrow>
          io_then
            (statement (\<lambda>d. Some (update_accounts (\<lambda>r. u_uid r = uid \<and> ck (u_pwd r) = ck plaintext)
               (\<lambda>r. r\<lparr>u_pwd := encoded\<rparr>) d)))
            (migrate_loop L ck salt rest))"

definition MigrateLegacyPasswords ::
    "sodium \<Rightarrow> (string \<Rightarrow> string) \<Rightarrow> (int \<Rightarrow> string) \<Rightarrow> sql_env \<Rightarrow> account_db \<Rightarrow> unit outcome \<times> account_db" where
  "MigrateLegacyPasswords L ck salt e d =
     with_connection e ()
       (io_catch
         (io_bind (select (\<lambda>d. map (\<lambda>r. (u_uid r, u_pwd r)) (filter (\<lambda>r. \<not> isEncodedHash (u_pwd r)) (accounts d))))
            (migrate_loop L ck salt))
         (io_return ())) d"

section \<open>The account methods of the chat server\<close>

definition chat_CheckEmail :: "(string \<Rightarrow> string) \<Rightarrow> sql_env \<Rightarrow> string \<Rightarrow> string \<Rightarrow> account_db \<Rightarrow> bool outcome \<times> account_db" where
  "chat_CheckEmail ck e name email d =
     with_connection e False
       (io_catch
         (io_bind (select (\<lambda>d. filter (\<lambda>r. ck (u_name r) = ck name) (accounts d))) (\<lambda>rows.
            io_return (case rows of [] \<Rightarrow> True | r # _ \<Rightarrow> email = u_email r)))
         (io_return False)) d"

definition chat_UpdatePwd ::
    "sodium \<Rightarrow> (string \<Rightarrow> string) \<Rightarrow> string \<Rightarrow> sql_env \<Rightarrow> string \<Rightarrow> string \<Rightarrow> account_db \<Rightarrow> bool outcome \<times> account_db" where
  "chat_UpdatePwd L ck salt e name newpwd d =
     with_connection e False
       (case hash L salt newpwd of
          Throws \<Rightarrow> io_throw
        | Returns password_hash \<Rightarrow>
            io_catch
              (io_then
                 (statement (\<lambda>d. Some (update_accounts (\<lambda>r. ck (u_name r) = ck name) (\<lambda>r. r\<lparr>u_pwd := password_hash\<rparr>) d)))
                 (io_return True))
              (io_return False)) d"

text \<open>The part of \<^verbatim>\<open>CheckPwd\<close> that decides: whether the password is right, and the new hash if one is stored.\<close>

definition chat_verification :: "sodium \<Rightarrow> string \<Rightarrow> string \<Rightarrow> string \<Rightarrow> (bool \<times> string option) outcome" where
  "chat_verification L salt pwd stored_password =
     (case verify L pwd stored_password of
        Throws \<Rightarrow> Throws
      | Returns ok \<Rightarrow>
          let legacy = (\<not> isEncodedHash stored_password);
              valid = (if legacy then pwd = stored_password else ok)
          in if \<not> valid then Returns (False, None)
             else case needsRehash L stored_password of
               Throws \<Rightarrow> Throws
             | Returns rehash \<Rightarrow>
                 if \<not> (legacy \<or> rehash) then Returns (True, None)
                 else case hash L salt pwd of Throws \<Rightarrow> Throws | Returns h \<Rightarrow> Returns (True, Some h))"

definition chat_CheckPwd ::
    "sodium \<Rightarrow> (string \<Rightarrow> string) \<Rightarrow> string \<Rightarrow> (account_db \<Rightarrow> account_db) \<Rightarrow> sql_env \<Rightarrow> string \<Rightarrow> string \<Rightarrow> account_db
      \<Rightarrow> login_user option outcome \<times> account_db" where
  "chat_CheckPwd L ck salt other e name pwd d =
     with_connection e None
       (io_bind
         (io_catch
            (select (\<lambda>d. filter (\<lambda>r. ck (u_name r) = ck name) (accounts d)))
            (io_return []))
         (\<lambda>rows.
            case rows of
              [] \<Rightarrow> io_return None
            | r # _ \<Rightarrow>
                (case chat_verification L salt pwd (u_pwd r) of
                   Throws \<Rightarrow> io_throw
                 | Returns (ok, upgraded) \<Rightarrow>
                     if \<not> ok then io_return None
                     else io_then (interference other)
                       (io_catch
                          (io_then
                             (case upgraded of
                                None \<Rightarrow> io_return ()
                              | Some h \<Rightarrow>
                                  io_then (statement (\<lambda>d. Some (update_accounts (\<lambda>x. u_uid x = u_uid r) (\<lambda>x. x\<lparr>u_pwd := h\<rparr>) d)))
                                    (io_return ()))
                             (io_return (Some \<lparr>lu_name = name, lu_email = u_email r, lu_uid = u_uid r\<rparr>)))
                          (io_return None)))))
       d"

section \<open>What a credential accepts\<close>

text \<open>What the code relies on of libsodium: the hash of a password is one line in the format of Argon2id that verifies it.\<close>

definition sodium_ok :: "sodium \<Rightarrow> bool" where
  "sodium_ok L \<longleftrightarrow>
     (\<forall>salt p h. crypto_pwhash_str L salt p = Some h \<longrightarrow>
        isEncodedHash h \<and> CHR 0x00 \<notin> set h \<and> crypto_pwhash_str_verify L h p)"

definition accepts :: "sodium \<Rightarrow> user_row \<Rightarrow> string \<Rightarrow> bool" where
  "accepts L r p \<longleftrightarrow>
     (let candidate = (if u_scheme r = legacy_scheme then sodium_bin2hex (crypto_hash_sha256 L p) else p)
      in (u_scheme r = raw_scheme \<or> u_scheme r = legacy_scheme)
         \<and> (if isEncodedHash (u_pwd r) then crypto_pwhash_str_verify L (c_str (u_pwd r)) candidate else candidate = u_pwd r))"

lemma hash_accepted:
  assumes "sodium_ok L" and "hash L salt p = Returns h"
  shows "isEncodedHash h \<and> crypto_pwhash_str_verify L (c_str h) p"
proof -
  have h: "isEncodedHash h \<and> CHR 0x00 \<notin> set h \<and> crypto_pwhash_str_verify L h p"
    using assms by (auto simp: hash_def sodium_ok_def split: outcome.splits if_splits option.splits)
  then have "c_str h = h"
    by (auto simp: c_str_def takeWhile_eq_all_conv)
  then show ?thesis
    using h by simp
qed

lemma verifyCredential_accepts:
  assumes "verifyCredential L salt p (u_pwd r) (u_scheme r) = Returns v"
  shows "valid v \<longleftrightarrow> accepts L r p"
  using assms
  by (auto simp: verifyCredential_def accepts_def refused_def legacyClientSha256_def verify_def needsRehash_def Let_def
      split: outcome.splits if_splits)

lemma verifyCredential_upgrade:
  assumes "verifyCredential L salt p (u_pwd r) (u_scheme r) = Returns v" and "upgrade_required v"
  shows "hash L salt p = Returns (upgraded_hash v)"
  using assms
  by (auto simp: verifyCredential_def refused_def Let_def split: outcome.splits if_splits)

lemma accepts_upgraded:
  assumes "sodium_ok L" and "hash L salt p = Returns h"
  shows "accepts L (r\<lparr>u_pwd := h, u_scheme := raw_scheme\<rparr>) p"
  using hash_accepted [OF assms] by (simp add: accepts_def)

section \<open>Checking a password\<close>

text \<open>
  The rows after a check: each is as it was, or it accepted the password and holds a new hash that accepts it too.
\<close>

definition upgraded_rows :: "sodium \<Rightarrow> string \<Rightarrow> user_row list \<Rightarrow> user_row list \<Rightarrow> bool" where
  "upgraded_rows L p rs rs' \<longleftrightarrow>
     list_all2 (\<lambda>r r'. r' = r \<or> (\<exists>h. r' = r\<lparr>u_pwd := h, u_scheme := raw_scheme\<rparr> \<and> accepts L r p \<and> accepts L r' p)) rs rs'"

lemma upgraded_rows_refl [simp]: "upgraded_rows L p rs rs"
  by (simp add: upgraded_rows_def list.rel_refl)

definition schemes_ok :: "(string \<Rightarrow> string) \<Rightarrow> account_db \<Rightarrow> bool" where
  "schemes_ok ck d \<longleftrightarrow>
     ck raw_scheme \<noteq> ck legacy_scheme \<and> (\<forall>r \<in> set (accounts d). u_scheme r = raw_scheme \<or> u_scheme r = legacy_scheme)"

lemma upgrade_credential_rows:
  assumes "sodium_ok L" and ok: "schemes_ok ck d" and r: "u_scheme r = raw_scheme \<or> u_scheme r = legacy_scheme" and "accepts L r p"
    and "hash L salt p = Returns h"
  shows "upgraded_rows L p (accounts d)
    (accounts (snd (update_accounts (\<lambda>x. u_uid x = uid \<and> u_pwd x = u_pwd r \<and> ck (u_scheme x) = ck (u_scheme r))
      (\<lambda>x. x\<lparr>u_pwd := h, u_scheme := raw_scheme\<rparr>) d)))"
proof -
  have "accepts L x p" if "x \<in> set (accounts d)" "u_pwd x = u_pwd r" "ck (u_scheme x) = ck (u_scheme r)" for x
  proof -
    have "u_scheme x = u_scheme r"
      using ok r that by (auto simp: schemes_ok_def)
    then show ?thesis
      using assms(4) that(2) by (auto simp: accepts_def Let_def split: if_splits)
  qed
  then show ?thesis
    using accepts_upgraded [OF assms(1,5)]
    by (auto simp: upgraded_rows_def update_accounts_def list_all2_map2 intro!: list.rel_refl_strong)
qed

lemma wp_interference [wp_rules]:
  "Q () (c\<lparr>durable := other (durable c), working := other (working c)\<rparr>) \<Longrightarrow> wp (interference other) Q E c"
  by (simp add: wp_def interference_def)

text \<open>What holds after a check that may have seen the changes of \<open>other\<close>.\<close>

definition check_post ::
    "sodium \<Rightarrow> (string \<Rightarrow> string) \<Rightarrow> (account_db \<Rightarrow> account_db) \<Rightarrow> string \<Rightarrow> string \<Rightarrow> account_db \<Rightarrow> login_user option \<Rightarrow> account_db \<Rightarrow> bool" where
  "check_post L ck other email pwd d u d' \<longleftrightarrow>
     (\<forall>x. u = Some x \<longrightarrow> (\<exists>r \<in> set (accounts d). ck (u_email r) = ck email \<and> accepts L r pwd
        \<and> x = \<lparr>lu_name = u_name r, lu_email = email, lu_uid = u_uid r\<rparr>))
     \<and> (\<exists>b \<in> {d, other d}. upgraded_rows L pwd (accounts b) (accounts d') \<and> user_id d' = user_id b)"

lemma check_post_same [simp]: "check_post L ck other email pwd d None d"
  by (auto simp: check_post_def)

lemma accept_user_wp:
  assumes "sodium_ok L" and "schemes_ok ck (other d)" and "u_scheme r = raw_scheme \<or> u_scheme r = legacy_scheme"
    and "accepts L r pwd" and "r \<in> set (accounts d)" and "ck (u_email r) = ck email"
    and v: "verifyCredential L salt pwd (u_pwd r) (u_scheme r) = Returns v"
    and c: "autocommit c" "working c = d" "durable c = d"
  shows "wp (accept_user ck other email r v)
     (\<lambda>a c'. check_post L ck other email pwd d (fst a) (durable c'))
     (\<lambda>c'. check_post L ck other email pwd d None (durable c')) c"
proof (cases "upgrade_required v")
  case False
  then show ?thesis
    using assms(4-6) c unfolding accept_user_def ApplyPasswordUpgradeIfCurrent_def
    by (intro wp_then wp_interference wp_catch) (simp, auto intro!: wp_rules simp: check_post_def)
next
  case True
  have h: "hash L salt pwd = Returns (upgraded_hash v)"
    by (rule verifyCredential_upgrade [OF v True])
  note rows = upgrade_credential_rows [OF assms(1,2,3,4) h, of "u_uid r"]
  have same: "user_id (snd (update_accounts P f x)) = user_id x" for P f x
    by (simp add: update_accounts_def)
  have post: "check_post L ck other email pwd d u
      (snd (update_accounts (\<lambda>x. u_uid x = u_uid r \<and> u_pwd x = u_pwd r \<and> ck (u_scheme x) = ck (u_scheme r))
      (\<lambda>x. x\<lparr>u_pwd := upgraded_hash v, u_scheme := raw_scheme\<rparr>) (other d)))"
    if "u = None \<or> u = Some \<lparr>lu_name = u_name r, lu_email = email, lu_uid = u_uid r\<rparr>" for u
    using that rows same assms(4-6) by (auto simp: check_post_def)
  have kept: "check_post L ck other email pwd (working c) None (other (working c))"
    by (auto simp: check_post_def)
  have post': "check_post L ck other email pwd (working c) u w"
    if "update_accounts (\<lambda>x. u_uid x = u_uid r \<and> u_pwd x = u_pwd r \<and> ck (u_scheme x) = ck (u_scheme r))
      (\<lambda>x. x\<lparr>u_pwd := upgraded_hash v, u_scheme := raw_scheme\<rparr>) (other (working c)) = (a, w)"
      "u = None \<or> u = Some \<lparr>lu_name = u_name r, lu_email = email, lu_uid = u_uid r\<rparr>" for a w u
    using post [OF that(2)] that(1) unfolding c(2) by simp
  show ?thesis
    using True c unfolding accept_user_def ApplyPasswordUpgradeIfCurrent_def upgrade_credential_def
    by (intro wp_then wp_interference wp_catch)
      (simp, auto intro!: wp_rules wp_statement kept intro: post' simp: io_bind_assoc)
qed

lemma wp_return_iff: "wp (io_return a) Q E c = Q a c"
  by (simp add: wp_def io_simps)

lemma check_row_wp:
  assumes L: "sodium_ok L" and s: "schemes_ok ck d" "schemes_ok ck (other d)"
    and r: "filter (\<lambda>r. ck (u_email r) = ck email) (accounts d) = r # rs"
    and c: "autocommit c" "working c = d" "durable c = d"
  shows "wp (check_row L ck salt other email pwd r)
     (\<lambda>a c'. check_post L ck other email pwd d (fst a) (durable c'))
     (\<lambda>c'. check_post L ck other email pwd d None (durable c')) c"
proof -
  have m: "r \<in> set (accounts d)" "ck (u_email r) = ck email"
    using arg_cong [OF r, of set] by auto
  have sch: "u_scheme r = raw_scheme \<or> u_scheme r = legacy_scheme"
    using m(1) s(1) by (auto simp: schemes_ok_def)
  show ?thesis
  proof (cases "verifyCredential L salt pwd (u_pwd r) (u_scheme r)")
    case Throws
    then show ?thesis
      using c by (auto simp: check_row_def intro!: wp_rules)
  next
    case (Returns v)
    show ?thesis
    proof (cases "valid v")
      case True
      then have "accepts L r pwd"
        using verifyCredential_accepts [OF Returns] by simp
      from accept_user_wp [where ck = ck and other = other and d = d and email = email and c = c, OF L s(2) sch this m Returns c] show ?thesis
        using True Returns by (simp add: check_row_def)
    next
      case False
      then show ?thesis
        using c Returns by (auto simp: check_row_def intro!: wp_rules)
    qed
  qed
qed

lemma CheckPwd_result:
  assumes L: "sodium_ok L" and s: "schemes_ok ck d" "schemes_ok ck (other d)"
    and run: "CheckPwd L ck salt other e email pwd d = (res, d')"
  shows "check_post L ck other email pwd d (case res of Returns (u, un) \<Rightarrow> u | Throws \<Rightarrow> None) d'"
proof -
  let ?rows = "filter (\<lambda>r. ck (u_email r) = ck email) (accounts d)"
  have row: "wp (case ?rows of [] \<Rightarrow> io_return (None, False) | r # x \<Rightarrow> check_row L ck salt other email pwd r)
      (\<lambda>a c'. check_post L ck other email pwd d (fst a) (durable c'))
      (\<lambda>c'. check_post L ck other email pwd d None (durable c')) c"
    if c: "autocommit c" "working c = d" "durable c = d" for c
    using check_row_wp [where ck = ck and other = other and d = d and email = email and c = c, OF L s _ c] c by (auto split: list.split intro!: wp_rules)
  have "case res of Returns a \<Rightarrow> check_post L ck other email pwd d (fst a) d' | Throws \<Rightarrow> check_post L ck other email pwd d None d'"
    by (rule with_connection_cases [OF _ _ run [unfolded CheckPwd_def]], intro wp_bind wp_catch wp_select)
      (simp_all add: row wp_return_iff)
  then show ?thesis
    by (auto split: outcome.splits prod.splits)
qed

text \<open>
  C8: A password check admits a user only if the stored credential accepts the password. Whatever the
  other connections commit while it runs, and whatever fails, it changes no account but one whose present credential accepts
  the password, which then holds a fresh hash that accepts it too: a password that was reset meanwhile is
  never brought back.
\<close>

theorem password_upgrade_safe:
  assumes "sodium_ok L" and "schemes_ok ck d" and "schemes_ok ck (other d)"
    and "CheckPwd L ck salt other e email pwd d = (res, d')"
  shows "(\<forall>u un. res = Returns (Some u, un) \<longrightarrow>
            (\<exists>r \<in> set (accounts d). ck (u_email r) = ck email \<and> accepts L r pwd
               \<and> u = \<lparr>lu_name = u_name r, lu_email = email, lu_uid = u_uid r\<rparr>))
    \<and> (\<exists>b \<in> {d, other d}. user_id d' = user_id b
         \<and> list_all2 (\<lambda>r r'. r' = r \<or> (\<exists>h. r' = r\<lparr>u_pwd := h, u_scheme := raw_scheme\<rparr> \<and> accepts L r pwd \<and> accepts L r' pwd))
             (accounts b) (accounts d'))"
  using CheckPwd_result [where other = other and ck = ck and d = d, OF assms] by (auto simp: check_post_def upgraded_rows_def)

text \<open>A library whose hash is the password itself, for the example, and an account of the old client that is upgraded.\<close>

definition example_sodium :: sodium where
  "example_sodium = \<lparr>sodium_init = 0, crypto_pwhash_str = (\<lambda>salt p. if CHR 0x00 \<in> set p then None else Some (''$argon2id$'' @ p)),
     crypto_pwhash_str_verify = (\<lambda>h p. h = ''$argon2id$'' @ p), crypto_pwhash_str_needs_rehash = (\<lambda>h. False),
     crypto_hash_sha256 = (\<lambda>p. p)\<rparr>"

lemma example_sodium_ok: "sodium_ok example_sodium"
  by (auto simp: sodium_ok_def example_sodium_def isEncodedHash_def)

definition example_accounts :: account_db where
  "example_accounts = \<lparr>accounts = [(new_account 1001 ''ann'' ''a@b.c'' ''3031'' [])\<lparr>u_scheme := legacy_scheme\<rparr>], user_id = [1001]\<rparr>"

definition calm :: sql_env where
  "calm = \<lparr>available = True, sql_faults = [], sql_now = 0\<rparr>"

definition upgraded_accounts :: account_db where
  "upgraded_accounts = \<lparr>accounts = [new_account 1001 ''ann'' ''a@b.c'' ''$argon2id$01'' []], user_id = [1001]\<rparr>"

lemma example_check:
  "CheckPwd example_sodium (\<lambda>s. s) [] (\<lambda>d. d) calm ''a@b.c'' ''01'' example_accounts =
     (Returns (Some \<lparr>lu_name = ''ann'', lu_email = ''a@b.c'', lu_uid = 1001\<rparr>, False), upgraded_accounts)"
  by code_simp

theorem password_upgrade_safe_witness:
  "CheckPwd example_sodium (\<lambda>s. s) [] (\<lambda>d. d) calm ''a@b.c'' ''01'' example_accounts =
     (Returns (Some \<lparr>lu_name = ''ann'', lu_email = ''a@b.c'', lu_uid = 1001\<rparr>, False), upgraded_accounts)
   \<and> (\<exists>r \<in> set (accounts example_accounts). accepts example_sodium r ''01'' \<and> u_uid r = 1001)"
proof -
  have "schemes_ok (\<lambda>s. s) example_accounts"
    by (simp add: schemes_ok_def example_accounts_def)
  from password_upgrade_safe [where other = "\<lambda>d. d", OF example_sodium_ok this this example_check]
  show ?thesis
    using example_check by auto
qed

section \<open>Migration at start-up\<close>

definition migrated :: "sodium \<Rightarrow> user_row \<Rightarrow> user_row \<Rightarrow> bool" where
  "migrated L r r' \<longleftrightarrow>
     r' = r \<or> (\<not> isEncodedHash (u_pwd r) \<and> (\<exists>h. r' = r\<lparr>u_pwd := h\<rparr> \<and> isEncodedHash h \<and> (\<forall>p. accepts L r p \<longrightarrow> accepts L r' p)))"

lemma migrated_again:
  assumes "sodium_ok L" and "migrated L r x" and "\<not> isEncodedHash (u_pwd r)" and "hash L salt (u_pwd r) = Returns h"
  shows "migrated L r (x\<lparr>u_pwd := h\<rparr>)"
proof -
  have "x\<lparr>u_pwd := h\<rparr> = r\<lparr>u_pwd := h\<rparr>"
    using assms(2) by (auto simp: migrated_def)
  moreover have "accepts L (r\<lparr>u_pwd := h\<rparr>) p" if "accepts L r p" for p
    using that assms(3) hash_accepted [OF assms(1,4)] by (auto simp: accepts_def Let_def split: if_splits)
  ultimately show ?thesis
    using assms(3) hash_accepted [OF assms(1,4)] by (auto simp: migrated_def)
qed

lemma migrate_loop_wp:
  assumes L: "sodium_ok L" and u: "distinct (map u_uid rows)"
    and ps: "\<forall>(uid, p) \<in> set ps. \<exists>r \<in> set rows. u_uid r = uid \<and> u_pwd r = p \<and> \<not> isEncodedHash p"
    and c: "autocommit c" "working c = durable c" "list_all2 (migrated L) rows (accounts (durable c))"
  shows "wp (migrate_loop L ck salt ps)
     (\<lambda>_ c'. list_all2 (migrated L) rows (accounts (durable c')) \<and> user_id (durable c') = user_id (durable c))
     (\<lambda>c'. list_all2 (migrated L) rows (accounts (durable c')) \<and> user_id (durable c') = user_id (durable c)) c"
  using ps c
proof (induction ps arbitrary: c)
  case Nil
  then show ?case
    by (auto intro!: wp_rules)
next
  case (Cons q ps)
  obtain uid p where q: "q = (uid, p)"
    by fastforce
  obtain r where r: "r \<in> set rows" "u_uid r = uid" "u_pwd r = p" "\<not> isEncodedHash p"
    using Cons.prems(1) q by auto
  show ?case
  proof (cases "p = []")
    case True
    then show ?thesis
      using Cons q by simp
  next
    case False
    show ?thesis
    proof (cases "hash L (salt uid) p")
      case Throws
      then show ?thesis
        using Cons.prems q False by (auto intro!: wp_rules)
    next
      case (Returns h)
      let ?upd = "update_accounts (\<lambda>r. u_uid r = uid \<and> ck (u_pwd r) = ck p) (\<lambda>r. r\<lparr>u_pwd := h\<rparr>)"
      have step: "list_all2 (migrated L) rows (accounts (snd (?upd (durable c))))"
      proof -
        have "migrated L x (y\<lparr>u_pwd := h\<rparr>)" if "x \<in> set rows" "migrated L x y" "u_uid y = uid" for x y
        proof -
          have "u_uid x = uid"
            using that by (auto simp: migrated_def)
          then have "x = r"
            using u r that(1) by (metis distinct_map inj_onD)
          then show ?thesis
            using migrated_again [OF L] that(2) r Returns by simp
        qed
        then have "list_all2 (\<lambda>x y. migrated L x (if u_uid y = uid \<and> ck (u_pwd y) = ck p then y\<lparr>u_pwd := h\<rparr> else y)) rows (accounts (durable c))"
          using Cons.prems(4) by (auto intro!: list.rel_mono_strong [OF Cons.prems(4)])
        then show ?thesis
          by (simp add: update_accounts_def list_all2_map2)
      qed
      have ids: "user_id (snd (?upd (durable c))) = user_id (durable c)"
        by (simp add: update_accounts_def)
      note IH = Cons.IH
      have rest: "wp (migrate_loop L ck salt ps)
          (\<lambda>_ c'. list_all2 (migrated L) rows (accounts (durable c')) \<and> user_id (durable c') = user_id (durable c))
          (\<lambda>c'. list_all2 (migrated L) rows (accounts (durable c')) \<and> user_id (durable c') = user_id (durable c))
          (c\<lparr>faults := fs, working := w, durable := w\<rparr>)" if "?upd (durable c) = (a, w)" for a w fs
        using IH [of "c\<lparr>faults := fs, working := w, durable := w\<rparr>"] Cons.prems step ids that by auto
      show ?thesis
        using Cons.prems step ids q False Returns
        by (auto intro!: wp_then wp_statement rest)
    qed
  qed
qed

text \<open>The migration loses no password: what an account accepted it accepts afterwards, and only unhashed passwords are replaced.\<close>

lemma migration_keeps_passwords:
  assumes "sodium_ok L" and "distinct (map u_uid (accounts d))"
    and "MigrateLegacyPasswords L ck salt e d = (res, d')"
  shows "res = Returns () \<and> list_all2 (migrated L) (accounts d) (accounts d') \<and> user_id d' = user_id d"
proof -
  let ?P = "\<lambda>x. list_all2 (migrated L) (accounts d) (accounts x) \<and> user_id x = user_id d"
  have same: "?P d"
    by (simp add: migrated_def list.rel_refl)
  have loop: "wp (migrate_loop L ck salt (map (\<lambda>r. (u_uid r, u_pwd r)) (filter (\<lambda>r. \<not> isEncodedHash (u_pwd r)) (accounts d))))
      (\<lambda>_ c'. ?P (durable c')) (wp (io_return ()) (\<lambda>_ c'. ?P (durable c')) (\<lambda>_. False)) c"
    if "autocommit c" "working c = d" "durable c = d" for c
    by (rule wp_mono [OF migrate_loop_wp [OF assms(1,2)]]) (use that same in \<open>auto simp: wp_return_iff\<close>)
  have "wp (io_catch
         (io_bind (select (\<lambda>d. map (\<lambda>r. (u_uid r, u_pwd r)) (filter (\<lambda>r. \<not> isEncodedHash (u_pwd r)) (accounts d))))
            (migrate_loop L ck salt))
         (io_return ())) (\<lambda>_ c'. ?P (durable c')) (\<lambda>_. False) (fresh_conn d (sql_faults e))"
    apply (intro wp_catch wp_bind wp_select)
    subgoal using same by (simp add: wp_return_iff)
    subgoal using same by (simp add: wp_return_iff)
    subgoal by (simp only: fresh_conn_simps conn.simps if_True) (rule loop, simp_all)
    done
  from with_connection_cases [OF this same assms(3) [unfolded MigrateLegacyPasswords_def]]
  have "case res of Returns a \<Rightarrow> ?P d' | Throws \<Rightarrow> False"
    by simp
  then show ?thesis
    by (auto split: outcome.splits)
qed

section \<open>Registration\<close>

text \<open>The keys of the table, and the counter above every identifier in use.\<close>

definition accounts_ok :: "(string \<Rightarrow> string) \<Rightarrow> account_db \<Rightarrow> bool" where
  "accounts_ok ck d \<longleftrightarrow>
     distinct (map u_uid (accounts d)) \<and> distinct (map (\<lambda>r. ck (u_name r)) (accounts d))
     \<and> distinct (map (\<lambda>r. ck (u_email r)) (accounts d))
     \<and> (\<exists>i. user_id d = [i] \<and> 0 \<le> i \<and> (\<forall>r \<in> set (accounts d). u_uid r \<le> i))"

definition registered :: "int \<Rightarrow> string \<Rightarrow> string \<Rightarrow> string \<Rightarrow> string \<Rightarrow> account_db \<Rightarrow> account_db" where
  "registered uid name email h icon d =
     d\<lparr>accounts := accounts d @ [new_account uid name email h icon], user_id := [uid]\<rparr>"

lemma registered_ok:
  assumes "accounts_ok ck d" and "user_id d = [i]"
    and "\<forall>r \<in> set (accounts d). ck (u_email r) \<noteq> ck email" and "\<forall>r \<in> set (accounts d). ck (u_name r) \<noteq> ck name"
  shows "accounts_ok ck (registered (i + 1) name email h icon d)"
  using assms by (force simp: accounts_ok_def registered_def new_account_def)

lemma insert_account_Some:
  assumes "insert_account ck too_long r d = Some (n, d')"
  shows "d' = d\<lparr>accounts := accounts d @ [r]\<rparr> \<and> (\<forall>x \<in> set (accounts d). u_uid x \<noteq> u_uid r
    \<and> ck (u_name x) \<noteq> ck (u_name r) \<and> ck (u_email x) \<noteq> ck (u_email r))"
  using assms by (auto simp: insert_account_def list_ex_iff split: if_splits)

definition register_post :: "(string \<Rightarrow> string) \<Rightarrow> string \<Rightarrow> string \<Rightarrow> string \<Rightarrow> string \<Rightarrow> account_db \<Rightarrow> int option \<Rightarrow> account_db \<Rightarrow> bool" where
  "register_post ck name email h icon d n d' \<longleftrightarrow>
     (\<exists>i. user_id d = [i] \<and> (\<forall>m. n = Some m \<longrightarrow> m = 0 \<or> m = -1 \<or> m = i + 1)
        \<and> (n = Some (i + 1) \<longrightarrow> d' \<noteq> d)
        \<and> (d' = d \<or> (d' = registered (i + 1) name email h icon d
             \<and> (\<forall>r \<in> set (accounts d). ck (u_email r) \<noteq> ck email \<and> ck (u_name r) \<noteq> ck name))))"

lemma register_body_wp:
  assumes "accounts_ok ck d" and "autocommit c" "working c = d" "durable c = d"
  shows "wp (register_body ck too_long name email h icon)
     (\<lambda>n c'. register_post ck name email h icon d (Some n) (durable c'))
     (wp (io_then rollback (io_return (-1))) (\<lambda>n c'. register_post ck name email h icon d (Some n) (durable c'))
        (\<lambda>c'. register_post ck name email h icon d None (durable c'))) c"
proof -
  obtain i where i: "user_id d = [i]" "0 \<le> i"
    using assms(1) by (auto simp: accounts_ok_def)
  have no: "register_post ck name email h icon d (Some 0) d" "register_post ck name email h icon d (Some (-1)) d"
      "register_post ck name email h icon d None d"
    using i by (auto simp: register_post_def)
  have id: "d1 = d\<lparr>user_id := [i + 1]\<rparr>" if "next_user_id d = Some (n, d1)" for n d1
    using that i by (auto simp: next_user_id_def split: if_splits)
  have ins: "w = registered (i + 1) name email h icon d \<and> w \<noteq> d
        \<and> (\<forall>r \<in> set (accounts d). ck (u_email r) \<noteq> ck email \<and> ck (u_name r) \<noteq> ck name)"
    if "insert_account ck too_long (new_account (i + 1) name email h icon) (d\<lparr>user_id := [i + 1]\<rparr>) = Some (n, w)" for n w
    using insert_account_Some [OF that] by (auto simp: registered_def new_account_def dest: arg_cong [where f = accounts])
  have yes: "register_post ck name email h icon (working c) n w"
    if "next_user_id (working c) = Some (a, d1)" "user_id d1 = x # xs"
      "insert_account ck too_long (new_account x name email h icon) d1 = Some (k, w)"
      "n = Some x \<or> n = Some (-1) \<or> n = None" for a d1 x xs k n w
  proof -
    have "d1 = d\<lparr>user_id := [i + 1]\<rparr>"
      using id that(1) assms(3) by simp
    then show ?thesis
      using ins [of k w] that(2-4) i assms(3) by (auto simp: register_post_def)
  qed
  show ?thesis
    using assms(2-4) no i
    unfolding register_body_def
    by (auto intro!: wp_rules wp_statement split: list.split) (erule (2) yes, simp)+
qed

lemma RegUserTransaction_result:
  assumes "accounts_ok ck d" and "RegUserTransaction L ck too_long salt e name email pwd icon d = (res, d')"
  shows "d' = d \<and> (\<forall>n. res = Returns n \<longrightarrow> n = 0 \<or> n = -1)
    \<or> (\<exists>h. hash L salt pwd = Returns h
         \<and> register_post ck name email h icon d (case res of Returns n \<Rightarrow> Some n | Throws \<Rightarrow> None) d')"
proof (cases "hash L salt pwd")
  case Throws
  then show ?thesis
    using assms(2) by (auto simp: RegUserTransaction_def with_connection_def io_simps split: if_splits prod.splits)
next
  case (Returns h)
  have none: "register_post ck name email h icon d (Some 0) d"
    using assms(1) by (auto simp: register_post_def accounts_ok_def)
  have body: "wp (io_catch (register_body ck too_long name email h icon) (io_then rollback (io_return (-1))))
      (\<lambda>n c'. register_post ck name email h icon d (Some n) (durable c'))
      (\<lambda>c'. register_post ck name email h icon d None (durable c')) (fresh_conn d (sql_faults e))"
    by (rule wp_catch, rule register_body_wp [OF assms(1)]) simp_all
  have "case res of Returns n \<Rightarrow> register_post ck name email h icon d (Some n) d' | Throws \<Rightarrow> register_post ck name email h icon d None d'"
    by (rule with_connection_cases [OF body none]) (use assms(2) Returns in \<open>simp add: RegUserTransaction_def\<close>)
  then show ?thesis
    using Returns by (auto split: outcome.splits)
qed

lemma registration_result:
  assumes "sodium_ok L" and "accounts_ok ck d"
    and "RegUserTransaction L ck too_long salt e name email pwd icon d = (res, d')"
  shows "accounts_ok ck d'
    \<and> (d' = d \<or> (\<exists>uid h. d' = registered uid name email h icon d \<and> accepts L (new_account uid name email h icon) pwd
         \<and> (\<forall>r \<in> set (accounts d). u_uid r < uid \<and> ck (u_name r) \<noteq> ck name \<and> ck (u_email r) \<noteq> ck email)))
    \<and> (\<forall>n > 0. res = Returns n \<longrightarrow> (\<exists>h. d' = registered n name email h icon d))"
proof -
  obtain i where i: "user_id d = [i]" "0 \<le> i" "\<forall>r \<in> set (accounts d). u_uid r \<le> i"
    using assms(2) by (auto simp: accounts_ok_def)
  from RegUserTransaction_result [OF assms(2,3)] show ?thesis
  proof (elim disjE exE conjE)
    assume "d' = d" "\<forall>n. res = Returns n \<longrightarrow> n = 0 \<or> n = -1"
    then show ?thesis
      using assms(2) by auto
  next
    fix h
    assume h: "hash L salt pwd = Returns h"
      and p: "register_post ck name email h icon d (case res of Returns n \<Rightarrow> Some n | Throws \<Rightarrow> None) d'"
    have acc: "accepts L (new_account (i + 1) name email h icon) pwd"
      using accepts_upgraded [OF assms(1) h, of "new_account (i + 1) name email h icon"] by (simp add: new_account_def)
    have pos: "n = i + 1" "d' \<noteq> d" if "res = Returns n" "0 < n" for n
      using p that i by (auto simp: register_post_def)
    show ?thesis
    proof (cases "d' = d")
      case True
      then show ?thesis
        using assms(2) pos by blast
    next
      case False
      then have d': "d' = registered (i + 1) name email h icon d"
          "\<forall>r \<in> set (accounts d). ck (u_email r) \<noteq> ck email \<and> ck (u_name r) \<noteq> ck name"
        using p i by (auto simp: register_post_def)
      then have "accounts_ok ck d'"
        using registered_ok [OF assms(2) i(1)] by blast
      then show ?thesis
        using d' acc i(3) pos(1) by (intro conjI disjI2 exI [of _ "i + 1"] exI [of _ h]) force+
    qed
  qed
qed

text \<open>
  C11: Registration is atomic and keeps the keys of the table: whatever fails, either nothing changes or exactly
  one account is added, with a new identifier, a name and an address no other account has and a hash that
  accepts the password; a positive answer is the identifier of that account.
\<close>

theorem registration_atomic:
  assumes "sodium_ok L" and "accounts_ok ck d"
    and "RegUserTransaction L ck too_long salt e name email pwd icon d = (res, d')"
  shows "accounts_ok ck d'
    \<and> (d' = d \<or> (\<exists>uid h. d' = registered uid name email h icon d \<and> accepts L (new_account uid name email h icon) pwd
         \<and> (\<forall>r \<in> set (accounts d). u_uid r < uid \<and> ck (u_name r) \<noteq> ck name \<and> ck (u_email r) \<noteq> ck email)))
    \<and> (\<forall>n > 0. res = Returns n \<longrightarrow> (\<exists>h. d' = registered n name email h icon d))"
  using assms by (rule registration_result)

lemma example_registration:
  "RegUserTransaction example_sodium (\<lambda>s. s) (\<lambda>n s. length s > n) [] calm ''bob'' ''b@b.c'' ''02'' [] example_accounts =
     (Returns 1002, registered 1002 ''bob'' ''b@b.c'' ''$argon2id$02'' [] example_accounts)"
  by code_simp

theorem registration_atomic_witness:
  "\<exists>h. RegUserTransaction example_sodium (\<lambda>s. s) (\<lambda>n s. length s > n) [] calm ''bob'' ''b@b.c'' ''02'' [] example_accounts =
     (Returns 1002, registered 1002 ''bob'' ''b@b.c'' h [] example_accounts)
     \<and> accounts_ok (\<lambda>s. s) (registered 1002 ''bob'' ''b@b.c'' h [] example_accounts)"
proof -
  have "accounts_ok (\<lambda>s. s) example_accounts"
    by (simp add: accounts_ok_def example_accounts_def new_account_def)
  from registration_atomic [OF example_sodium_ok this example_registration] show ?thesis
    using example_registration by blast
qed

section \<open>Resetting a password\<close>

lemma CheckEmail_result:
  assumes "CheckEmail ck e name email d = (res, d')"
  shows "d' = d \<and> (res = Returns True \<longrightarrow>
    (\<exists>r rs. filter (\<lambda>r. ck (u_name r) = ck name) (accounts d) = r # rs \<and> u_email r = email))"
proof -
  let ?Q = "\<lambda>ok d'. d' = d \<and> (ok \<longrightarrow> (\<exists>r rs. filter (\<lambda>r. ck (u_name r) = ck name) (accounts d) = r # rs \<and> u_email r = email))"
  have "case res of Returns ok \<Rightarrow> ?Q ok d' | Throws \<Rightarrow> d' = d"
    by (rule with_connection_cases [OF _ _ assms [unfolded CheckEmail_def], where Q = ?Q])
      (auto intro!: wp_rules split: list.splits)
  then show ?thesis
    by (auto split: outcome.splits)
qed

lemma UpdatePwd_result:
  assumes "UpdatePwd L ck salt e name newpwd d = (res, d')"
  shows "d' = d \<and> res \<noteq> Returns True \<or> (\<exists>h. hash L salt newpwd = Returns h
    \<and> d' = snd (update_accounts (\<lambda>r. ck (u_name r) = ck name) (\<lambda>r. r\<lparr>u_pwd := h, u_scheme := raw_scheme\<rparr>) d))"
proof (cases "hash L salt newpwd")
  case Throws
  then show ?thesis
    using assms by (auto simp: UpdatePwd_def with_connection_def io_simps split: if_splits prod.splits)
next
  case (Returns h)
  let ?new = "snd (update_accounts (\<lambda>r. ck (u_name r) = ck name) (\<lambda>r. r\<lparr>u_pwd := h, u_scheme := raw_scheme\<rparr>) d)"
  let ?Q = "\<lambda>ok d'. d' = d \<and> \<not> ok \<or> d' = ?new"
  have "case res of Returns ok \<Rightarrow> ?Q ok d' | Throws \<Rightarrow> False"
    by (rule with_connection_cases [OF _ _ assms [unfolded UpdatePwd_def Returns outcome.case], where Q = ?Q])
      (auto intro!: wp_rules wp_statement dest: arg_cong [where f = snd])
  then show ?thesis
    using Returns by (auto split: outcome.splits)
qed

text \<open>
  The chat server's copies of these methods differ: its \<^verbatim>\<open>CheckEmail\<close> confirms the address of a
  name that does not exist, and its \<^verbatim>\<open>UpdatePwd\<close> keeps the scheme, so an account of the old client
  does not accept the password it was just given.
\<close>

lemma chat_CheckEmail_unknown:
  assumes "available e" and "sql_faults e = []" and "\<forall>r \<in> set (accounts d). ck (u_name r) \<noteq> ck name"
  shows "fst (chat_CheckEmail ck e name email d) = Returns True" "fst (CheckEmail ck e name email d) = Returns False"
  using assms
  by (simp_all add: chat_CheckEmail_def CheckEmail_def with_connection_def io_simps clean_simps filter_False split: prod.split)

lemma chat_UpdatePwd_locks_out:
  "\<exists>d'. chat_UpdatePwd example_sodium (\<lambda>s. s) [] calm ''ann'' ''new password'' example_accounts = (Returns True, d')
     \<and> fst (CheckPwd example_sodium (\<lambda>s. s) [] (\<lambda>d. d) calm ''a@b.c'' ''new password'' d') = Returns (None, False)"
proof -
  have "fst (chat_UpdatePwd example_sodium (\<lambda>s. s) [] calm ''ann'' ''new password'' example_accounts) = Returns True"
    "fst (CheckPwd example_sodium (\<lambda>s. s) [] (\<lambda>d. d) calm ''a@b.c'' ''new password''
       (snd (chat_UpdatePwd example_sodium (\<lambda>s. s) [] calm ''ann'' ''new password'' example_accounts))) = Returns (None, False)"
    by code_simp+
  then show ?thesis
    by (metis prod.collapse)
qed

end
