(* ===== verification/Url_Codec.thy ===== *)
theory Url_Codec
  imports Prelude
begin

text \<open>
  The URL handling of the gate server: \<^verbatim>\<open>FromHex\<close>, \<^verbatim>\<open>ToHex\<close>, \<^verbatim>\<open>UrlEncode\<close> and \<^verbatim>\<open>UrlDecode\<close> of
  \<^verbatim>\<open>servers/gate/network/HttpConnection.h\<close> and \<^verbatim>\<open>PreParseGetParam\<close> of \<^verbatim>\<open>HttpConnection.cpp\<close>. A function that answers
  \<^verbatim>\<open>false\<close> is \<open>None\<close> here; the map of parameters is a function.
\<close>

definition char_code :: "char \<Rightarrow> nat" where
  "char_code c = of_char c"

definition FromHex :: "char \<Rightarrow> nat option" where
  "FromHex x =
     (let x = char_code x in
      if 65 \<le> x \<and> x \<le> 70 then Some (x - 65 + 10)
      else if 97 \<le> x \<and> x \<le> 102 then Some (x - 97 + 10)
      else if 48 \<le> x \<and> x \<le> 57 then Some (x - 48)
      else None)"

definition ToHex :: "nat \<Rightarrow> char" where
  "ToHex x = char_of (if x > 9 then x + 55 else x + 48)"

definition is_alnum :: "char \<Rightarrow> bool" where
  "is_alnum c \<longleftrightarrow> (let x = char_code c in 48 \<le> x \<and> x \<le> 57 \<or> 65 \<le> x \<and> x \<le> 90 \<or> 97 \<le> x \<and> x \<le> 122)"

definition plain_char :: "char \<Rightarrow> bool" where
  "plain_char c \<longleftrightarrow> is_alnum c \<or> c = CHR ''-'' \<or> c = CHR ''_'' \<or> c = CHR ''.'' \<or> c = CHR ''~''"

definition encode_char :: "char \<Rightarrow> string" where
  "encode_char c =
     (if plain_char c then [c]
      else if c = CHR '' '' then ''+''
      else [CHR ''%'', ToHex (char_code c div 16), ToHex (char_code c mod 16)])"

definition UrlEncode :: "string \<Rightarrow> string" where
  "UrlEncode str = concat (map encode_char str)"

fun UrlDecode :: "string \<Rightarrow> string option" where
  "UrlDecode [] = Some []"
| "UrlDecode (c # rest) =
     (if c = CHR ''+'' then map_option (Cons (CHR '' '')) (UrlDecode rest)
      else if c = CHR ''%'' then
        (case rest of
           a # b # rest' \<Rightarrow>
             (case (FromHex a, FromHex b) of
                (Some high, Some low) \<Rightarrow> map_option (Cons (char_of (high * 16 + low))) (UrlDecode rest')
              | _ \<Rightarrow> None)
         | _ \<Rightarrow> None)
      else map_option (Cons c) (UrlDecode rest))"

text \<open>Cutting at the first occurrence of a character, \<^verbatim>\<open>find\<close> and \<^verbatim>\<open>substr\<close>.\<close>

definition cut :: "char \<Rightarrow> string \<Rightarrow> (string \<times> string) option" where
  "cut c s = (if c \<in> set s then Some (takeWhile (\<lambda>x. x \<noteq> c) s, tl (dropWhile (\<lambda>x. x \<noteq> c) s)) else None)"

definition store_pair :: "string \<Rightarrow> (string \<Rightarrow> string option) \<Rightarrow> (string \<Rightarrow> string option) option" where
  "store_pair pair params =
     (case cut (CHR ''='') pair of
        None \<Rightarrow> Some params
      | Some (k, v) \<Rightarrow>
          (case (UrlDecode k, UrlDecode v) of
             (Some key, Some v') \<Rightarrow> Some (params(key \<mapsto> v'))
           | _ \<Rightarrow> None))"

lemma cut_length: "cut c s = Some (a, b) \<Longrightarrow> length b < length s"
proof -
  assume "cut c s = Some (a, b)"
  then have "b = tl (dropWhile (\<lambda>x. x \<noteq> c) s)" "s \<noteq> []"
    by (auto simp: cut_def split: if_splits)
  then show ?thesis
    using length_dropWhile_le [of "\<lambda>x. x \<noteq> c" s] by (cases "dropWhile (\<lambda>x. x \<noteq> c) s") auto
qed

function query_loop :: "string \<Rightarrow> (string \<Rightarrow> string option) \<Rightarrow> (string \<Rightarrow> string option) option" where
  "query_loop query params =
     (case cut (CHR ''&'') query of
        Some (pair, rest) \<Rightarrow> Option.bind (store_pair pair params) (query_loop rest)
      | None \<Rightarrow> if query \<noteq> [] then store_pair query params else Some params)"
  by pat_completeness auto
termination
  by (relation "measure (\<lambda>(q, _). length q)") (auto dest: cut_length)

declare query_loop.simps [simp del]

definition PreParseGetParam :: "string \<Rightarrow> (string \<times> (string \<Rightarrow> string option)) option" where
  "PreParseGetParam uri =
     (case cut (CHR ''?'') uri of
        None \<Rightarrow> Some (uri, Map.empty)
      | Some (url, query) \<Rightarrow> map_option (\<lambda>params. (url, params)) (query_loop query Map.empty))"

section \<open>Round trips\<close>

lemma char_code_less: "char_code c < 256"
  by (simp add: char_code_def)

lemma FromHex_ToHex [simp]: "x < 16 \<Longrightarrow> FromHex (ToHex x) = Some x"
  by (auto simp: FromHex_def ToHex_def char_code_def Let_def of_char_of take_bit_eq_mod)

lemma UrlDecode_encode_char: "UrlDecode (encode_char c @ rest) = map_option (Cons c) (UrlDecode rest)"
proof (cases "plain_char c")
  case True
  moreover from True have "c \<noteq> CHR ''+''" "c \<noteq> CHR ''%''"
    by (auto simp: plain_char_def is_alnum_def char_code_def)
  ultimately show ?thesis
    by (simp add: encode_char_def)
next
  case False
  have "char_code c div 16 < 16" "char_code c mod 16 < 16"
    using char_code_less [of c] by auto
  moreover have "char_of (char_code c div 16 * 16 + char_code c mod 16) = c"
    unfolding div_mult_mod_eq by (simp add: char_code_def)
  ultimately show ?thesis
    using False by (simp add: encode_char_def)
qed

lemma UrlDecode_UrlEncode [simp]: "UrlDecode (UrlEncode s) = Some s"
  unfolding UrlEncode_def by (induction s) (simp_all add: UrlDecode_encode_char)

text \<open>The characters that structure a query do not occur in encoded text.\<close>

lemma ToHex_plain: "x < 16 \<Longrightarrow> ToHex x \<notin> {CHR ''&'', CHR ''='', CHR ''?''}"
  by (auto simp: ToHex_def char_of_eq_iff take_bit_eq_mod split: if_splits)

lemma UrlEncode_safe: "c \<in> set (UrlEncode s) \<Longrightarrow> c \<notin> {CHR ''&'', CHR ''='', CHR ''?''}"
proof -
  have "set (encode_char x) \<inter> {CHR ''&'', CHR ''='', CHR ''?''} = {}" for x
  proof (cases "plain_char x")
    case True
    then show ?thesis
      by (auto simp: encode_char_def plain_char_def is_alnum_def char_code_def)
  next
    case False
    have "char_code x div 16 < 16" "char_code x mod 16 < 16"
      using char_code_less [of x] by auto
    note ToHex_plain [OF this(1)] ToHex_plain [OF this(2)]
    then show ?thesis
      using False by (simp add: encode_char_def disjoint_insert eq_commute)
  qed
  then show "c \<in> set (UrlEncode s) \<Longrightarrow> c \<notin> {CHR ''&'', CHR ''='', CHR ''?''}"
    by (auto simp: UrlEncode_def)
qed

lemma cut_append: "c \<notin> set a \<Longrightarrow> cut c (a @ c # b) = Some (a, b)"
  by (induction a) (auto simp: cut_def split: if_splits)

lemma cut_none: "c \<notin> set a \<Longrightarrow> cut c a = None"
  by (simp add: cut_def)

definition encode_pair :: "string \<times> string \<Rightarrow> string" where
  "encode_pair p = UrlEncode (fst p) @ CHR ''='' # UrlEncode (snd p)"

fun encode_query :: "(string \<times> string) list \<Rightarrow> string" where
  "encode_query [] = []"
| "encode_query [p] = encode_pair p"
| "encode_query (p # ps) = encode_pair p @ CHR ''&'' # encode_query ps"

lemma store_encoded [simp]: "store_pair (encode_pair p) params = Some (params(fst p \<mapsto> snd p))"
proof -
  have "cut (CHR ''='') (encode_pair p) = Some (UrlEncode (fst p), UrlEncode (snd p))"
    unfolding encode_pair_def by (rule cut_append) (use UrlEncode_safe in blast)
  then show ?thesis
    by (simp add: store_pair_def)
qed

lemma encode_pair_safe: "CHR ''&'' \<notin> set (encode_pair p)" "encode_pair p \<noteq> []"
  using UrlEncode_safe by (auto simp: encode_pair_def)

lemma query_loop_encoded: "query_loop (encode_query ps) params = Some (params ++ map_of (rev ps))"
proof (induction ps arbitrary: params rule: encode_query.induct)
  case 1
  then show ?case
    by (simp add: query_loop.simps cut_def)
next
  case (2 p)
  then show ?case
    by (simp add: query_loop.simps cut_none encode_pair_safe) (simp add: map_add_def fun_eq_iff)
next
  case (3 p q ps)
  have "query_loop (encode_query (p # q # ps)) params = query_loop (encode_query (q # ps)) (params(fst p \<mapsto> snd p))"
    by (simp add: query_loop.simps [of "encode_pair p @ _"] cut_append encode_pair_safe)
  also have "\<dots> = Some (params(fst p \<mapsto> snd p) ++ map_of (rev (q # ps)))"
    by (rule 3)
  finally show ?case
    by (cases p) (simp add: map_of_append)
qed

text \<open>
  C34: Every text survives URL encoding and decoding, and the parameters of a GET request are recovered
  exactly: for any list of keys and values, whatever characters they contain, the encoded query is
  parsed back to the path and the parameters, a later value of a repeated key replacing an earlier one.
\<close>

theorem query_roundtrip:
  assumes "CHR ''?'' \<notin> set path"
  shows "UrlDecode (UrlEncode s) = Some s
    \<and> PreParseGetParam (path @ CHR ''?'' # encode_query ps) = Some (path, map_of (rev ps))"
  using assms by (simp add: PreParseGetParam_def cut_append query_loop_encoded)

theorem query_roundtrip_witness:
  "PreParseGetParam (''/get_test'' @ CHR ''?'' # encode_query [(''a b'', ''1&2''), (''c'', ''='')])
     = Some (''/get_test'', map_of (rev [(''a b'', ''1&2''), (''c'', ''='')]))"
  using query_roundtrip [of "''/get_test''" "[]" "[(''a b'', ''1&2''), (''c'', ''='')]"] by simp

end
