(* ===== verification/Password_Rule.thy ===== *)
theory Password_Rule
  imports Url_Codec
begin

text \<open>
  The rule for new passwords, \<^verbatim>\<open>validNewPassword\<close> of \<^verbatim>\<open>servers/gate/service/LogicSystem.cpp\<close>, a hand-written UTF-8 decoder,
  and its equivalence with the definition of UTF-8: a password is valid if it is the encoding of 10 to
  128 code points, none of them white space. The 21 bits of a code point never overflow the 32 bits of
  \<^verbatim>\<open>value\<close>, which is a natural number here.
\<close>

unbundle bit_operations_syntax

section \<open>The decoder\<close>

definition lead_byte :: "nat \<Rightarrow> (nat \<times> nat) option" where
  "lead_byte lead =
     (if lead \<le> 0x7f then Some (lead, 1)
      else if 0xc2 \<le> lead \<and> lead \<le> 0xdf then Some (lead AND 0x1f, 2)
      else if 0xe0 \<le> lead \<and> lead \<le> 0xef then Some (lead AND 0x0f, 3)
      else if 0xf0 \<le> lead \<and> lead \<le> 0xf4 then Some (lead AND 0x07, 4)
      else None)"

fun continuation :: "nat \<Rightarrow> nat list \<Rightarrow> nat option" where
  "continuation val [] = Some val"
| "continuation val (byte # bytes) =
     (if byte AND 0xc0 \<noteq> 0x80 then None else continuation (push_bit 6 val OR (byte AND 0x3f)) bytes)"

definition malformed :: "nat \<Rightarrow> nat \<Rightarrow> bool" where
  "malformed width val \<longleftrightarrow>
     width = 2 \<and> val < 0x80 \<or> width = 3 \<and> val < 0x800 \<or> width = 4 \<and> val < 0x10000 \<or> val > 0x10ffff
     \<or> 0xd800 \<le> val \<and> val \<le> 0xdfff"

definition whitespace :: "nat \<Rightarrow> bool" where
  "whitespace val \<longleftrightarrow>
     0x09 \<le> val \<and> val \<le> 0x0d \<or> val = 0x20 \<or> val = 0x85 \<or> val = 0xa0 \<or> val = 0x1680
     \<or> 0x2000 \<le> val \<and> val \<le> 0x200a \<or> val = 0x2028 \<or> val = 0x2029 \<or> val = 0x202f \<or> val = 0x205f \<or> val = 0x3000"

definition decode_step :: "nat list \<Rightarrow> (nat \<times> nat) option" where
  "decode_step bytes =
     (case lead_byte (hd bytes) of
        None \<Rightarrow> None
      | Some (val, width) \<Rightarrow>
          if width > length bytes then None
          else case continuation val (take (width - 1) (tl bytes)) of
            None \<Rightarrow> None
          | Some val \<Rightarrow> if malformed width val then None else Some (val, width))"

lemma lead_width: "lead_byte b = Some (v, w) \<Longrightarrow> 0 < w"
  by (auto simp: lead_byte_def split: if_splits)

lemma decode_width: "decode_step bs = Some (v, w) \<Longrightarrow> 0 < w"
  by (auto simp: decode_step_def dest: lead_width split: option.splits if_splits)

function password_loop :: "nat \<Rightarrow> nat list \<Rightarrow> bool" where
  "password_loop code_points bytes =
     (if bytes = [] then code_points \<ge> 10
      else case decode_step bytes of
        None \<Rightarrow> False
      | Some (val, width) \<Rightarrow>
          if whitespace val \<or> code_points + 1 > 128 then False
          else password_loop (code_points + 1) (drop width bytes))"
  by pat_completeness auto
termination
  by (relation "measure (\<lambda>(_, bytes). length bytes)") (auto dest: decode_width)

declare password_loop.simps [simp del]

definition validNewPassword :: "string \<Rightarrow> bool" where
  "validNewPassword password =
     (if password = [] \<or> length password > 128 * 4 then False else password_loop 0 (map char_code password))"

section \<open>UTF-8\<close>

definition scalar :: "nat \<Rightarrow> bool" where
  "scalar v \<longleftrightarrow> v \<le> 0x10ffff \<and> \<not> (0xd800 \<le> v \<and> v \<le> 0xdfff)"

definition utf8 :: "nat \<Rightarrow> nat list" where
  "utf8 v =
     (if v < 0x80 then [v]
      else if v < 0x800 then [0xc0 + v div 64, 0x80 + v mod 64]
      else if v < 0x10000 then [0xe0 + v div 4096, 0x80 + v div 64 mod 64, 0x80 + v mod 64]
      else [0xf0 + v div 262144, 0x80 + v div 4096 mod 64, 0x80 + v div 64 mod 64, 0x80 + v mod 64])"

text \<open>The bit operations as arithmetic.\<close>

lemma and_masks: "b AND 0x3f = b mod 64" "b AND 0x1f = b mod 32" "b AND 0x0f = b mod 16" "b AND 0x07 = b mod 8" for b :: nat
  using take_bit_eq_mask [of 6 b] take_bit_eq_mask [of 5 b] take_bit_eq_mask [of 4 b] take_bit_eq_mask [of 3 b]
  by (simp_all add: take_bit_eq_mod mask_eq_exp_minus_1)

lemma and_push_bit: "a AND push_bit n c = push_bit n (drop_bit n a AND c)" for a c :: nat
  by (rule bit_eqI) (auto simp: bit_simps)

lemma continuation_bits: "b AND 0xc0 = 0x80 \<longleftrightarrow> 128 \<le> b \<and> b < 192" if "b < 256" for b :: nat
proof -
  have "b AND push_bit 6 3 = push_bit 6 (drop_bit 6 b AND 3)"
    by (rule and_push_bit)
  moreover have "drop_bit 6 b AND 3 = b div 64 mod 4"
    using take_bit_eq_mask [of 2 "drop_bit 6 b"] by (simp add: take_bit_eq_mod mask_eq_exp_minus_1 drop_bit_eq_div)
  ultimately have "b AND 0xc0 = 64 * (b div 64 mod 4)"
    by (simp add: push_bit_eq_mult)
  then show ?thesis
    using that by auto
qed

lemma shift_or: "push_bit 6 v OR (b mod 64) = v * 64 + b mod 64" for v b :: nat
proof -
  have "push_bit 6 v + take_bit 6 b = push_bit 6 v OR take_bit 6 b"
    by (rule disjunctive_add_eq_or) (auto simp: bit_eq_iff bit_simps)
  then show ?thesis
    by (simp add: take_bit_eq_mod push_bit_eq_mult)
qed

text \<open>The decoder reads one code point, and exactly the well-formed ones.\<close>

lemma continuation_step:
  assumes "byte < 256"
  shows "continuation v (byte # bytes) =
    (if 128 \<le> byte \<and> byte < 192 then continuation (v * 64 + (byte - 128)) bytes else None)"
proof -
  have "byte mod 64 = byte - 128" if "128 \<le> byte" "byte < 192"
    using that by (simp add: mod_if)
  then have "128 \<le> byte \<and> byte < 192 \<longrightarrow> push_bit 6 v OR (byte AND 0x3f) = v * 64 + (byte - 128)"
    using shift_or [of v byte] by (auto simp: and_masks)
  then show ?thesis
    using assms by (simp add: continuation_bits)
qed

lemma digit64: "z < 64 \<Longrightarrow> (a * 64 + z) div 64 = a" "z < 64 \<Longrightarrow> (a * 64 + z) mod 64 = z" for a z :: nat
  by simp_all

lemma lead_bits: "x < 32 \<Longrightarrow> (192 + x) mod 32 = x" "x < 16 \<Longrightarrow> (224 + x) mod 16 = x" "x < 8 \<Longrightarrow> (240 + x) mod 8 = x" for x :: nat
  by (rule mod_nat_eqI; simp)+

lemma utf8_2:
  assumes "x < 32" "y < 64" "0x80 \<le> x * 64 + y"
  shows "utf8 (x * 64 + y) = [0xc0 + x, 0x80 + y]"
  using assms by (simp add: utf8_def)

lemma utf8_3:
  assumes "x < 16" "y < 64" "z < 64" "0x800 \<le> (x * 64 + y) * 64 + z"
  shows "utf8 ((x * 64 + y) * 64 + z) = [0xe0 + x, 0x80 + y, 0x80 + z]"
proof -
  let ?v = "(x * 64 + y) * 64 + z"
  have v: "?v div 64 = x * 64 + y" "?v mod 64 = z"
    by (rule digit64 [OF assms(3)])+
  moreover have "?v div 4096 = x"
    using v(1) assms(2) div_mult2_eq [of ?v 64 64] by simp
  moreover have "x \<le> 15" "y \<le> 63" "z \<le> 63"
    using assms(1-3) by simp_all
  then have "?v < 0x10000"
    by (simp add: distrib_right)
  ultimately show ?thesis
    using assms(2,4) by (simp add: utf8_def)
qed

lemma utf8_4:
  assumes "x < 8" "y < 64" "z < 64" "t < 64" "0x10000 \<le> ((x * 64 + y) * 64 + z) * 64 + t"
  shows "utf8 (((x * 64 + y) * 64 + z) * 64 + t) = [0xf0 + x, 0x80 + y, 0x80 + z, 0x80 + t]"
proof -
  let ?v = "((x * 64 + y) * 64 + z) * 64 + t"
  have v: "?v div 64 = (x * 64 + y) * 64 + z" "?v mod 64 = t"
    by (rule digit64 [OF assms(4)])+
  moreover have v2: "?v div 4096 = x * 64 + y"
    using v(1) assms(3) div_mult2_eq [of ?v 64 64] by simp
  moreover have "?v div 262144 = x"
    using v2 assms(2) div_mult2_eq [of ?v 4096 64] by simp
  moreover have "?v div 64 mod 64 = z" "?v div 4096 mod 64 = y"
    unfolding v(1) v2 using assms(2,3) by (simp_all only: digit64)
  ultimately show ?thesis
    using assms(5) by (simp add: utf8_def)
qed

text \<open>The decoder reads one code point, and exactly the well-formed ones.\<close>

lemma decode_utf8:
  assumes "scalar v"
  shows "decode_step (utf8 v @ rest) = Some (v, length (utf8 v))"
proof -
  consider "v < 0x80" | "0x80 \<le> v" "v < 0x800" | "0x800 \<le> v" "v < 0x10000" | "0x10000 \<le> v" "v \<le> 0x10ffff"
    using assms unfolding scalar_def by linarith
  then show ?thesis
  proof cases
    case 1
    then show ?thesis
      by (simp add: utf8_def decode_step_def lead_byte_def malformed_def)
  next
    case 2
    define x y where "x = v div 64" and "y = v mod 64"
    then have *: "v = x * 64 + y" "x < 32" "y < 64"
      using 2 by auto
    then have "2 \<le> x"
      using 2 by linarith
    moreover have "utf8 v = [0xc0 + x, 0x80 + y]"
      using utf8_2 [of x y] * 2 by simp
    ultimately show ?thesis
      using * 2 by (simp add: decode_step_def lead_byte_def and_masks lead_bits continuation_step malformed_def del: continuation.simps(2))
  next
    case 3
    define x y z where "x = v div 64 div 64" and "y = v div 64 mod 64" and "z = v mod 64"
    then have *: "v = (x * 64 + y) * 64 + z" "y < 64" "z < 64"
      by (simp_all only: div_mult_mod_eq mod_less_divisor zero_less_numeral)
    have "x < 16"
      using 3 *(1) by (simp add: distrib_right)
    moreover note *
    moreover have "utf8 v = [0xe0 + x, 0x80 + y, 0x80 + z]"
      using utf8_3 [OF \<open>x < 16\<close> *(2,3)] *(1) 3(1) by metis
    ultimately show ?thesis
      using 3 assms
      by (simp add: decode_step_def lead_byte_def and_masks lead_bits continuation_step malformed_def scalar_def del: continuation.simps(2))
  next
    case 4
    define x y z t where "x = v div 64 div 64 div 64" and "y = v div 64 div 64 mod 64" and "z = v div 64 mod 64" and "t = v mod 64"
    then have *: "v = ((x * 64 + y) * 64 + z) * 64 + t" "y < 64" "z < 64" "t < 64"
      by (simp_all only: div_mult_mod_eq mod_less_divisor zero_less_numeral)
    have "x < 5"
      using 4 *(1) by (simp add: distrib_right)
    moreover note *
    moreover have "utf8 v = [0xf0 + x, 0x80 + y, 0x80 + z, 0x80 + t]"
      using utf8_4 [OF _ *(2,3,4), of x] *(1) 4(1) \<open>x < 5\<close> by simp
    ultimately show ?thesis
      using 4 assms
      by (simp add: decode_step_def lead_byte_def and_masks lead_bits continuation_step malformed_def scalar_def del: continuation.simps(2))
  qed
qed

lemma continuation_Some:
  assumes "continuation v bs = Some u" and "list_all (\<lambda>b. b < 256) bs"
  shows "list_all (\<lambda>b. 128 \<le> b \<and> b < 192) bs \<and> u = fold (\<lambda>b v. v * 64 + (b - 128)) bs v"
  using assms
proof (induction bs arbitrary: v)
  case (Cons b bs)
  then show ?case
    using continuation_step [of b v bs] by (auto simp del: continuation.simps(2) split: if_splits)
qed simp

lemma decode_wellformed:
  assumes "decode_step bs = Some (v, w)" and "bs \<noteq> []" and "list_all (\<lambda>b. b < 256) bs"
  shows "scalar v \<and> w = length (utf8 v) \<and> bs = utf8 v @ drop w bs"
proof -
  obtain a bs' where bs: "bs = a # bs'"
    using assms(2) by (cases bs) auto
  obtain u where u: "lead_byte a = Some (u, w)" "w \<le> length bs" "continuation u (take (w - 1) bs') = Some v" "\<not> malformed w v"
    using assms(1) bs by (auto simp: decode_step_def split: option.splits if_splits)
  have cs: "list_all (\<lambda>b. 128 \<le> b \<and> b < 192) (take (w - 1) bs') \<and> v = fold (\<lambda>b v. v * 64 + (b - 128)) (take (w - 1) bs') u"
    using assms(3) bs by (intro continuation_Some [OF u(3)]) (auto simp: list_all_iff dest: in_set_takeD)
  have sc: "scalar v"
    using u(4) by (auto simp: malformed_def scalar_def)
  consider (1) "w = 1" "u = a" "a \<le> 0x7f"
    | (2) "w = 2" "u = a - 192" "0xc2 \<le> a" "a \<le> 0xdf"
    | (3) "w = 3" "u = a - 224" "0xe0 \<le> a" "a \<le> 0xef"
    | (4) "w = 4" "u = a - 240" "0xf0 \<le> a" "a \<le> 0xf4"
    using u(1) lead_bits(1) [of "a - 192"] lead_bits(2) [of "a - 224"] lead_bits(3) [of "a - 240"]
    by (auto simp: lead_byte_def and_masks split: if_splits)
  then show ?thesis
  proof cases
    case 1
    then show ?thesis
      using cs sc bs by (simp add: utf8_def)
  next
    case 2
    then obtain b rest where bs': "bs' = b # rest"
      using u(2) bs by (cases bs') auto
    then have b: "128 \<le> b" "b < 192" "v = u * 64 + (b - 128)"
      using cs 2(1) by simp_all
    then have "utf8 v = [a, b]"
      using 2 u(4) utf8_2 [of u "b - 128"] by (simp add: malformed_def)
    then show ?thesis
      using sc 2(1) bs bs' by simp
  next
    case 3
    then obtain b c rest where bs': "bs' = b # c # rest"
      using u(2) bs by (cases bs'; cases "tl bs'") auto
    have "128 \<le> b" "b < 192" "128 \<le> c" "c < 192"
      using cs 3(1) bs' by (simp_all add: numeral_2_eq_2)
    then obtain y z where yz: "b = 128 + y" "c = 128 + z" "y < 64" "z < 64"
      by (auto simp: le_iff_add)
    then have v: "v = (u * 64 + y) * 64 + z"
      using cs 3(1) bs' by (simp add: numeral_2_eq_2)
    have "u < 16" "224 + u = a"
      using 3 by simp_all
    then have "utf8 v = [a, b, c]"
      using utf8_3 [of u y z] yz v 3(1) u(4) by (simp add: malformed_def)
    then show ?thesis
      using sc 3(1) bs bs' by simp
  next
    case 4
    then obtain b c d rest where bs': "bs' = b # c # d # rest"
      using u(2) bs by (cases bs'; cases "tl bs'"; cases "tl (tl bs')") auto
    have "128 \<le> b" "b < 192" "128 \<le> c" "c < 192" "128 \<le> d" "d < 192"
      using cs 4(1) bs' by (simp_all add: numeral_3_eq_3)
    then obtain y z t where yz: "b = 128 + y" "c = 128 + z" "d = 128 + t" "y < 64" "z < 64" "t < 64"
      by (auto simp: le_iff_add)
    then have v: "v = ((u * 64 + y) * 64 + z) * 64 + t"
      using cs 4(1) bs' by (simp add: numeral_3_eq_3)
    have "u < 8" "240 + u = a"
      using 4 by simp_all
    then have "utf8 v = [a, b, c, d]"
      using utf8_4 [of u y z t] yz v 4(1) u(4) by (simp add: malformed_def)
    then show ?thesis
      using sc 4(1) bs bs' by simp
  qed
qed

text \<open>The rule on code points, and the loop against it.\<close>

definition acceptable :: "nat list \<Rightarrow> bool" where
  "acceptable vs \<longleftrightarrow> list_all (\<lambda>v. scalar v \<and> \<not> whitespace v) vs"

lemma utf8_nonempty [simp]: "utf8 v \<noteq> []"
  by (simp add: utf8_def)

lemma password_loop_encoded:
  "acceptable vs \<Longrightarrow> n + length vs \<le> 128 \<Longrightarrow> 10 \<le> n + length vs \<Longrightarrow> password_loop n (concat (map utf8 vs))"
proof (induction vs arbitrary: n)
  case Nil
  then show ?case by (simp add: password_loop.simps)
next
  case (Cons v vs)
  then have "password_loop (n + 1) (concat (map utf8 vs))" "scalar v" "\<not> whitespace v"
    by (simp_all add: acceptable_def)
  then show ?case
    using Cons.prems(2) decode_utf8 [of v "concat (map utf8 vs)"]
    by (subst password_loop.simps) simp
qed

lemma password_loop_decoded:
  assumes "password_loop n bs" and "list_all (\<lambda>b. b < 256) bs" and "n \<le> 128"
  shows "\<exists>vs. bs = concat (map utf8 vs) \<and> acceptable vs \<and> 10 \<le> n + length vs \<and> n + length vs \<le> 128"
  using assms
proof (induction n bs rule: password_loop.induct)
  case (1 n bs)
  show ?case
  proof (cases "bs = []")
    case True
    then show ?thesis
      using "1.prems" by (intro exI [of _ "[]"]) (simp add: password_loop.simps acceptable_def)
  next
    case False
    obtain v w where d: "decode_step bs = Some (v, w)" "\<not> whitespace v" "n + 1 \<le> 128" "password_loop (n + 1) (drop w bs)"
      using "1.prems"(1) False by (subst (asm) password_loop.simps) (auto split: option.splits if_splits)
    have "list_all (\<lambda>b. b < 256) (drop w bs)"
      using "1.prems"(2) by (auto simp: list_all_iff dest: in_set_dropD)
    then obtain vs where vs: "drop w bs = concat (map utf8 vs)" "acceptable vs" "10 \<le> n + 1 + length vs" "n + 1 + length vs \<le> 128"
      using "1.IH" [OF False d(1) refl _ d(4)] d(2,3) by auto
    have "scalar v \<and> w = length (utf8 v) \<and> bs = utf8 v @ drop w bs"
      by (rule decode_wellformed [OF d(1) False "1.prems"(2)])
    then show ?thesis
      using vs d(2) by (intro exI [of _ "v # vs"]) (simp add: acceptable_def)
  qed
qed

lemma utf8_length: "length (utf8 v) \<le> 4"
  by (simp add: utf8_def)

lemma encoded_length: "length (concat (map utf8 vs)) \<le> 4 * length vs" "vs \<noteq> [] \<Longrightarrow> concat (map utf8 vs) \<noteq> []"
proof -
  show "length (concat (map utf8 vs)) \<le> 4 * length vs"
  proof (induction vs)
    case (Cons v vs)
    then show ?case
      using utf8_length [of v] by simp
  qed simp
  show "vs \<noteq> [] \<Longrightarrow> concat (map utf8 vs) \<noteq> []"
    by (cases vs) simp_all
qed

text \<open>
  C35: The rule for new passwords accepts exactly the UTF-8 encodings of 10 to 128 code points none of
  which is Unicode white space: overlong forms, surrogates, values beyond U+10FFFF, truncated and
  stray bytes are all refused, and nothing that is well formed and long enough is.
\<close>

theorem validNewPassword_iff:
  "validNewPassword password \<longleftrightarrow>
     (\<exists>vs. map char_code password = concat (map utf8 vs) \<and> acceptable vs \<and> 10 \<le> length vs \<and> length vs \<le> 128)"
proof
  assume "validNewPassword password"
  then have "password_loop 0 (map char_code password)"
    by (simp add: validNewPassword_def split: if_splits)
  moreover have "list_all (\<lambda>b. b < 256) (map char_code password)"
    using char_code_less by (simp add: list_all_iff)
  ultimately show "\<exists>vs. map char_code password = concat (map utf8 vs) \<and> acceptable vs \<and> 10 \<le> length vs \<and> length vs \<le> 128"
    using password_loop_decoded [of 0] by simp
next
  assume "\<exists>vs. map char_code password = concat (map utf8 vs) \<and> acceptable vs \<and> 10 \<le> length vs \<and> length vs \<le> 128"
  then obtain vs where vs: "map char_code password = concat (map utf8 vs)" "acceptable vs" "10 \<le> length vs" "length vs \<le> 128"
    by blast
  have "length password = length (concat (map utf8 vs))" "password \<noteq> []"
    using vs(1,3) encoded_length(2) [of vs] by (metis length_map, auto)
  moreover have "password_loop 0 (map char_code password)"
    unfolding vs(1) using vs(2-4) by (intro password_loop_encoded) simp_all
  ultimately show "validNewPassword password"
    using encoded_length(1) [of vs] vs(4) by (simp add: validNewPassword_def)
qed

end
