(* ===== verification/Gate_Logic.thy ===== *)
theory Gate_Logic
  imports Status_Service Varify_Service Credentials Password_Rule
begin

text \<open>
  The gate: the handlers of \<^verbatim>\<open>servers/gate/service/LogicSystem.cpp\<close>, their dispatch from
  \<^verbatim>\<open>servers/gate/network/HttpConnection.cpp\<close>, and the calls to the other servers in
  \<^verbatim>\<open>servers/gate/rpc\<close>. The state is what the gate shares with the others: Redis and
  the accounts. A handler that throws gives no response: the exception ends in the completion handler of the
  read, which only logs it. The generated stubs of the two services are arguments, absent when the pool
  of stubs is closed.
\<close>

record 's gate_env =
  g_redis :: "'s redis_link"
  g_lib :: json_lib
  g_sodium :: sodium
  g_collation :: "string \<Rightarrow> string"
  g_too_long :: "nat \<Rightarrow> string \<Rightarrow> bool"
  g_status_token :: string
  g_varify_token :: string
  g_resource_url :: "string option"
  g_status_stub :: "((string \<times> string) list \<Rightarrow> int \<Rightarrow> 's \<Rightarrow> rpc_status \<times> routing_reply \<times> 's) option"
  g_varify_stub :: "((string \<times> string) list \<Rightarrow> string \<Rightarrow> 's \<Rightarrow> rpc_status \<times> int \<times> 's) option"

text \<open>What one request meets: its identifier, the salt, the state of the database at its two uses, and the other connections.\<close>

record request_env =
  r_id :: string
  r_salt :: string
  r_sql :: sql_env
  r_sql2 :: sql_env
  r_other :: "account_db \<Rightarrow> account_db"

record 's gate =
  shared :: 's
  db :: account_db

section \<open>Helpers\<close>

definition gate_normalizeEmail :: "string \<Rightarrow> string" where
  "gate_normalizeEmail email = map tolower_char (trim email)"

definition consumeVerificationCode :: "'s gate_env \<Rightarrow> string \<Rightarrow> string \<Rightarrow> 's \<Rightarrow> error_code option \<times> 's" where
  "consumeVerificationCode E email submitted_code s =
     (case ConsumeVerificationCode (g_redis E) email submitted_code 5 s of
        (r, s') \<Rightarrow> (if r = Success then None else Some (if r = Expired then VarifyExpired else VarifyCodeErr), s'))"

definition hasStringFields :: "json \<Rightarrow> string list \<Rightarrow> bool" where
  "hasStringFields object field_names = (if \<not> isObject object then False else list_all (\<lambda>f. isString (field f object)) field_names)"

definition error_json :: "int \<Rightarrow> json" where
  "error_json n = set_member ''error'' (JInt n) JNull"

section \<open>Calls to the other servers\<close>

text \<open>A call throws when no token is configured.\<close>

definition StatusGrpcClient_GetChatServer :: "'s gate_env \<Rightarrow> int \<Rightarrow> string \<Rightarrow> 's \<Rightarrow> routing_reply outcome \<times> 's" where
  "StatusGrpcClient_GetChatServer E uid rid s =
     (case authenticate [] (g_status_token E) of
        None \<Rightarrow> (Throws, s)
      | Some m \<Rightarrow>
          (case g_status_stub E of
             None \<Rightarrow> (Returns (empty_reply\<lparr>rr_error := RPC_ERROR\<rparr>), s)
           | Some stub \<Rightarrow>
               (case stub (propagate_request_id m rid) uid s of
                  (status, reply, s') \<Rightarrow>
                    (Returns (if status = RpcOk then reply else reply\<lparr>rr_error := RPC_ERROR\<rparr>), s'))))"

definition VerifyGrpcClient_GetVarifyCode :: "'s gate_env \<Rightarrow> string \<Rightarrow> string \<Rightarrow> 's \<Rightarrow> int outcome \<times> 's" where
  "VerifyGrpcClient_GetVarifyCode E email rid s =
     (case authenticate [] (g_varify_token E) of
        None \<Rightarrow> (Throws, s)
      | Some m \<Rightarrow>
          (case g_varify_stub E of
             None \<Rightarrow> (Returns (error_number RPC_ERROR), s)
           | Some stub \<Rightarrow>
               (case stub (propagate_request_id m rid) email s of
                  (status, err, s') \<Rightarrow> (Returns (if status = RpcOk then err else error_number RPC_ERROR), s'))))"

section \<open>Handlers\<close>

type_synonym 's handler = "'s gate_env \<Rightarrow> request_env \<Rightarrow> string \<Rightarrow> 's gate \<Rightarrow> json outcome \<times> 's gate"

definition post_email :: "'s handler" where
  "post_email E q body w =
     (case parse_json (g_lib E) body of
        None \<Rightarrow> (Returns (error_json (error_number JSON_ERROR)), w)
      | Some src_root \<Rightarrow>
          if \<not> hasStringFields src_root [''email''] then (Returns (error_json (error_number JSON_ERROR)), w)
          else let email = gate_normalizeEmail (str_val (field ''email'' src_root)) in
            (case VerifyGrpcClient_GetVarifyCode E email (r_id q) (shared w) of
               (Throws, s) \<Rightarrow> (Throws, w\<lparr>shared := s\<rparr>)
             | (Returns err, s) \<Rightarrow> (Returns (set_member ''email'' (JStr email) (error_json err)), w\<lparr>shared := s\<rparr>)))"

definition user_register :: "'s handler" where
  "user_register E q body w =
     (case parse_json (g_lib E) body of
        None \<Rightarrow> (Returns (error_json (error_number JSON_ERROR)), w)
      | Some src_root \<Rightarrow>
          if \<not> hasStringFields src_root [''email'', ''user'', ''passwd'', ''icon'', ''varifycode''] then
            (Returns (error_json (error_number JSON_ERROR)), w)
          else
            let email = gate_normalizeEmail (str_val (field ''email'' src_root));
                name = str_val (field ''user'' src_root);
                pwd = str_val (field ''passwd'' src_root);
                icon = str_val (field ''icon'' src_root)
            in if \<not> validNewPassword pwd then (Returns (error_json (error_number PasswdInvalid)), w)
               else case consumeVerificationCode E email (str_val (field ''varifycode'' src_root)) (shared w) of
                 (Some err, s) \<Rightarrow> (Returns (error_json (error_number err)), w\<lparr>shared := s\<rparr>)
               | (None, s) \<Rightarrow>
                   (case RegUserTransaction (g_sodium E) (g_collation E) (g_too_long E) (r_salt q) (r_sql q) name email pwd icon (db w) of
                      (Throws, d) \<Rightarrow> (Throws, w\<lparr>shared := s, db := d\<rparr>)
                    | (Returns uid, d) \<Rightarrow>
                        (Returns
                           (if uid = 0 \<or> uid = -1 then error_json (error_number UserExist)
                            else set_member ''user'' (JStr name) (set_member ''email'' (JStr email)
                                   (set_member ''uid'' (JInt uid) (error_json 0)))),
                         w\<lparr>shared := s, db := d\<rparr>)))"

definition reset_pwd :: "'s handler" where
  "reset_pwd E q body w =
     (case parse_json (g_lib E) body of
        None \<Rightarrow> (Returns (error_json (error_number JSON_ERROR)), w)
      | Some src_root \<Rightarrow>
          if \<not> hasStringFields src_root [''email'', ''user'', ''passwd'', ''varifycode''] then
            (Returns (error_json (error_number JSON_ERROR)), w)
          else
            let email = gate_normalizeEmail (str_val (field ''email'' src_root));
                name = str_val (field ''user'' src_root);
                pwd = str_val (field ''passwd'' src_root)
            in if \<not> validNewPassword pwd then (Returns (error_json (error_number PasswdInvalid)), w)
               else case consumeVerificationCode E email (str_val (field ''varifycode'' src_root)) (shared w) of
                 (Some err, s) \<Rightarrow> (Returns (error_json (error_number err)), w\<lparr>shared := s\<rparr>)
               | (None, s) \<Rightarrow>
                   (case CheckEmail (g_collation E) (r_sql q) name email (db w) of
                      (Throws, d) \<Rightarrow> (Throws, w\<lparr>shared := s, db := d\<rparr>)
                    | (Returns email_valid, d) \<Rightarrow>
                        if \<not> email_valid then (Returns (error_json (error_number EmailNotMatch)), w\<lparr>shared := s, db := d\<rparr>)
                        else
                          (case UpdatePwd (g_sodium E) (g_collation E) (r_salt q) (r_sql2 q) name pwd d of
                             (Throws, d') \<Rightarrow> (Throws, w\<lparr>shared := s, db := d'\<rparr>)
                           | (Returns b_up, d') \<Rightarrow>
                               (Returns
                                  (if \<not> b_up then error_json (error_number PasswdUpFailed)
                                   else set_member ''user'' (JStr name) (set_member ''email'' (JStr email) (error_json 0))),
                                w\<lparr>shared := s, db := d'\<rparr>))))"

definition login_json :: "string option \<Rightarrow> string \<Rightarrow> login_user \<Rightarrow> routing_reply \<Rightarrow> json" where
  "login_json resource_url email u reply =
     foldl (\<lambda>j (k, v). set_member k v j) (error_json 0)
       [(''email'', JStr email), (''user'', JStr (lu_name u)), (''uid'', JInt (lu_uid u)), (''token'', JStr (rr_token reply)),
        (''resource_base_url'', JStr (case resource_url of None \<Rightarrow> ''https://localhost/api/resources/v1'' | Some v \<Rightarrow> v)),
        (''resource_protocol_version'', JInt 1), (''host'', JStr (rr_host reply)), (''port'', JStr (rr_port reply)),
        (''transport'', JStr (rr_transport reply)), (''tls_server_name'', JStr (rr_tls_name reply))]"

definition user_login :: "'s handler" where
  "user_login E q body w =
     (case parse_json (g_lib E) body of
        None \<Rightarrow> (Returns (error_json (error_number JSON_ERROR)), w)
      | Some src_root \<Rightarrow>
          if \<not> hasStringFields src_root [''email'', ''passwd''] then (Returns (error_json (error_number JSON_ERROR)), w)
          else
            let email = gate_normalizeEmail (str_val (field ''email'' src_root));
                pwd = str_val (field ''passwd'' src_root)
            in case CheckPwd (g_sodium E) (g_collation E) (r_salt q) (r_other q) (r_sql q) email pwd (db w) of
                 (Throws, d) \<Rightarrow> (Throws, w\<lparr>db := d\<rparr>)
               | (Returns (None, unavailable), d) \<Rightarrow>
                   (Returns (set_member ''retryable'' (JBool unavailable)
                       (error_json (error_number (if unavailable then RPC_ERROR else PasswdInvalid)))), w\<lparr>db := d\<rparr>)
               | (Returns (Some userInfo, _), d) \<Rightarrow>
                   (case StatusGrpcClient_GetChatServer E (lu_uid userInfo) (r_id q) (shared w) of
                      (Throws, s) \<Rightarrow> (Throws, w\<lparr>shared := s, db := d\<rparr>)
                    | (Returns reply, s) \<Rightarrow>
                        (Returns
                           (if rr_error reply \<noteq> ERROR_CODE_OK then error_json (error_number RPC_ERROR)
                            else login_json (g_resource_url E) email userInfo reply),
                         w\<lparr>shared := s, db := d\<rparr>)))"

section \<open>Dispatch\<close>

datatype http_method = GET | POST | OtherMethod

record http_response =
  res_status :: nat
  res_headers :: "(string \<times> string) list"
  res_body :: string

definition post_handlers :: "(string \<times> string \<times> 's handler) list" where
  "post_handlers =
     [(''/post_email'', ''test/json'', post_email), (''/user_register'', ''text/json'', user_register),
      (''/reset_pwd'', ''text/json'', reset_pwd), (''/user_login'', ''text/json'', user_login)]"

definition get_handlers :: "(string \<times> string) list" where
  "get_handlers = [(''/get_test'', ''Hello, World!'')]"

definition plain :: "nat \<Rightarrow> (string \<times> string) list \<Rightarrow> string \<Rightarrow> http_response" where
  "plain status headers body =
     \<lparr>res_status = status, res_headers = headers @ [(''Content-Type'', ''text/plain'')], res_body = body\<rparr>"

definition HandleGet :: "string \<Rightarrow> string option" where
  "HandleGet path = map_of get_handlers path"

definition HandlePost ::
    "'s gate_env \<Rightarrow> request_env \<Rightarrow> string \<Rightarrow> string \<Rightarrow> 's gate \<Rightarrow> (string \<times> string) option outcome \<times> 's gate" where
  "HandlePost E q path body w =
     (case map_of post_handlers path of
        None \<Rightarrow> (Returns None, w)
      | Some (content_type, handler) \<Rightarrow>
          (case handler E q body w of
             (Throws, w') \<Rightarrow> (Throws, w')
           | (Returns answer, w') \<Rightarrow> (Returns (Some (content_type, toStyledString (g_lib E) answer)), w')))"

definition HandleReq ::
    "'s gate_env \<Rightarrow> request_env \<Rightarrow> http_method \<Rightarrow> string \<Rightarrow> string \<Rightarrow> 's gate \<Rightarrow> http_response outcome \<times> 's gate" where
  "HandleReq E q method target body w =
     (case method of
        GET \<Rightarrow>
          (case PreParseGetParam target of
             None \<Rightarrow> (Returns (plain 400 [] ''invalid URL encoding''), w)
           | Some (url, _) \<Rightarrow>
               (case HandleGet url of
                  None \<Rightarrow> (Returns (plain 404 [] (''404 Not Found'' @ [CHR 0x0A] @ '' url not found.'')), w)
                | Some text_body \<Rightarrow> (Returns \<lparr>res_status = 200, res_headers = [(''Server'', ''GateServer'')], res_body = text_body\<rparr>, w)))
      | POST \<Rightarrow>
          (case HandlePost E q target body w of
             (Throws, w') \<Rightarrow> (Throws, w')
           | (Returns None, w') \<Rightarrow> (Returns (plain 404 [] (''url not found'' @ [CHR 0x0D, CHR 0x0A])), w')
           | (Returns (Some (content_type, res)), w') \<Rightarrow>
               (Returns \<lparr>res_status = 200, res_headers = [(''Content-Type'', content_type), (''Server'', ''GateServer'')], res_body = res\<rparr>, w'))
      | OtherMethod \<Rightarrow> (Returns (plain 405 [(''Allow'', ''GET, POST'')] ''method not allowed''), w))"

text \<open>The completion handler of the read: an error of the read or an exception gives no response.\<close>

definition serve ::
    "'s gate_env \<Rightarrow> request_env \<Rightarrow> (http_method \<times> string \<times> string) option \<Rightarrow> 's gate \<Rightarrow> http_response option \<times> 's gate" where
  "serve E q request w =
     (case request of
        None \<Rightarrow> (None, w)
      | Some (method, target, body) \<Rightarrow>
          (case HandleReq E q method target body w of
             (Throws, w') \<Rightarrow> (None, w')
           | (Returns r, w') \<Rightarrow> (Some r, w')))"

section \<open>What a request may change\<close>

text \<open>
  \<open>code_shown\<close>: during the request the code was in Redis for the address, and it was used up.
\<close>

definition code_shown :: "('s \<Rightarrow> time) \<Rightarrow> ('s \<Rightarrow> keyspace) \<Rightarrow> string \<Rightarrow> string \<Rightarrow> 's gate \<Rightarrow> 's gate \<Rightarrow> bool" where
  "code_shown now ks email code w w' \<longleftrightarrow>
     (\<exists>t. now (shared w) \<le> t \<and> t \<le> now (shared w') \<and> live t (ks (shared w)) (''code_'' @ email) = Some (VStr code))
     \<and> ks (shared w') (''code_'' @ email) = None"

definition reset_rows ::
    "sodium \<Rightarrow> (string \<Rightarrow> string) \<Rightarrow> string \<Rightarrow> string \<Rightarrow> string \<Rightarrow> user_row list \<Rightarrow> user_row list \<Rightarrow> bool" where
  "reset_rows L ck name email pwd rs rs' \<longleftrightarrow>
     list_all2 (\<lambda>r r'. r' = r \<or> (\<exists>h. ck (u_name r) = ck name \<and> u_email r = email
        \<and> r' = r\<lparr>u_pwd := h, u_scheme := raw_scheme\<rparr> \<and> accepts L r' pwd)) rs rs'"

lemma consumed:
  assumes "redis_server (g_redis E) now ks" and "consumeVerificationCode E email code s = (None, s')" and "shared w = s" and "shared w' = s'"
  shows "code_shown now ks email code w w'"
  using assms Consume_success [OF assms(1), of email code 5 s s']
  by (auto simp: consumeVerificationCode_def code_shown_def code_gone_def split: prod.splits if_splits)

lemma unique_name:
  assumes "accounts_ok ck d" and "r \<in> set (accounts d)" "r' \<in> set (accounts d)" and "ck (u_name r) = ck (u_name r')"
  shows "r = r'"
  using assms unfolding accounts_ok_def by (metis (no_types, lifting) distinct_map inj_onD)

lemma reset_pwd_rows:
  assumes "sodium_ok L" and "accounts_ok ck d" and "hash L salt pwd = Returns h"
    and "filter (\<lambda>r. ck (u_name r) = ck name) (accounts d) = r # rs" and "u_email r = email"
  shows "reset_rows L ck name email pwd (accounts d)
    (accounts (snd (update_accounts (\<lambda>r. ck (u_name r) = ck name) (\<lambda>r. r\<lparr>u_pwd := h, u_scheme := raw_scheme\<rparr>) d)))"
proof -
  have r: "r \<in> set (accounts d)" "ck (u_name r) = ck name"
    using arg_cong [OF assms(4), of set] by auto
  have "u_email x = email" if "x \<in> set (accounts d)" "ck (u_name x) = ck name" for x
    using unique_name [OF assms(2) that(1) r(1)] that(2) r(2) assms(5) by simp
  then show ?thesis
    using accepts_upgraded [OF assms(1,3)]
    by (auto simp: reset_rows_def update_accounts_def list_all2_map2 intro!: list.rel_refl_strong)
qed

text \<open>The member of a request, as text.\<close>

definition posted :: "'s gate_env \<Rightarrow> string \<Rightarrow> string \<Rightarrow> string" where
  "posted E body k = (case parse_json (g_lib E) body of None \<Rightarrow> [] | Some src_root \<Rightarrow> str_val (field k src_root))"

abbreviation posted_email :: "'s gate_env \<Rightarrow> string \<Rightarrow> string" where
  "posted_email E body \<equiv> gate_normalizeEmail (posted E body ''email'')"

lemma user_register_effect:
  assumes "redis_server (g_redis E) now ks" and "sodium_ok (g_sodium E)" and "accounts_ok (g_collation E) (db w)"
    and "user_register E q body w = (res, w')"
  shows "db w' = db w \<or> (validNewPassword (posted E body ''passwd'')
     \<and> code_shown now ks (posted_email E body) (posted E body ''varifycode'') w w'
     \<and> (\<exists>uid h. db w' = registered uid (posted E body ''user'') (posted_email E body) h (posted E body ''icon'') (db w)
        \<and> accepts (g_sodium E) (new_account uid (posted E body ''user'') (posted_email E body) h (posted E body ''icon''))
            (posted E body ''passwd'')))"
proof (cases "parse_json (g_lib E) body")
  case None
  then show ?thesis
    using assms(4) by (auto simp: user_register_def)
next
  case (Some src)
  show ?thesis
  proof (cases "db w' = db w")
    case False
    then obtain s d r where u: "validNewPassword (posted E body ''passwd'')"
        "consumeVerificationCode E (posted_email E body) (posted E body ''varifycode'') (shared w) = (None, s)"
        "RegUserTransaction (g_sodium E) (g_collation E) (g_too_long E) (r_salt q) (r_sql q) (posted E body ''user'')
           (posted_email E body) (posted E body ''passwd'') (posted E body ''icon'') (db w) = (r, d)"
        "shared w' = s" "db w' = d"
      using assms(4) Some
      by (auto simp: user_register_def posted_def Let_def split: if_splits prod.splits option.splits outcome.splits)
    then show ?thesis
      using consumed [OF assms(1) u(2) refl u(4)] registration_result [OF assms(2,3) u(3)] by metis
  qed simp
qed

lemma reset_pwd_effect:
  assumes "redis_server (g_redis E) now ks" and "sodium_ok (g_sodium E)" and "accounts_ok (g_collation E) (db w)"
    and "reset_pwd E q body w = (res, w')"
  shows "db w' = db w \<or> (validNewPassword (posted E body ''passwd'')
     \<and> code_shown now ks (posted_email E body) (posted E body ''varifycode'') w w' \<and> user_id (db w') = user_id (db w)
     \<and> reset_rows (g_sodium E) (g_collation E) (posted E body ''user'') (posted_email E body) (posted E body ''passwd'')
         (accounts (db w)) (accounts (db w')))"
proof (cases "parse_json (g_lib E) body")
  case None
  then show ?thesis
    using assms(4) by (auto simp: reset_pwd_def)
next
  case (Some src)
  show ?thesis
  proof (cases "db w' = db w")
    case False
    then obtain s d r where u: "validNewPassword (posted E body ''passwd'')"
        "consumeVerificationCode E (posted_email E body) (posted E body ''varifycode'') (shared w) = (None, s)"
        "CheckEmail (g_collation E) (r_sql q) (posted E body ''user'') (posted_email E body) (db w) = (Returns True, db w)"
        "UpdatePwd (g_sodium E) (g_collation E) (r_salt q) (r_sql2 q) (posted E body ''user'') (posted E body ''passwd'') (db w) = (r, d)"
        "shared w' = s" "db w' = d"
      using assms(4) Some
      by (auto simp: reset_pwd_def posted_def Let_def split: if_splits prod.splits option.splits outcome.splits
          dest: CheckEmail_result)
    obtain x xs where x: "filter (\<lambda>r. g_collation E (u_name r) = g_collation E (posted E body ''user'')) (accounts (db w)) = x # xs"
        "u_email x = posted_email E body"
      using CheckEmail_result [OF u(3)] by auto
    obtain h where h: "hash (g_sodium E) (r_salt q) (posted E body ''passwd'') = Returns h"
        "d = snd (update_accounts (\<lambda>r. g_collation E (u_name r) = g_collation E (posted E body ''user''))
           (\<lambda>r. r\<lparr>u_pwd := h, u_scheme := raw_scheme\<rparr>) (db w))"
      using UpdatePwd_result [OF u(4)] False u(6) by auto
    have "user_id d = user_id (db w)"
      by (simp add: h(2) update_accounts_def)
    then show ?thesis
      using consumed [OF assms(1) u(2) refl u(5)] reset_pwd_rows [OF assms(2,3) h(1) x] u(1,6) h(2) by simp
  qed simp
qed

lemma user_login_effect:
  assumes "sodium_ok (g_sodium E)" and "schemes_ok (g_collation E) (db w)" and "schemes_ok (g_collation E) (r_other q (db w))"
    and "user_login E q body w = (res, w')"
  shows "\<exists>b \<in> {db w, r_other q (db w)}. upgraded_rows (g_sodium E) (posted E body ''passwd'') (accounts b) (accounts (db w'))
    \<and> user_id (db w') = user_id b"
proof (cases "db w' = db w")
  case False
  then obtain r where "CheckPwd (g_sodium E) (g_collation E) (r_salt q) (r_other q) (r_sql q) (posted_email E body)
      (posted E body ''passwd'') (db w) = (r, db w')"
    using assms(4)
    by (auto simp: user_login_def posted_def Let_def split: if_splits prod.splits option.splits outcome.splits)
  from CheckPwd_result [where ck = "g_collation E" and other = "r_other q", OF assms(1-3) this] show ?thesis
    by (auto simp: check_post_def)
qed simp

lemma serve_post:
  assumes "serve E q request w = (resp, w')" and "db w' \<noteq> db w"
  obtains body res where "request = Some (POST, ''/user_register'', body)" "user_register E q body w = (res, w')"
  | body res where "request = Some (POST, ''/reset_pwd'', body)" "reset_pwd E q body w = (res, w')"
  | body res where "request = Some (POST, ''/user_login'', body)" "user_login E q body w = (res, w')"
proof -
  have mail: "db w'' = db w" if "post_email E q body w = (r, w'')" for body r w''
    using that by (auto simp: post_email_def Let_def split: option.splits if_splits prod.splits outcome.splits)
  obtain m t body where r: "request = Some (m, t, body)"
    using assms by (cases request) (auto simp: serve_def)
  have "m = POST"
    using assms r by (cases m) (auto simp: serve_def HandleReq_def split: option.splits prod.splits)
  then have "\<exists>c h res. map_of post_handlers t = Some (c, h) \<and> h E q body w = (res, w')"
    using assms r by (auto simp: serve_def HandleReq_def HandlePost_def split: option.splits prod.splits outcome.splits)
  then show thesis
    using assms(2) mail that r \<open>m = POST\<close> by (auto simp: post_handlers_def split: if_splits)
qed

text \<open>
  C6: Nobody gets at an account through the gate without the proof that goes with it. Whatever the
  request, and whatever fails while it is served, the accounts change in one of three ways only: a registration
  adds one account for an address whose code the request shows, and the code is used up; a reset
  replaces the password of an account that has the name and the address given, for a code shown in the same way; a
  login renews the hash of an account that accepts the password. New passwords satisfy the password rule.
\<close>

theorem gate_account_authority:
  assumes "redis_server (g_redis E) now ks" and "sodium_ok (g_sodium E)" and "accounts_ok (g_collation E) (db w)"
    and "schemes_ok (g_collation E) (db w)" and "schemes_ok (g_collation E) (r_other q (db w))"
    and "serve E q request w = (resp, w')"
  shows "db w' = db w
    \<or> (\<exists>body. request = Some (POST, ''/user_register'', body) \<and> validNewPassword (posted E body ''passwd'')
        \<and> code_shown now ks (posted_email E body) (posted E body ''varifycode'') w w'
        \<and> (\<exists>uid h. db w' = registered uid (posted E body ''user'') (posted_email E body) h (posted E body ''icon'') (db w)
           \<and> accepts (g_sodium E) (new_account uid (posted E body ''user'') (posted_email E body) h (posted E body ''icon''))
               (posted E body ''passwd'')))
    \<or> (\<exists>body. request = Some (POST, ''/reset_pwd'', body) \<and> validNewPassword (posted E body ''passwd'')
        \<and> code_shown now ks (posted_email E body) (posted E body ''varifycode'') w w' \<and> user_id (db w') = user_id (db w)
        \<and> reset_rows (g_sodium E) (g_collation E) (posted E body ''user'') (posted_email E body) (posted E body ''passwd'')
            (accounts (db w)) (accounts (db w')))
    \<or> (\<exists>body. request = Some (POST, ''/user_login'', body)
        \<and> (\<exists>b \<in> {db w, r_other q (db w)}. user_id (db w') = user_id b
             \<and> upgraded_rows (g_sodium E) (posted E body ''passwd'') (accounts b) (accounts (db w'))))"
proof (cases "db w' = db w")
  case False
  from serve_post [OF assms(6) this] show ?thesis
  proof cases
    case (1 body res)
    then show ?thesis
      using user_register_effect [OF assms(1-3) 1(2)] by blast
  next
    case (2 body res)
    then show ?thesis
      using reset_pwd_effect [OF assms(1-3) 2(2)] by blast
  next
    case (3 body res)
    then show ?thesis
      using user_login_effect [OF assms(2,4,5) 3(2)] by blast
  qed
qed simp

text \<open>A registration, for the example.\<close>

definition example_body :: json where
  "example_body = JObj [(''email'', JStr '' B@b.c''), (''user'', JStr ''bob''), (''passwd'', JStr ''0123456789''), (''icon'', JStr []),
     (''varifycode'', JStr ''004213'')]"

definition example_gate :: "(time \<times> keyspace) gate_env" where
  "example_gate = \<lparr>g_redis = local_redis,
     g_lib = \<lparr>parse_json = (\<lambda>_. Some example_body), toStyledString = (\<lambda>_. []), real_text = (\<lambda>_. [])\<rparr>,
     g_sodium = example_sodium, g_collation = (\<lambda>s. s), g_too_long = (\<lambda>n s. length s > n), g_status_token = ''s'', g_varify_token = ''v'',
     g_resource_url = None, g_status_stub = None, g_varify_stub = None\<rparr>"

definition example_request :: request_env where
  "example_request = \<lparr>r_id = ''1'', r_salt = [], r_sql = calm, r_sql2 = calm, r_other = (\<lambda>d. d)\<rparr>"

definition example_world :: "(time \<times> keyspace) gate" where
  "example_world = \<lparr>shared = (0, [''code_b@b.c'' \<mapsto> (VStr ''004213'', Some (seconds 300))]), db = example_accounts\<rparr>"

lemma example_password: "validNewPassword ''0123456789''"
  by (simp add: validNewPassword_def password_loop.simps decode_step_def lead_byte_def malformed_def whitespace_def char_code_def)

lemma example_fields:
  "hasStringFields example_body [''email'', ''user'', ''passwd'', ''icon'', ''varifycode'']"
  "gate_normalizeEmail (str_val (field ''email'' example_body)) = ''b@b.c''" "str_val (field ''user'' example_body) = ''bob''"
  "str_val (field ''passwd'' example_body) = ''0123456789''" "str_val (field ''icon'' example_body) = []"
  "str_val (field ''varifycode'' example_body) = ''004213''"
  by code_simp+

lemma example_consumed: "\<exists>s. consumeVerificationCode example_gate ''b@b.c'' ''004213'' (shared example_world) = (None, s)"
  by (simp add: consumeVerificationCode_def example_gate_def example_world_def local_code_simps)

lemma example_added:
  "RegUserTransaction example_sodium (\<lambda>s. s) (\<lambda>n s. length s > n) [] calm ''bob'' ''b@b.c'' ''0123456789'' [] example_accounts =
     (Returns 1002, registered 1002 ''bob'' ''b@b.c'' ''$argon2id$0123456789'' [] example_accounts)"
  by code_simp

lemma example_env:
  "g_redis example_gate = local_redis" "g_sodium example_gate = example_sodium" "g_collation example_gate = (\<lambda>s. s)"
  "g_too_long example_gate = (\<lambda>n s. length s > n)" "parse_json (g_lib example_gate) body = Some example_body"
  "r_other example_request = (\<lambda>d. d)" "r_salt example_request = []" "r_sql example_request = calm" "db example_world = example_accounts"
  by (simp_all add: example_gate_def example_request_def example_world_def)

lemma example_served:
  "db (snd (serve example_gate example_request (Some (POST, ''/user_register'', [])) example_world)) =
     registered 1002 ''bob'' ''b@b.c'' ''$argon2id$0123456789'' [] example_accounts"
proof -
  obtain s where s: "consumeVerificationCode example_gate ''b@b.c'' ''004213'' (shared example_world) = (None, s)"
    using example_consumed by blast
  show ?thesis
    by (simp add: serve_def HandleReq_def HandlePost_def post_handlers_def user_register_def example_env example_fields
        example_password s example_added Let_def)
qed

theorem gate_account_authority_witness:
  "\<exists>w' uid h. snd (serve example_gate example_request (Some (POST, ''/user_register'', [])) example_world) = w'
     \<and> code_shown fst snd ''b@b.c'' ''004213'' example_world w'
     \<and> db w' = registered uid ''bob'' ''b@b.c'' h [] (db example_world)"
proof -
  have ok: "accounts_ok (\<lambda>s. s) example_accounts" "schemes_ok (\<lambda>s. s) example_accounts"
    by (simp_all add: accounts_ok_def schemes_ok_def example_accounts_def new_account_def)
  have posted: "posted example_gate [] k = str_val (field k example_body)" for k
    by (simp add: posted_def example_env)
  let ?w = "snd (serve example_gate example_request (Some (POST, ''/user_register'', [])) example_world)"
  have "db ?w \<noteq> db example_world"
    unfolding example_served by (simp add: example_env registered_def example_accounts_def)
  then show ?thesis
    using gate_account_authority [of example_gate fst snd example_world example_request "Some (POST, ''/user_register'', [])",
        unfolded example_env, OF local_redis_server example_sodium_ok ok(1) ok(2) ok(2) prod.collapse [symmetric]]
    by (auto simp: posted example_env example_fields)
qed

section \<open>A successful login\<close>

lemma user_login_success:
  assumes "sodium_ok (g_sodium E)" and "schemes_ok (g_collation E) (db w)" and "schemes_ok (g_collation E) (r_other q (db w))"
    and "user_login E q body w = (Returns j, w')" and "field ''error'' j = JInt 0"
  obtains r reply d where "r \<in> set (accounts (db w))" "g_collation E (u_email r) = g_collation E (posted_email E body)"
    "accepts (g_sodium E) r (posted E body ''passwd'')"
    "StatusGrpcClient_GetChatServer E (u_uid r) (r_id q) (shared w) = (Returns reply, shared w')" "rr_error reply = ERROR_CODE_OK"
    "j = login_json (g_resource_url E) (posted_email E body) \<lparr>lu_name = u_name r, lu_email = posted_email E body, lu_uid = u_uid r\<rparr> reply"
proof -
  obtain u un d reply where c: "CheckPwd (g_sodium E) (g_collation E) (r_salt q) (r_other q) (r_sql q) (posted_email E body)
      (posted E body ''passwd'') (db w) = (Returns (Some u, un), d)"
    "StatusGrpcClient_GetChatServer E (lu_uid u) (r_id q) (shared w) = (Returns reply, shared w')" "rr_error reply = ERROR_CODE_OK"
    "j = login_json (g_resource_url E) (posted_email E body) u reply"
    using assms(4,5)
    by (auto simp: user_login_def posted_def Let_def error_json_def split: if_splits prod.splits option.splits outcome.splits)
  from CheckPwd_result [where ck = "g_collation E" and other = "r_other q", OF assms(1-3) c(1)]
  obtain r where r: "r \<in> set (accounts (db w))" "g_collation E (u_email r) = g_collation E (posted_email E body)"
    "accepts (g_sodium E) r (posted E body ''passwd'')" "u = \<lparr>lu_name = u_name r, lu_email = posted_email E body, lu_uid = u_uid r\<rparr>"
    by (auto simp: check_post_def)
  show thesis
    by (rule that [OF r(1-3), of reply]) (use c r(4) in auto)
qed

lemma login_json_token: "field ''token'' (login_json url email u reply) = JStr (rr_token reply)"
  by (simp add: login_json_def error_json_def)

end
