(* ===== verification/Resource_Act.thy ===== *)
theory Resource_Act
  imports File_Transfer_Db Encrypted_Store Redis_Store Json_Value
begin

text \<open>
  How a request of the resource server runs: \<^verbatim>\<open>servers/resource/ResourceSupport.h\<close>. A request has a
  leased connection to the database, the directory of encrypted files and Redis. It ends with a value, with an
  \<^verbatim>\<open>Error\<close> that carries an HTTP status, or with another exception, which
  \<^verbatim>\<open>main.cpp\<close> answers with 503. Every call on the connection can fail as in
  \<open>Sql_Connection\<close>, and every write of a file can be torn.
\<close>

datatype 'a answer = Ok 'a | Failed nat string "json option" | Crashed

record ('d, 's) rworld =
  rconn :: "'d conn"
  committed :: bool
  rdisk :: disk
  rredis :: 's

type_synonym ('d, 's, 'a) act = "('d, 's) rworld \<Rightarrow> 'a answer \<times> ('d, 's) rworld"

definition a_return :: "'a \<Rightarrow> ('d, 's, 'a) act" where
  "a_return a w = (Ok a, w)"

definition a_fail :: "nat \<Rightarrow> string \<Rightarrow> ('d, 's, 'a) act" where
  "a_fail status message w = (Failed status message None, w)"

definition a_crash :: "('d, 's, 'a) act" where
  "a_crash w = (Crashed, w)"

definition a_bind :: "('d, 's, 'a) act \<Rightarrow> ('a \<Rightarrow> ('d, 's, 'b) act) \<Rightarrow> ('d, 's, 'b) act" where
  "a_bind m f w =
     (case m w of
        (Ok a, w1) \<Rightarrow> f a w1
      | (Failed n t x, w1) \<Rightarrow> (Failed n t x, w1)
      | (Crashed, w1) \<Rightarrow> (Crashed, w1))"

definition a_then :: "('d, 's, 'a) act \<Rightarrow> ('d, 's, 'b) act \<Rightarrow> ('d, 's, 'b) act" where
  "a_then m k = a_bind m (\<lambda>_. k)"

definition require :: "bool \<Rightarrow> nat \<Rightarrow> string \<Rightarrow> ('d, 's, unit) act" where
  "require ok status message = (if ok then a_return () else a_fail status message)"

text \<open>A value that may be missing: a conversion that throws.\<close>

definition demand :: "'a option \<Rightarrow> ('d, 's, 'a) act" where
  "demand v = (case v of None \<Rightarrow> a_crash | Some a \<Rightarrow> a_return a)"

section \<open>The database\<close>

definition sql :: "('d conn, 'a) io \<Rightarrow> ('d, 's, 'a) act" where
  "sql m w = (case m (rconn w) of (Returns a, c) \<Rightarrow> (Ok a, w\<lparr>rconn := c\<rparr>) | (Throws, c) \<Rightarrow> (Crashed, w\<lparr>rconn := c\<rparr>))"

text \<open>\<^verbatim>\<open>Transaction\<close>: its constructor, \<^verbatim>\<open>commit\<close>, and its destructor, which swallows what it throws.\<close>

definition tx_commit :: "('d, 's, unit) act" where
  "tx_commit = a_then (sql commit) (a_then (\<lambda>w. (Ok (), w\<lparr>committed := True\<rparr>)) (sql (setAutoCommit True)))"

definition tx_close :: "('d, 's) rworld \<Rightarrow> ('d, 's) rworld" where
  "tx_close w = (if committed w then w else snd (a_then (sql rollback) (sql (setAutoCommit True)) w))"

definition Transaction :: "('d, 's, 'a) act \<Rightarrow> ('d, 's, 'a) act" where
  "Transaction body w =
     (case sql (setAutoCommit False) w of
        (Ok _, w1) \<Rightarrow> (case body (w1\<lparr>committed := False\<rparr>) of (r, w2) \<Rightarrow> (r, tx_close w2))
      | (Failed n t x, w1) \<Rightarrow> (Failed n t x, w1)
      | (Crashed, w1) \<Rightarrow> (Crashed, w1))"

section \<open>The other resources\<close>

definition on_disk :: "(disk \<Rightarrow> 'a outcome \<times> disk) \<Rightarrow> ('d, 's, 'a) act" where
  "on_disk f w = (case f (rdisk w) of (Returns a, k) \<Rightarrow> (Ok a, w\<lparr>rdisk := k\<rparr>) | (Throws, k) \<Rightarrow> (Crashed, w\<lparr>rdisk := k\<rparr>))"

definition from_disk :: "(disk \<Rightarrow> 'a outcome) \<Rightarrow> ('d, 's, 'a) act" where
  "from_disk f = on_disk (\<lambda>d. (f d, d))"

text \<open>A command to Redis; no connection, no reply and an error reply are all 503.\<close>

definition redis_do :: "'s redis_link \<Rightarrow> string list \<Rightarrow> ('d, 's, reply) act" where
  "redis_do c args w =
     (case redisCommand c args (rredis w) of
        (None, s) \<Rightarrow> (Failed 503 ''redis unavailable'' None, w\<lparr>rredis := s\<rparr>)
      | (Some (RError t), s) \<Rightarrow> (Failed 503 ''redis unavailable'' None, w\<lparr>rredis := s\<rparr>)
      | (Some r, s) \<Rightarrow> (Ok r, w\<lparr>rredis := s\<rparr>))"

definition redis_get :: "'s redis_link \<Rightarrow> string \<Rightarrow> ('d, 's, string option) act" where
  "redis_get c k =
     a_bind (redis_do c [''GET'', k]) (\<lambda>r.
       case r of RNil \<Rightarrow> a_return None | RString v \<Rightarrow> a_return (Some v) | _ \<Rightarrow> a_fail 503 ''invalid redis reply'')"

definition parse_object :: "json_lib \<Rightarrow> string \<Rightarrow> ('d, 's, json) act" where
  "parse_object lib s =
     (case parse_json lib s of
        Some v \<Rightarrow> if isObject v then a_return v else a_fail 400 ''invalid JSON object''
      | None \<Rightarrow> a_fail 400 ''invalid JSON object'')"

text \<open>An unsigned 64-bit number that takes up a whole string.\<close>

definition number_of :: "string \<Rightarrow> ('d, 's, 64 word) act" where
  "number_of s =
     (if s = [] \<or> \<not> list_all is_digit s \<or> number s \<ge> 2 ^ 64 then a_fail 400 ''invalid number''
      else a_return (word_of_nat (number s)))"

section \<open>Reasoning\<close>

text \<open>
  \<open>triple I P m Q\<close>: run in a state with \<open>I\<close> and \<open>P\<close>, the request \<open>m\<close> keeps the invariant
  \<open>I\<close> however it ends, and if it ends with a value, that value and the state satisfy \<open>Q\<close>.
\<close>

definition triple ::
    "(('d, 's) rworld \<Rightarrow> bool) \<Rightarrow> (('d, 's) rworld \<Rightarrow> bool) \<Rightarrow> ('d, 's, 'a) act \<Rightarrow> ('a \<Rightarrow> ('d, 's) rworld \<Rightarrow> bool) \<Rightarrow> bool" where
  "triple I P m Q \<longleftrightarrow> (\<forall>w. I w \<longrightarrow> P w \<longrightarrow> (case m w of (a, w') \<Rightarrow> I w' \<and> (\<forall>x. a = Ok x \<longrightarrow> Q x w')))"

named_theorems triples \<open>rules for requests, backwards\<close>

lemma tripleD:
  assumes "triple I P m Q" and "m w = (a, w')" and "I w" and "P w"
  shows "I w'" "a = Ok x \<Longrightarrow> Q x w'"
  using assms by (auto simp: triple_def)

lemma triple_pre: "triple I P' m Q \<Longrightarrow> (\<And>w. I w \<Longrightarrow> P w \<Longrightarrow> P' w) \<Longrightarrow> triple I P m Q"
  by (simp add: triple_def)

lemma triple_post: "triple I P m Q' \<Longrightarrow> (\<And>x w. I w \<Longrightarrow> Q' x w \<Longrightarrow> Q x w) \<Longrightarrow> triple I P m Q"
  by (auto simp: triple_def split: prod.splits)

lemma triple_true: "triple I P m Q \<Longrightarrow> triple I P m (\<lambda>_ _. True)"
  by (auto simp: triple_def split: prod.splits)

lemma triple_return: "(\<And>w. I w \<Longrightarrow> P w \<Longrightarrow> Q a w) \<Longrightarrow> triple I P (a_return a) Q"
  by (simp add: triple_def a_return_def)

lemma triple_stop [triples]: "triple I P (a_fail n t) Q" "triple I P a_crash Q" "triple I P (\<lambda>w. (Failed n t x, w)) Q"
  by (simp_all add: triple_def a_fail_def a_crash_def)

lemma triple_bind:
  assumes "triple I P m Q" and "\<And>a. triple I (Q a) (f a) R"
  shows "triple I P (a_bind m f) R"
  unfolding triple_def
proof (intro allI impI)
  fix w
  assume w: "I w" "P w"
  obtain a w1 where m: "m w = (a, w1)"
    by (cases "m w")
  note q = tripleD [OF assms(1) m w]
  show "case a_bind m f w of (a, w') \<Rightarrow> I w' \<and> (\<forall>x. a = Ok x \<longrightarrow> R x w')"
  proof (cases a)
    case (Ok x)
    then show ?thesis
      using assms(2) [of x, unfolded triple_def, rule_format, OF q(1) q(2)] m by (simp add: a_bind_def)
  qed (use q(1) m in \<open>simp_all add: a_bind_def\<close>)
qed

lemma triple_then: "triple I P m (\<lambda>_. Q) \<Longrightarrow> triple I Q k R \<Longrightarrow> triple I P (a_then m k) R"
  by (auto simp: a_then_def intro: triple_bind)

lemma triple_require: "(b \<Longrightarrow> triple I P k Q) \<Longrightarrow> triple I P (a_then (require b n t) k) Q"
  by (cases b) (simp_all add: triple_def a_then_def a_bind_def require_def a_return_def a_fail_def)

lemma triple_demand: "(\<And>a. v = Some a \<Longrightarrow> triple I P (f a) Q) \<Longrightarrow> triple I P (a_bind (demand v) f) Q"
  by (cases v) (simp_all add: triple_def a_bind_def demand_def a_return_def a_crash_def)

lemma triple_if: "(b \<Longrightarrow> triple I P m Q) \<Longrightarrow> (\<not> b \<Longrightarrow> triple I P k Q) \<Longrightarrow> triple I P (if b then m else k) Q"
  by simp

lemma triple_assume: "(\<And>w. I w \<Longrightarrow> P w \<Longrightarrow> b) \<Longrightarrow> (b \<Longrightarrow> triple I P m Q) \<Longrightarrow> triple I P m Q"
  by (auto simp: triple_def)

lemma triple_conj: "(b \<Longrightarrow> triple I P m Q) \<Longrightarrow> triple I (\<lambda>w. P w \<and> b) m Q" "(b \<Longrightarrow> triple I P m Q) \<Longrightarrow> triple I (\<lambda>w. b \<and> P w) m Q"
  by (auto simp: triple_def)

lemma triple_from_disk: "(\<And>a w. I w \<Longrightarrow> P w \<Longrightarrow> f (rdisk w) = Returns a \<Longrightarrow> Q a w) \<Longrightarrow> triple I P (from_disk f) Q"
  by (auto simp: triple_def from_disk_def on_disk_def split: prod.splits outcome.splits)

lemma triple_disk:
  assumes "\<And>w. I w \<Longrightarrow> P w \<Longrightarrow> I (w\<lparr>rdisk := snd (f (rdisk w))\<rparr>)"
    and "\<And>w a k. I w \<Longrightarrow> P w \<Longrightarrow> f (rdisk w) = (Returns a, k) \<Longrightarrow> Q a (w\<lparr>rdisk := k\<rparr>)"
  shows "triple I P (on_disk f) Q"
  unfolding triple_def
proof (intro allI impI)
  fix w
  assume w: "I w" "P w"
  obtain r k where f: "f (rdisk w) = (r, k)"
    by (cases "f (rdisk w)")
  then show "case on_disk f w of (a, w') \<Rightarrow> I w' \<and> (\<forall>x. a = Ok x \<longrightarrow> Q x w')"
    using assms(1) [OF w] assms(2) [OF w, of _ k] by (cases r) (auto simp: on_disk_def)
qed

text \<open>A request without a condition on what it returns.\<close>

abbreviation keeps_inv :: "(('d, 's) rworld \<Rightarrow> bool) \<Rightarrow> ('d, 's, 'a) act \<Rightarrow> bool" where
  "keeps_inv I m \<equiv> triple I (\<lambda>_. True) m (\<lambda>_ _. True)"

lemma inv_return [triples]: "keeps_inv I (a_return a)"
  by (rule triple_return) simp

lemma inv_bind [triples]: "keeps_inv I m \<Longrightarrow> (\<And>a. keeps_inv I (f a)) \<Longrightarrow> keeps_inv I (a_bind m f)"
  by (rule triple_bind)

lemma inv_then [triples]: "keeps_inv I m \<Longrightarrow> keeps_inv I k \<Longrightarrow> keeps_inv I (a_then m k)"
  by (rule triple_then)

lemma keeps_require [triples]: "keeps_inv I (require b n t)"
  by (auto simp: require_def triple_def a_return_def a_fail_def)

lemma keeps_demand [triples]: "keeps_inv I (demand v)"
  by (auto simp: demand_def triple_def a_return_def a_crash_def split: option.split)

lemma keeps_from_disk [triples]: "keeps_inv I (from_disk f)"
  by (rule triple_from_disk) simp

lemma keeps_parse [triples]: "keeps_inv I (parse_object lib s)"
  by (auto simp: parse_object_def triple_def a_return_def a_fail_def split: option.split)

lemma keeps_number [triples]: "keeps_inv I (number_of s)"
  by (auto simp: number_of_def triple_def a_return_def a_fail_def)

end
