(* ===== verification/Avatar_Image.thy ===== *)
theory Avatar_Image
  imports Resource_Act
begin

text \<open>
  The images of \<^verbatim>\<open>servers/resource/Avatar.cpp\<close>: \<^verbatim>\<open>decode\<close> with its scan of the PNG chunks,
  and \<^verbatim>\<open>thumbnail\<close>, which averages the pixels of the central square. libpng and libjpeg-turbo are the
  argument \<open>codec\<close>; what they write goes into a buffer of a size that the code chooses. An access outside
  of the buffer is \<^const>\<open>None\<close>.
\<close>

record image =
  im_width :: nat
  im_height :: nat
  im_rgb :: "byte list"

record codec =
  png_begin :: "byte list \<Rightarrow> (nat \<times> nat) option"
  png_finish :: "byte list \<Rightarrow> byte list option"
  png_write :: "nat \<Rightarrow> byte list \<Rightarrow> byte list option"
  jpeg_init :: bool
  jpeg_header :: "byte list \<Rightarrow> (int \<times> int) option"
  jpeg_pixels :: "byte list \<Rightarrow> byte list option"

definition png_signature :: "byte list" where
  "png_signature = [137, 80, 78, 71, 13, 10, 26, 10]"

definition chunk_length :: "byte list \<Rightarrow> nat" where
  "chunk_length b = unat (b ! 0) * 2 ^ 24 + unat (b ! 1) * 2 ^ 16 + unat (b ! 2) * 2 ^ 8 + unat (b ! 3)"

function scan_png :: "byte list \<Rightarrow> nat \<Rightarrow> (nat \<times> string) option" where
  "scan_png bytes pos =
     (if pos + 12 \<le> length bytes then
        let n = chunk_length (drop pos bytes) in
        if \<not> n \<le> length bytes - pos - 12 then Some (422, ''invalid PNG chunk'')
        else if take 4 (drop (pos + 4) bytes) = map of_char ''acTL'' then Some (415, ''animated PNG unsupported'')
        else scan_png bytes (pos + (n + 12))
      else None)"
  by pat_completeness auto
termination
  by (relation "measure (\<lambda>(bytes, pos). length bytes + 1 - pos)") auto

declare scan_png.simps [simp del]

text \<open>\<^verbatim>\<open>rgb.resize\<close> followed by a decoder that writes into the buffer.\<close>

definition buffer :: "nat \<Rightarrow> byte list \<Rightarrow> byte list" where
  "buffer n written = take n (written @ replicate n 0)"

definition decode_png :: "codec \<Rightarrow> byte list \<Rightarrow> image answer" where
  "decode_png c bytes =
     (case scan_png bytes 8 of
        Some (status, message) \<Rightarrow> Failed status message None
      | None \<Rightarrow>
          (case png_begin c bytes of
             None \<Rightarrow> Failed 422 ''invalid PNG'' None
           | Some (w, h) \<Rightarrow>
               if w = 0 \<or> h = 0 \<or> w * h > 16000000 then Failed 413 ''avatar pixel limit'' None
               else (case png_finish c bytes of
                       None \<Rightarrow> Failed 422 ''invalid PNG pixels'' None
                     | Some written \<Rightarrow> Ok \<lparr>im_width = w, im_height = h, im_rgb = buffer (w * h * 3) written\<rparr>)))"

definition decode_jpeg :: "codec \<Rightarrow> byte list \<Rightarrow> image answer" where
  "decode_jpeg c bytes =
     (if \<not> jpeg_init c then Failed 503 ''JPEG decoder unavailable'' None
      else case jpeg_header c bytes of
        None \<Rightarrow> Failed 422 ''invalid JPEG or pixel limit exceeded'' None
      | Some (w, h) \<Rightarrow>
          if w \<le> 0 \<or> h \<le> 0 \<or> nat w * nat h > 16000000 then Failed 422 ''invalid JPEG or pixel limit exceeded'' None
          else (case jpeg_pixels c bytes of
                  None \<Rightarrow> Failed 422 ''invalid JPEG pixels'' None
                | Some written \<Rightarrow> Ok \<lparr>im_width = nat w, im_height = nat h, im_rgb = buffer (nat w * nat h * 3) written\<rparr>))"

definition decode_image :: "codec \<Rightarrow> byte list \<Rightarrow> image answer" where
  "decode_image c bytes =
     (if length bytes \<ge> 8 \<and> take 8 bytes = png_signature then decode_png c bytes
      else if length bytes \<ge> 2 \<and> bytes ! 0 = 255 \<and> bytes ! 1 = 216 then decode_jpeg c bytes
      else Failed 415 ''JPEG or PNG required'' None)"

text \<open>The cell of the square that becomes one pixel of the thumbnail: from \<open>x0\<close> up to \<open>x1\<close>.\<close>

definition cell :: "nat \<Rightarrow> nat \<Rightarrow> nat \<Rightarrow> nat \<Rightarrow> nat \<times> nat" where
  "cell start side n x =
     (let x0 = start + x * side div n; x1 = start + (x + 1) * side div n in (x0, max x1 (x0 + 1)))"

definition channel :: "image \<Rightarrow> nat \<Rightarrow> nat \<Rightarrow> nat \<Rightarrow> byte option" where
  "channel im yy xx k = (let i = (yy * im_width im + xx) * 3 + k in if i < length (im_rgb im) then Some (im_rgb im ! i) else None)"

definition average :: "image \<Rightarrow> nat \<times> nat \<Rightarrow> nat \<times> nat \<Rightarrow> nat \<Rightarrow> byte option" where
  "average im ys xs k =
     map_option (\<lambda>bs. word_of_nat (sum_list (map unat bs) div ((snd xs - fst xs) * (snd ys - fst ys))))
       (those (concat (map (\<lambda>yy. map (\<lambda>xx. channel im yy xx k) [fst xs..<snd xs]) [fst ys..<snd ys])))"

definition thumbnail_pixels :: "image \<Rightarrow> nat \<Rightarrow> byte list option" where
  "thumbnail_pixels im n =
     (let side = min (im_width im) (im_height im); left = (im_width im - side) div 2; top = (im_height im - side) div 2 in
      those (concat (map (\<lambda>y. concat (map (\<lambda>x. map (average im (cell top side n y) (cell left side n x)) [0..<3]) [0..<n])) [0..<n])))"

definition thumbnail :: "codec \<Rightarrow> image \<Rightarrow> nat \<Rightarrow> byte list answer" where
  "thumbnail c im n =
     (case thumbnail_pixels im n of
        None \<Rightarrow> Crashed
      | Some pixels \<Rightarrow> (case png_write c n pixels of None \<Rightarrow> Failed 503 ''PNG encoding failed'' None | Some out \<Rightarrow> Ok out))"

section \<open>Bounds\<close>

definition image_ok :: "image \<Rightarrow> bool" where
  "image_ok im \<longleftrightarrow> 0 < im_width im \<and> 0 < im_height im \<and> im_width im * im_height im \<le> 16000000
     \<and> length (im_rgb im) = im_width im * im_height im * 3"

lemma length_buffer [simp]: "length (buffer n written) = n"
  by (simp add: buffer_def)

lemma decode_image_ok: "decode_image c bytes = Ok im \<Longrightarrow> image_ok im"
  by (auto simp: decode_image_def decode_png_def decode_jpeg_def image_ok_def split: if_splits option.splits)

lemma cell_bounds:
  assumes "x < n" and "0 < side"
  shows "start \<le> fst (cell start side n x)" "fst (cell start side n x) < snd (cell start side n x)"
    "snd (cell start side n x) \<le> start + side"
proof -
  have "(x + 1) * side div n \<le> side"
    using div_le_mono [of "(x + 1) * side" "n * side" n] mult_le_mono1 [of "x + 1" n side] assms(1) by simp
  moreover have "x * side div n < side"
    using assms by (simp add: less_mult_imp_div_less mult.commute)
  ultimately show "start \<le> fst (cell start side n x)" "fst (cell start side n x) < snd (cell start side n x)"
    "snd (cell start side n x) \<le> start + side"
    by (auto simp: cell_def Let_def)
qed

lemma those_map_Some: "\<forall>x \<in> set xs. f x \<noteq> None \<Longrightarrow> those (map f xs) = Some (map (the \<circ> f) xs)"
  by (induction xs) auto

lemma those_all: "\<forall>x \<in> set xs. x \<noteq> None \<Longrightarrow> those xs = Some (map the xs)"
  using those_map_Some [of xs "\<lambda>x. x"] by (simp add: comp_def)

lemma channel_in_range:
  assumes "yy < im_height im" and "xx < im_width im" and "k < 3" and "length (im_rgb im) = im_width im * im_height im * 3"
  shows "channel im yy xx k = Some (im_rgb im ! ((yy * im_width im + xx) * 3 + k))"
    "(yy * im_width im + xx) * 3 + k < length (im_rgb im)"
proof -
  have "yy * im_width im + xx + 1 \<le> (yy + 1) * im_width im"
    using assms(2) by simp
  also have "\<dots> \<le> im_height im * im_width im"
    using assms(1) by (intro mult_right_mono) auto
  finally show "(yy * im_width im + xx) * 3 + k < length (im_rgb im)"
    using assms(3,4) by (simp add: mult.commute)
  then show "channel im yy xx k = Some (im_rgb im ! ((yy * im_width im + xx) * 3 + k))"
    by (simp add: channel_def Let_def)
qed

lemma mean_between:
  fixes bs :: "byte list"
  assumes "bs \<noteq> []" and "\<forall>b \<in> set bs. lo \<le> unat b \<and> unat b \<le> hi" and "hi < 256"
  shows "lo \<le> unat (word_of_nat (sum_list (map unat bs) div length bs) :: byte)"
    "unat (word_of_nat (sum_list (map unat bs) div length bs) :: byte) \<le> hi"
proof -
  have "lo * length bs \<le> sum_list (map unat bs) \<and> sum_list (map unat bs) \<le> hi * length bs"
    using assms(2) by (induction bs) (auto simp: algebra_simps)
  then have "lo \<le> sum_list (map unat bs) div length bs" "sum_list (map unat bs) div length bs \<le> hi"
    using assms(1) div_le_mono [of _ "hi * length bs" "length bs"] by (simp_all add: less_eq_div_iff_mult_less_eq)
  then show "lo \<le> unat (word_of_nat (sum_list (map unat bs) div length bs) :: byte)"
    "unat (word_of_nat (sum_list (map unat bs) div length bs) :: byte) \<le> hi"
    using assms(3) by (simp_all add: unat_of_nat)
qed

lemma length_concat_const: "\<forall>x \<in> set xs. length x = n \<Longrightarrow> length (concat xs) = length xs * n"
  by (induction xs) auto

lemma average_in_range:
  assumes "snd ys \<le> im_height im" and "snd xs \<le> im_width im" and "fst ys < snd ys" and "fst xs < snd xs" and "k < 3"
    and "length (im_rgb im) = im_width im * im_height im * 3"
    and "\<forall>b \<in> set (im_rgb im). lo \<le> unat b \<and> unat b \<le> hi" and "hi < 256"
  shows "\<exists>v. average im ys xs k = Some v \<and> lo \<le> unat v \<and> unat v \<le> hi"
proof -
  define cs where "cs = concat (map (\<lambda>yy. map (\<lambda>xx. channel im yy xx k) [fst xs..<snd xs]) [fst ys..<snd ys])"
  have read: "\<exists>b. c = Some b \<and> lo \<le> unat b \<and> unat b \<le> hi" if "c \<in> set cs" for c
    using that assms(1,2,5,7) channel_in_range [OF _ _ assms(5,6)] by (fastforce simp: cs_def)
  then have all: "those cs = Some (map the cs)"
    by (intro those_all) auto
  have len: "length cs = (snd xs - fst xs) * (snd ys - fst ys)"
    unfolding cs_def using length_concat_const [of "map (\<lambda>yy. map (\<lambda>xx. channel im yy xx k) [fst xs..<snd xs]) [fst ys..<snd ys]" "snd xs - fst xs"]
    by (simp add: mult.commute)
  have "map the cs \<noteq> []"
    using len assms(3,4) by (metis length_map list.size(3) mult_is_0 not_less zero_less_diff less_irrefl)
  moreover have "\<forall>b \<in> set (map the cs). lo \<le> unat b \<and> unat b \<le> hi"
    using read by fastforce
  ultimately show ?thesis
    using mean_between [of "map the cs" lo hi] assms(8) all len by (simp add: average_def cs_def [symmetric])
qed

lemma small_image:
  assumes "image_ok im"
  shows "n \<le> 256 \<Longrightarrow> n * min (im_width im) (im_height im) < 2 ^ 31" "length (im_rgb im) < 2 ^ 31"
proof -
  define m where "m = min (im_width im) (im_height im)"
  have "m * m \<le> im_width im * im_height im"
    by (intro mult_le_mono) (auto simp: m_def)
  then have "m * m \<le> 16000000"
    using assms by (simp add: image_ok_def)
  then have "m \<le> 4000"
    using mult_le_mono [of 4001 m 4001 m] by (cases "m \<le> 4000") simp_all
  then show "n * min (im_width im) (im_height im) < 2 ^ 31" if "n \<le> 256"
    using mult_le_mono [OF that, of m 4000] by (simp add: m_def)
  show "length (im_rgb im) < 2 ^ 31"
    using assms by (simp add: image_ok_def)
qed

text \<open>
  A thumbnail never reads outside of the decoded image. For every input that is decoded
  and every size, each of the three channels of each of the pixels is computed, it is a mean of values of
  the image and so lies between their bounds, and the answer is the encoded picture or the encoder's failure. For the
  sizes in use the products and indices of the computation fit into 31 bits.
\<close>

lemma thumbnail_in_bounds:
  assumes "decode_image c bytes = Ok im" and "\<forall>b \<in> set (im_rgb im). lo \<le> unat b \<and> unat b \<le> hi" and "hi < 256"
  shows "\<exists>px. thumbnail_pixels im n = Some px \<and> length px = n * n * 3 \<and> (\<forall>b \<in> set px. lo \<le> unat b \<and> unat b \<le> hi)
    \<and> thumbnail c im n = (case png_write c n px of None \<Rightarrow> Failed 503 ''PNG encoding failed'' None | Some out \<Rightarrow> Ok out)
    \<and> (n \<le> 256 \<longrightarrow> n * min (im_width im) (im_height im) < 2 ^ 31) \<and> length (im_rgb im) < 2 ^ 31"
proof -
  define side where "side = min (im_width im) (im_height im)"
  define left where "left = (im_width im - side) div 2"
  define top where "top = (im_height im - side) div 2"
  define row where "row y = concat (map (\<lambda>x. map (average im (cell top side n y) (cell left side n x)) [0..<3]) [0..<n])" for y
  have im: "0 < side" "left + side \<le> im_width im" "top + side \<le> im_height im" "length (im_rgb im) = im_width im * im_height im * 3"
    using decode_image_ok [OF assms(1)] by (auto simp: image_ok_def side_def left_def top_def)
  have avg: "\<exists>v. average im (cell top side n y) (cell left side n x) k = Some v \<and> lo \<le> unat v \<and> unat v \<le> hi"
    if "y < n" "x < n" "k < 3" for x y k
    using cell_bounds [OF that(1) im(1), of top] cell_bounds [OF that(2) im(1), of left] im(2,3)
    by (intro average_in_range [OF _ _ _ _ that(3) im(4) assms(2,3)]) auto
  define ps where "ps = concat (map row [0..<n])"
  have ps: "\<exists>v. p = Some v \<and> lo \<le> unat v \<and> unat v \<le> hi" if "p \<in> set ps" for p
    using that avg by (fastforce simp: ps_def row_def)
  have "\<forall>r \<in> set (map row [0..<n]). length r = n * 3"
    unfolding row_def using length_concat_const [of "map (\<lambda>x. map (average im _ (cell left side n x)) [0..<3]) [0..<n]" 3] by auto
  then have len: "length ps = n * n * 3"
    unfolding ps_def by (subst length_concat_const [of _ "n * 3"]) simp_all
  have "thumbnail_pixels im n = those ps"
    by (simp only: thumbnail_pixels_def Let_def side_def left_def top_def ps_def row_def [abs_def])
  moreover have "\<forall>p \<in> set ps. p \<noteq> None"
    using ps by blast
  ultimately have px: "thumbnail_pixels im n = Some (map the ps)"
    by (simp only: those_all)
  have mean: "\<forall>b \<in> set (map the ps). lo \<le> unat b \<and> unat b \<le> hi"
    using ps by fastforce
  show ?thesis
    using px len mean small_image [OF decode_image_ok [OF assms(1)]]
    by (intro exI [of _ "map the ps"] conjI impI) (simp_all add: thumbnail_def)
qed

definition sample_codec :: codec where
  "sample_codec = \<lparr>png_begin = (\<lambda>_. None), png_finish = (\<lambda>_. None), png_write = (\<lambda>n px. Some (take 4 px)), jpeg_init = True,
     jpeg_header = (\<lambda>_. Some (3, 2)), jpeg_pixels = (\<lambda>_. Some (replicate 18 7))\<rparr>"

lemma thumbnail_example:
  "\<exists>im px. decode_image sample_codec [255, 216, 1] = Ok im \<and> thumbnail_pixels im 64 = Some px \<and> length px = 12288
    \<and> (\<forall>b \<in> set px. unat b = 7) \<and> thumbnail sample_codec im 64 = Ok (take 4 px)"
proof -
  let ?im = "\<lparr>im_width = 3, im_height = 2, im_rgb = replicate 18 7\<rparr>"
  have d: "decode_image sample_codec [255, 216, 1] = Ok ?im"
    by (simp add: decode_image_def decode_jpeg_def sample_codec_def buffer_def)
  show ?thesis
    using thumbnail_in_bounds [OF d, of 7 7 64] d
    by (intro exI [of _ ?im]) (auto simp: sample_codec_def [THEN arg_cong [of _ _ png_write]] intro!: antisym)
qed

end
