(* ===== verification/Resource_Service.thy ===== *)
theory Resource_Service
  imports Avatar_Image Internal_Rpc Url_Codec
begin

text \<open>
  The resource server, \<^verbatim>\<open>servers/resource/ResourceService.cpp\<close> and the method
  \<^verbatim>\<open>avatar\<close> of \<^verbatim>\<open>Avatar.cpp\<close>, over the tables of
  \<^verbatim>\<open>database/migrations/002_resources.sql\<close> and the encrypted store. The lock of an operation
  (\<^verbatim>\<open>common/ResourceLock.h\<close>) makes the operations on one resource follow each other; here it is the
  question whether the lock was obtained. What a request meets (the state of the connection, the time, the
  random values, the writes that are torn, the peers that answer) is the record \<open>resource_call\<close>; what
  is configured or is a library is the record \<open>resource_env\<close>: the collation of the database, the
  text of a JSON column when it is read back, libsodium, the image codecs, the JSON reader and writer of
  \<^verbatim>\<open>ResourceSupport.h\<close>, Redis.
\<close>

section \<open>Tables\<close>

record resource_row = transfer_row +
  t_key :: "string option"

record outbox_row =
  o_id :: nat
  o_key :: string
  o_kind :: string
  o_payload :: string
  o_attempts :: nat
  o_next :: time
  o_delivered :: "time option"

record profile_row =
  p_uid :: int
  p_avatar :: "string option"
  p_version :: "64 word"

record avatar_row =
  av_id :: string
  av_owner :: int
  av_variants :: string
  av_expires :: "time option"

record resource_db =
  profiles :: "profile_row list"
  friendships :: "(int \<times> int) list"
  files :: "resource_row list"
  outbox :: "outbox_row list"
  next_outbox :: nat
  avatars :: "avatar_row list"

record variant_call =
  vc_uuid :: string
  vc_prefix :: "byte list"
  vc_create :: "nat option"
  vc_append :: "nat option list"

record resource_call =
  rc_sql :: sql_env
  rc_lock :: "string \<Rightarrow> bool"
  rc_uuid :: string
  rc_prefix :: "byte list"
  rc_create :: "nat option"
  rc_append :: "nat option list"
  rc_variant :: "nat \<Rightarrow> variant_call"
  rc_peer :: "nat \<Rightarrow> bool option"

record 's resource_env =
  re_collation :: "string \<Rightarrow> string"
  re_found :: bool
  re_column :: "string \<Rightarrow> string option"
  re_crypto :: crypto
  re_codec :: codec
  re_lib :: json_lib
  re_redis :: "'s redis_link"
  re_digest :: "string \<Rightarrow> string"
  re_peers :: "string list"
  re_peer_token :: string

type_synonym ('s, 'a) ract = "(resource_db, 's, 'a) act"

section \<open>Helpers\<close>

text \<open>\<^verbatim>\<open>validId\<close>: a UUID in lower case.\<close>

definition id_char :: "nat \<Rightarrow> char \<Rightarrow> bool" where
  "id_char i c = (if i = 8 \<or> i = 13 \<or> i = 18 \<or> i = 23 then c = CHR ''-'' else c \<in> set ''0123456789abcdef'')"

definition validId :: "string \<Rightarrow> bool" where
  "validId i \<longleftrightarrow> length i = 36 \<and> list_all (\<lambda>k. id_char k (i ! k)) [0..<36]"

text \<open>\<^verbatim>\<open>ResourceLock\<close>: an identifier that is not valid and a lock that is not obtained throw.\<close>

definition ResourceLock :: "resource_call \<Rightarrow> string \<Rightarrow> ('s, unit) ract" where
  "ResourceLock q i = (if validId i \<and> rc_lock q i then a_return () else a_crash)"

text \<open>\<^verbatim>\<open>Database::lease\<close>.\<close>

definition lease :: "resource_call \<Rightarrow> ('s, 'a) ract \<Rightarrow> ('s, 'a) ract" where
  "lease q body = a_then (require (available (rc_sql q)) 503 ''database unavailable'') body"

definition update_files :: "bool \<Rightarrow> (resource_row \<Rightarrow> bool) \<Rightarrow> (resource_row \<Rightarrow> resource_row) \<Rightarrow> resource_db \<Rightarrow> (nat \<times> resource_db) option" where
  "update_files found P f d =
     Some (length (filter (\<lambda>r. P r \<and> (found \<or> f r \<noteq> r)) (files d)), d\<lparr>files := map (\<lambda>r. if P r then f r else r) (files d)\<rparr>)"

text \<open>A row as it is read, with the question whether it has expired.\<close>

definition file_of :: "'s resource_env \<Rightarrow> resource_call \<Rightarrow> string \<Rightarrow> ('s, resource_row \<times> bool) ract" where
  "file_of E q i =
     a_then (require (validId i) 400 ''invalid resource id'')
       (a_bind (sql (select (\<lambda>d. find (\<lambda>r. re_collation E (t_id r) = re_collation E i) (files d)))) (\<lambda>row.
          case row of
            None \<Rightarrow> a_fail 404 ''resource not found''
          | Some r \<Rightarrow> a_return (r, t_expires r \<le> sql_now (rc_sql q))))"

definition u64 :: "64 word \<Rightarrow> json" where
  "u64 n = JInt (uint n)"

definition file_json :: "string \<Rightarrow> resource_row \<times> bool \<Rightarrow> json" where
  "file_json i f =
     (case f of (r, expired) \<Rightarrow>
       JObj [(''id'', JStr i), (''fromuid'', JInt (t_sender r)), (''touid'', JInt (t_receiver r)), (''name'', JStr (t_name r)),
             (''mime'', JStr (t_mime r)), (''sha256'', JStr (t_sha256 r)), (''status'', JStr (t_status r)),
             (''total_size'', u64 (t_total r)), (''offset'', u64 (t_uploaded r)), (''expired'', JBool expired), (''error'', JInt 0)])"

section \<open>Creating an upload\<close>

fun isUInt64 :: "json \<Rightarrow> bool" where
  "isUInt64 (JInt i) = (0 \<le> i \<and> i < 2 ^ 64)"
| "isUInt64 (JReal r) = (r \<in> \<int> \<and> 0 \<le> r \<and> r < 2 ^ 64)"
| "isUInt64 _ = False"

fun uint64_val :: "json \<Rightarrow> 64 word" where
  "uint64_val (JInt i) = word_of_int i"
| "uint64_val (JReal r) = word_of_int \<lfloor>r\<rfloor>"
| "uint64_val _ = 0"

definition good_name :: "string \<Rightarrow> bool" where
  "good_name name \<longleftrightarrow> name \<noteq> [] \<and> length name \<le> 255 \<and> list_all (\<lambda>c. c \<notin> {CHR ''/'', CHR 0x5C, CHR 0x0D, CHR 0x0A}) name
     \<and> CHR 0x00 \<notin> set name \<and> name \<noteq> ''.'' \<and> name \<noteq> ''..''"

definition good_metadata :: "string \<Rightarrow> string \<Rightarrow> string \<Rightarrow> bool" where
  "good_metadata digest key mime \<longleftrightarrow> length digest = 64 \<and> list_all (\<lambda>c. c \<in> set ''0123456789abcdef'') digest
     \<and> key \<noteq> [] \<and> length key \<le> 128 \<and> length mime \<le> 128"

definition resource_usage :: "time \<Rightarrow> int \<Rightarrow> resource_db \<Rightarrow> nat \<times> nat" where
  "resource_usage now uid d =
     (let rows = filter (\<lambda>r. t_sender r = uid \<and> t_expires r > now \<and> t_status r \<in> {''uploading'', ''available'', ''downloaded''}) (files d)
      in (length rows, sum_list (map (\<lambda>r. unat (t_total r)) rows)))"

definition insert_file ::
    "(string \<Rightarrow> string) \<Rightarrow> resource_row \<Rightarrow> resource_db \<Rightarrow> (unit \<times> resource_db) option" where
  "insert_file ck r d =
     (if list_ex (\<lambda>x. ck (t_id x) = ck (t_id r)
           \<or> t_sender x = t_sender r \<and> map_option ck (t_key x) = map_option ck (t_key r) \<and> t_key r \<noteq> None) (files d)
         \<or> \<not> list_ex (\<lambda>p. p_uid p = t_sender r) (profiles d) \<or> \<not> list_ex (\<lambda>p. p_uid p = t_receiver r) (profiles d)
      then None
      else Some ((), d\<lparr>files := files d @ [r]\<rparr>))"

definition new_file :: "time \<Rightarrow> string \<Rightarrow> int \<Rightarrow> int \<Rightarrow> string \<Rightarrow> string \<Rightarrow> 64 word \<Rightarrow> string \<Rightarrow> string \<Rightarrow> resource_row" where
  "new_file now i uid touid name mime total_bytes digest key =
     \<lparr>t_id = i, t_sender = uid, t_receiver = touid, t_name = name, t_mime = mime, t_total = total_bytes, t_uploaded = 0, t_sha256 = digest,
      t_status = ''uploading'', t_created = now, t_completed = None, t_downloaded = None, t_expires = now + days 7, t_key = Some key\<rparr>"

text \<open>What becomes of the next write.\<close>

definition first_torn :: "nat option list \<Rightarrow> nat option" where
  "first_torn fs = (case fs of [] \<Rightarrow> None | f # _ \<Rightarrow> f)"

definition create_new ::
    "'s resource_env \<Rightarrow> resource_call \<Rightarrow> int \<Rightarrow> int \<Rightarrow> string \<Rightarrow> string \<Rightarrow> 64 word \<Rightarrow> string \<Rightarrow> string \<Rightarrow> ('s, json) ract" where
  "create_new E q uid touid name mime total_bytes digest key =
     a_bind (sql (select (\<lambda>d. (uid, touid) \<in> set (friendships d)))) (\<lambda>friendship.
     a_then (require friendship 403 ''recipient must be a friend'')
    (a_bind (sql (select (resource_usage (sql_now (rc_sql q)) uid))) (\<lambda>(n, bytes).
     a_then (require (n < 16 \<and> (word_of_nat bytes :: 64 word) + total_bytes \<le> 1024 * 1024 * 1024) 429 ''attachment quota exceeded'')
    (a_then (ResourceLock q (rc_uuid q))
    (a_then (on_disk (create (rc_prefix q) (rc_create q) (rc_uuid q)))
    (a_then (sql (statement (insert_file (re_collation E) (new_file (sql_now (rc_sql q)) (rc_uuid q) uid touid name mime total_bytes digest key))))
    (a_then tx_commit
    (a_bind (file_of E q (rc_uuid q)) (\<lambda>f. a_return (file_json (rc_uuid q) f))))))))))"

definition create_or_resume ::
    "'s resource_env \<Rightarrow> resource_call \<Rightarrow> int \<Rightarrow> json \<Rightarrow> string \<Rightarrow> string \<Rightarrow> 64 word \<Rightarrow> string \<Rightarrow> string \<Rightarrow> ('s, json) ract" where
  "create_or_resume E q uid v name mime total_bytes digest key =
     a_bind (sql (select (\<lambda>d. list_ex (\<lambda>p. p_uid p = uid) (profiles d)))) (\<lambda>user.
     a_then (require user 403 ''unknown user'')
    (a_bind (sql (select (\<lambda>d. find (\<lambda>r. t_sender r = uid \<and> map_option (re_collation E) (t_key r) = Some (re_collation E key)) (files d)))) (\<lambda>old.
     case old of
       Some prior \<Rightarrow>
         a_bind (file_of E q (t_id prior)) (\<lambda>(r, expired).
         a_then (require (JInt (t_receiver r) = field ''touid'' v \<and> t_name r = name \<and> t_sha256 r = digest \<and> t_total r = total_bytes \<and> t_mime r = mime)
                   409 ''idempotency conflict'')
        (a_then (require (\<not> expired \<and> t_status r \<noteq> ''cancelled'') 410 ''upload expired'')
        (a_then tx_commit (a_return (file_json (t_id prior) (r, expired))))))
     | None \<Rightarrow> create_new E q uid (int_val (field ''touid'' v)) name mime total_bytes digest key)))"

definition create_upload :: "'s resource_env \<Rightarrow> resource_call \<Rightarrow> int \<Rightarrow> json \<Rightarrow> ('s, json) ract" where
  "create_upload E q uid v =
     a_then (require (isInt (field ''touid'' v) \<and> isUInt64 (field ''total_size'' v) \<and> isString (field ''name'' v)
                \<and> isString (field ''sha256'' v) \<and> isString (field ''idempotency_key'' v)) 400 ''missing upload metadata'')
    (a_bind (demand (if isMember ''mime'' v then asString (re_lib E) (field ''mime'' v) else Some ''application/octet-stream'')) (\<lambda>mime.
     let name = str_val (field ''name'' v); digest = str_val (field ''sha256'' v); key = str_val (field ''idempotency_key'' v);
         total_bytes = uint64_val (field ''total_size'' v)
     in a_then (require (good_name name) 400 ''invalid filename'')
       (a_then (require (good_metadata digest key mime) 400 ''invalid upload metadata'')
       (a_then (require (total_bytes \<le> MaxFileBytes) 413 ''file exceeds 100 MiB'')
       (lease q (Transaction (create_or_resume E q uid v name mime total_bytes digest key)))))))"

section \<open>Uploading\<close>

function parts :: "nat \<Rightarrow> 'a list \<Rightarrow> 'a list list" where
  "parts n bytes = (if n = 0 \<or> bytes = [] then [] else take n bytes # parts n (drop n bytes))"
  by pat_completeness auto
termination
  by (relation "measure (\<lambda>(n, bs). length bs)") auto

declare parts.simps [simp del]

definition confirm :: "'s resource_env \<Rightarrow> resource_call \<Rightarrow> string \<Rightarrow> 64 word \<Rightarrow> 64 word \<Rightarrow> ('s, unit) ract" where
  "confirm E q i confirmed next_offset =
     a_bind (sql (statement (update_files (re_found E)
         (\<lambda>r. re_collation E (t_id r) = re_collation E i \<and> t_uploaded r = confirmed \<and> t_status r = ''uploading''
              \<and> t_expires r > sql_now (rc_sql q))
         (\<lambda>r. r\<lparr>t_uploaded := next_offset\<rparr>)))) (\<lambda>n.
       require (n = 1) 503 ''offset commit uncertain; query upload state'')"

fun chunk_loop ::
    "'s resource_env \<Rightarrow> resource_call \<Rightarrow> string \<Rightarrow> 64 word \<Rightarrow> 64 word \<Rightarrow> nat option list \<Rightarrow> byte list list \<Rightarrow> ('s, 64 word) ract" where
  "chunk_loop E q i offset confirmed torn [] = a_return confirmed"
| "chunk_loop E q i offset confirmed torn (part # rest) =
     (if offset < confirmed then
        a_bind (from_disk (read (re_crypto E) i (unat offset) (length part))) (\<lambda>previous.
        a_then (require (previous = part) 409 ''immutable chunk conflict'')
          (chunk_loop E q i (offset + word_of_nat (length part)) confirmed torn rest))
      else
        (\<lambda>w. case append_file (re_crypto E) (first_torn torn) i (unat offset) part (rdisk w) of
               (Throws, k) \<Rightarrow> (Failed 409 ''conflicting or damaged ciphertext; start a new upload'' None, w\<lparr>rdisk := k\<rparr>)
             | (Returns n, k) \<Rightarrow>
                 a_then (confirm E q i confirmed (word_of_nat n))
                   (chunk_loop E q i (offset + word_of_nat (length part)) (word_of_nat n) (tl torn) rest) (w\<lparr>rdisk := k\<rparr>)))"

definition chunk :: "'s resource_env \<Rightarrow> resource_call \<Rightarrow> int \<Rightarrow> string \<Rightarrow> 64 word \<Rightarrow> string \<Rightarrow> ('s, json) ract" where
  "chunk E q uid i offset bytes =
     a_then (require (bytes \<noteq> [] \<and> length bytes \<le> 256 * 1024 \<and> unat offset mod PlainChunkBytes = 0) 400 ''invalid chunk'')
    (a_then (ResourceLock q i)
    (lease q (a_bind (file_of E q i) (\<lambda>(r, expired).
     a_then (require (t_sender r = uid) 403 ''upload owner required'')
    (a_then (require (\<not> expired \<and> t_status r = ''uploading'') 410 ''upload unavailable'')
    (a_then (require (offset \<le> t_total r \<and> word_of_nat (length bytes) \<le> t_total r - offset
               \<and> (length bytes mod PlainChunkBytes = 0 \<or> offset + word_of_nat (length bytes) = t_total r)) 400 ''invalid chunk length'')
    (if offset > t_uploaded r then (\<lambda>w. (Failed 409 ''offset conflict'' (Some (JObj [(''offset'', u64 (t_uploaded r))])), w))
     else a_bind (chunk_loop E q i offset (t_uploaded r) (rc_append q) (parts PlainChunkBytes (map of_char bytes))) (\<lambda>confirmed.
       a_return (file_json i (r\<lparr>t_uploaded := confirmed\<rparr>, expired))))))))))"

section \<open>Completing\<close>

definition insert_event ::
    "(string \<Rightarrow> string) \<Rightarrow> (string \<Rightarrow> string option) \<Rightarrow> time \<Rightarrow> string \<Rightarrow> string \<Rightarrow> string \<Rightarrow> resource_db \<Rightarrow> (unit \<times> resource_db) option" where
  "insert_event ck column now key kind payload d =
     (case column payload of
        None \<Rightarrow> None
      | Some stored \<Rightarrow>
          if list_ex (\<lambda>e. ck (o_key e) = ck key) (outbox d) then Some ((), d)
          else Some ((), d\<lparr>outbox := outbox d @ [\<lparr>o_id = next_outbox d, o_key = key, o_kind = kind, o_payload = stored, o_attempts = 0,
                 o_next = now, o_delivered = None\<rparr>], next_outbox := next_outbox d + 1\<rparr>))"

definition notify :: "'s resource_env \<Rightarrow> resource_call \<Rightarrow> string \<Rightarrow> string \<Rightarrow> json \<Rightarrow> ('s, unit) ract" where
  "notify E q key kind v =
     sql (statement (insert_event (re_collation E) (re_column E) (sql_now (rc_sql q)) key kind (toStyledString (re_lib E) v)))"

definition publish :: "'s resource_env \<Rightarrow> resource_call \<Rightarrow> string \<Rightarrow> resource_row \<times> bool \<Rightarrow> ('s, json) ract" where
  "publish E q i f =
     (let v = file_json i ((fst f)\<lparr>t_status := ''available''\<rparr>, snd f) in
      a_bind (sql (statement (update_files (re_found E)
          (\<lambda>r. re_collation E (t_id r) = re_collation E i \<and> t_status r = ''uploading'')
          (\<lambda>r. r\<lparr>t_status := ''available'', t_completed := Some (sql_now (rc_sql q)), t_expires := sql_now (rc_sql q) + days 7\<rparr>)))) (\<lambda>n.
      a_then (require (n = 1) 409 ''state conflict'')
     (a_then (notify E q (''file:'' @ i) ''file'' v)
     (a_then tx_commit (a_return v)))))"

definition complete :: "'s resource_env \<Rightarrow> resource_call \<Rightarrow> int \<Rightarrow> string \<Rightarrow> ('s, json) ract" where
  "complete E q uid i =
     a_then (ResourceLock q i)
    (lease q (a_bind (file_of E q i) (\<lambda>(r, expired).
     a_then (require (t_sender r = uid) 403 ''upload owner required'')
    (a_then (require (\<not> expired \<and> t_status r \<noteq> ''cancelled'') 410 ''resource expired'')
    (if t_status r = ''available'' \<or> t_status r = ''downloaded'' then a_return (file_json i (r, expired))
     else
       a_then (require (t_uploaded r = t_total r) 409 ''upload incomplete'')
      (a_bind (from_disk (sha256 (re_crypto E) i (unat (t_total r)))) (\<lambda>digest.
       a_then (require (digest = t_sha256 r) 422 ''checksum mismatch'')
         (Transaction (publish E q i (r, expired))))))))))"

section \<open>Avatars\<close>

datatype verb = Get_verb | Post_verb | Put_verb | Delete_verb | Other_verb

record resource_request =
  rq_method :: verb
  rq_target :: string
  rq_authorization :: string
  rq_range :: string
  rq_if_match :: string
  rq_if_none_match :: string
  rq_body :: string

record resource_response =
  rs_status :: nat
  rs_body :: string
  rs_type :: string
  rs_headers :: "(string \<times> string) list"
  rs_stream :: string
  rs_begin :: "64 word"
  rs_length :: "64 word"

definition empty_response :: resource_response where
  "empty_response = \<lparr>rs_status = 200, rs_body = [], rs_type = ''application/json'', rs_headers = [], rs_stream = [], rs_begin = 0, rs_length = 0\<rparr>"

definition result :: "'s resource_env \<Rightarrow> json \<Rightarrow> nat \<Rightarrow> resource_response" where
  "result E v status = empty_response\<lparr>rs_status := status, rs_body := toStyledString (re_lib E) v\<rparr>"

text \<open>The result of a library call that reports its errors.\<close>

definition lift_answer :: "'a answer \<Rightarrow> ('s, 'a) ract" where
  "lift_answer a = (\<lambda>w. (a, w))"

fun append_all :: "crypto \<Rightarrow> nat option list \<Rightarrow> string \<Rightarrow> nat \<Rightarrow> byte list list \<Rightarrow> ('s, unit) ract" where
  "append_all cr torn i pos [] = a_return ()"
| "append_all cr torn i pos (p # ps) =
     a_then (on_disk (append_file cr (first_torn torn) i pos p)) (append_all cr (tl torn) i (pos + length p) ps)"

definition set_variants :: "'s resource_env \<Rightarrow> string \<Rightarrow> json \<Rightarrow> resource_db \<Rightarrow> (unit \<times> resource_db) option" where
  "set_variants E i variants d =
     map_option (\<lambda>stored. ((), d\<lparr>avatars := map (\<lambda>a. if re_collation E (av_id a) = re_collation E i then a\<lparr>av_variants := stored\<rparr> else a) (avatars d)\<rparr>))
       (re_column E (toStyledString (re_lib E) variants))"

definition add_variant :: "nat \<Rightarrow> string \<Rightarrow> nat \<Rightarrow> json \<Rightarrow> json" where
  "add_variant n i bytes variants =
     set_member (to_string (int n)) (JObj [(''id'', JStr i), (''bytes'', u64 (word_of_nat bytes))]) variants"

fun store_variants :: "'s resource_env \<Rightarrow> resource_call \<Rightarrow> string \<Rightarrow> image \<Rightarrow> json \<Rightarrow> nat list \<Rightarrow> ('s, unit) ract" where
  "store_variants E q i im variants [] = a_return ()"
| "store_variants E q i im variants (n # ns) =
     a_bind (lift_answer (thumbnail (re_codec E) im n)) (\<lambda>out.
       let v = rc_variant q n; variants' = add_variant n (vc_uuid v) (length out) variants in
       a_then (sql (statement (set_variants E i variants')))
      (a_then (on_disk (create (vc_prefix v) (vc_create v) (vc_uuid v)))
      (a_then (append_all (re_crypto E) (vc_append v) (vc_uuid v) 0 (parts PlainChunkBytes out))
        (store_variants E q i im variants' ns))))"

definition insert_avatar :: "'s resource_env \<Rightarrow> time \<Rightarrow> string \<Rightarrow> int \<Rightarrow> resource_db \<Rightarrow> (unit \<times> resource_db) option" where
  "insert_avatar E now i uid d =
     (case re_column E ''{}'' of
        None \<Rightarrow> None
      | Some stored \<Rightarrow>
          if list_ex (\<lambda>a. re_collation E (av_id a) = re_collation E i) (avatars d) \<or> \<not> list_ex (\<lambda>p. p_uid p = uid) (profiles d) then None
          else Some ((), d\<lparr>avatars := avatars d @ [\<lparr>av_id = i, av_owner = uid, av_variants = stored, av_expires = Some (now + days 1)\<rparr>]\<rparr>))"

definition update_avatar_row :: "(string \<Rightarrow> string) \<Rightarrow> string \<Rightarrow> time option \<Rightarrow> resource_db \<Rightarrow> (unit \<times> resource_db) option" where
  "update_avatar_row ck i expires d =
     Some ((), d\<lparr>avatars := map (\<lambda>a. if ck (av_id a) = ck i then a\<lparr>av_expires := expires\<rparr> else a) (avatars d)\<rparr>)"

definition set_avatar :: "int \<Rightarrow> string \<Rightarrow> resource_db \<Rightarrow> (unit \<times> resource_db) option" where
  "set_avatar uid i d =
     Some ((), d\<lparr>profiles := map (\<lambda>p. if p_uid p = uid then p\<lparr>p_avatar := Some i, p_version := p_version p + 1\<rparr> else p) (profiles d)\<rparr>)"

definition switch_avatar :: "'s resource_env \<Rightarrow> resource_call \<Rightarrow> int \<Rightarrow> 64 word \<Rightarrow> string \<Rightarrow> ('s, resource_response) ract" where
  "switch_avatar E q uid expected i =
     a_bind (sql (select (\<lambda>d. find (\<lambda>p. p_uid p = uid) (profiles d)))) (\<lambda>row.
       case row of
         None \<Rightarrow> a_fail 403 ''unknown user''
       | Some p \<Rightarrow>
           let old = (case p_avatar p of None \<Rightarrow> [] | Some a \<Rightarrow> a);
               v = JObj [(''uid'', JInt uid), (''avatar_id'', JStr i), (''version'', u64 (expected + 1)), (''error'', JInt 0)] in
           a_then (require (p_version p = expected) 412 ''avatar changed; refresh profile'')
          (a_then (sql (statement (set_avatar uid i)))
          (a_then (sql (statement (update_avatar_row (re_collation E) i None)))
          (a_then (if old \<noteq> [] then sql (statement (update_avatar_row (re_collation E) old (Some (sql_now (rc_sql q) + days 1)))) else a_return ())
          (a_then (notify E q (''avatar:'' @ i) ''avatar'' v)
          (a_then tx_commit (a_return (empty_response\<lparr>rs_body := toStyledString (re_lib E) v\<rparr>))))))))"

definition unquoted :: "string \<Rightarrow> string" where
  "unquoted s = (if length s \<ge> 2 \<and> hd s = CHR 0x22 \<and> last s = CHR 0x22 then take (length s - 2) (tl s) else s)"

definition put_avatar :: "'s resource_env \<Rightarrow> resource_call \<Rightarrow> int \<Rightarrow> resource_request \<Rightarrow> ('s, resource_response) ract" where
  "put_avatar E q uid req =
     a_then (require (rq_body req \<noteq> [] \<and> length (rq_body req) \<le> 5 * 1024 * 1024) 413 ''avatar size limit'')
    (a_then (require (rq_if_match req \<noteq> []) 428 ''If-Match avatar version required'')
    (a_bind (number_of (unquoted (rq_if_match req))) (\<lambda>expected.
     a_bind (lift_answer (decode_image (re_codec E) (map of_char (rq_body req)))) (\<lambda>im.
     a_then (sql (statement (insert_avatar E (sql_now (rc_sql q)) (rc_uuid q) uid)))
    (a_then (ResourceLock q (rc_uuid q))
    (a_then (store_variants E q (rc_uuid q) im JNull [64, 128, 256])
      (Transaction (switch_avatar E q uid expected (rc_uuid q)))))))))"

definition uint64_of :: "json \<Rightarrow> 64 word option" where
  "uint64_of j = (case j of JNull \<Rightarrow> Some 0 | JBool b \<Rightarrow> Some (if b then 1 else 0) | _ \<Rightarrow> if isUInt64 j then Some (uint64_val j) else None)"

definition variant_id :: "json_lib \<Rightarrow> json \<Rightarrow> string option" where
  "variant_id lib v = (if has_members v then asString lib (field ''id'' v) else None)"

fun read_variant :: "'s resource_env \<Rightarrow> string \<Rightarrow> nat list \<Rightarrow> ('s, byte list) ract" where
  "read_variant E i [] = a_return []"
| "read_variant E i (pos # ats) =
     a_bind (from_disk (read (re_crypto E) i pos PlainChunkBytes)) (\<lambda>bytes.
       a_bind (read_variant E i ats) (\<lambda>rest. a_return (bytes @ rest)))"

definition offsets :: "nat \<Rightarrow> nat list" where
  "offsets total_bytes = map (\<lambda>k. k * PlainChunkBytes) [0..<(total_bytes + PlainChunkBytes - 1) div PlainChunkBytes]"

definition send_variant :: "'s resource_env \<Rightarrow> json \<Rightarrow> resource_response \<Rightarrow> ('s, resource_response) ract" where
  "send_variant E variant r =
     a_bind (demand (if has_members variant then uint64_of (field ''bytes'' variant) else None)) (\<lambda>total_bytes.
     a_then (require (total_bytes \<le> 1024 * 1024) 503 ''invalid avatar metadata'')
       (if total_bytes = 0 then a_return r
        else a_bind (demand (variant_id (re_lib E) variant)) (\<lambda>i.
          a_bind (read_variant E i (offsets (unat total_bytes))) (\<lambda>bytes. a_return (r\<lparr>rs_body := map (\<lambda>b. char_of (unat b)) bytes\<rparr>)))))"

definition find_avatar :: "'s resource_env \<Rightarrow> time \<Rightarrow> string \<Rightarrow> resource_db \<Rightarrow> avatar_row option" where
  "find_avatar E now i d =
     find (\<lambda>a. re_collation E (av_id a) = re_collation E i \<and> (case av_expires a of None \<Rightarrow> True | Some t \<Rightarrow> t > now)) (avatars d)"

definition get_avatar :: "'s resource_env \<Rightarrow> resource_call \<Rightarrow> resource_request \<Rightarrow> string \<Rightarrow> string \<Rightarrow> ('s, resource_response) ract" where
  "get_avatar E q req i n =
     a_then (require (validId i \<and> (n = ''64'' \<or> n = ''128'' \<or> n = ''256'')) 400 ''invalid avatar'')
    (a_then (ResourceLock q i)
    (a_bind (sql (select (find_avatar E (sql_now (rc_sql q)) i))) (\<lambda>row.
     case row of
       None \<Rightarrow> a_fail 404 ''avatar not found''
     | Some a \<Rightarrow>
         a_bind (parse_object (re_lib E) (av_variants a)) (\<lambda>variants.
         a_then (require (isMember n variants) 404 ''avatar unavailable'')
           (let etag = CHR 0x22 # i @ '':'' @ n @ [CHR 0x22];
                r = empty_response\<lparr>rs_type := ''image/png'',
                      rs_headers := [(''Cache-Control'', ''private, max-age=86400''), (''ETag'', etag), (''Vary'', ''Authorization'')]\<rparr> in
            if rq_if_none_match req = etag then a_return (r\<lparr>rs_status := 304\<rparr>)
            else send_variant E (field n variants) r)))))"

definition avatar :: "'s resource_env \<Rightarrow> resource_call \<Rightarrow> int \<Rightarrow> resource_request \<Rightarrow> ('s, resource_response) ract" where
  "avatar E q uid req =
     lease q
       (if rq_target req = ''/api/resources/v1/users/me/avatar'' \<and> rq_method req = Put_verb then put_avatar E q uid req
        else
          let prefix = ''/api/resources/v1/avatars/'' in
          a_then (require (rq_method req = Get_verb \<and> take (length prefix) (rq_target req) = prefix) 404 ''route not found'')
            (case cut (CHR ''/'') (drop (length prefix) (rq_target req)) of
               None \<Rightarrow> a_fail 404 ''avatar size required''
             | Some (i, n) \<Rightarrow> get_avatar E q req i n))"

section \<open>Requests\<close>

definition rate_script :: string where
  "rate_script = ''local t=redis.call('TIME'); local k=KEYS[1]..':'..t[1]; local n=redis.call('HINCRBY',k,'requests',1); local b=redis.call('HINCRBY',k,'bytes',ARGV[1]); redis.call('EXPIRE',k,2); if n>128 or b>8388608 then return 0 end; return 1''"

definition authenticate_request :: "'s resource_env \<Rightarrow> string \<Rightarrow> nat \<Rightarrow> ('s, int) ract" where
  "authenticate_request E auth bytes =
     a_then (require (length auth = 71 \<and> take 7 auth = ''Bearer '') 401 ''resource credential required'')
    (a_bind (redis_get (re_redis E) (''resource_token:'' @ re_digest E (drop 7 auth))) (\<lambda>token.
     case token of
       None \<Rightarrow> a_fail 401 ''resource credential expired''
     | Some text \<Rightarrow>
         a_bind (parse_object (re_lib E) text) (\<lambda>v.
         a_bind (demand (asString (re_lib E) (field ''session'' v))) (\<lambda>session_id.
         a_bind (redis_get (re_redis E) (''resource_session:'' @ session_id)) (\<lambda>session.
         a_bind (case session of None \<Rightarrow> a_return False
                 | Some g \<Rightarrow> a_bind (demand (asString (re_lib E) (field ''generation'' v))) (\<lambda>generation. a_return (g = generation))) (\<lambda>current.
         a_then (require current 401 ''resource credential revoked'')
        (a_bind (demand (asInt (field ''uid'' v))) (\<lambda>uid.
         a_then (require (uid > 0) 401 ''invalid identity'')
        (a_bind (redis_do (re_redis E) [''EVAL'', rate_script, ''1'', ''resource_rate:'' @ to_string uid, to_string (int bytes)]) (\<lambda>rate.
         a_then (require (rate = RInteger 1) 429 ''resource rate limit'') (a_return uid)))))))))))"

definition set_status ::
    "'s resource_env \<Rightarrow> string \<Rightarrow> (resource_row \<Rightarrow> resource_row) \<Rightarrow> ('s, nat) ract" where
  "set_status E i f = sql (statement (update_files (re_found E) (\<lambda>r. re_collation E (t_id r) = re_collation E i) f))"

definition byte_range :: "string \<Rightarrow> 64 word \<Rightarrow> ('s, 64 word \<times> 64 word) ract" where
  "byte_range spec total_bytes =
     a_then (require (take 6 spec = ''bytes='' \<and> CHR '','' \<notin> set spec) 416 ''single byte range required'')
       (case cut (CHR ''-'') (drop 6 spec) of
          None \<Rightarrow> a_fail 416 ''invalid range''
        | Some (initial, final) \<Rightarrow>
            a_then (require (total_bytes > 0) 416 ''invalid range'')
           (a_bind (if initial = [] then
                      a_bind (number_of final) (\<lambda>suffix.
                        a_then (require (suffix > 0) 416 ''invalid suffix'') (a_return (total_bytes - min total_bytes suffix, total_bytes - 1)))
                    else
                      a_bind (number_of initial) (\<lambda>begin.
                        if final \<noteq> [] then a_bind (number_of final) (\<lambda>n. a_return (begin, min (total_bytes - 1) n)) else a_return (begin, total_bytes - 1)))
             (\<lambda>(begin, finish). a_then (require (begin < total_bytes \<and> finish \<ge> begin) 416 ''range outside file'') (a_return (begin, finish)))))"

definition content :: "string \<Rightarrow> resource_row \<Rightarrow> resource_request \<Rightarrow> ('s, resource_response) ract" where
  "content i r req =
     (let r0 = empty_response\<lparr>rs_stream := i, rs_type := ''application/octet-stream'', rs_length := t_total r\<rparr>;
          tail = [(''Accept-Ranges'', ''bytes''), (''ETag'', CHR 0x22 # t_sha256 r @ [CHR 0x22]), (''Cache-Control'', ''private, no-store'')] in
      if rq_range req \<noteq> [] then
        a_bind (byte_range (rq_range req) (t_total r)) (\<lambda>(begin, finish).
          a_return (r0\<lparr>rs_begin := begin, rs_length := finish - begin + 1, rs_status := 206,
            rs_headers := (''Content-Range'', ''bytes '' @ to_string (uint begin) @ ''-'' @ to_string (uint finish) @ ''/'' @ to_string (uint (t_total r))) # tail\<rparr>))
      else a_return (r0\<lparr>rs_headers := tail\<rparr>))"

definition access_file ::
    "'s resource_env \<Rightarrow> resource_call \<Rightarrow> int \<Rightarrow> resource_request \<Rightarrow> string \<Rightarrow> string \<Rightarrow> string \<Rightarrow> ('s, resource_response) ract" where
  "access_file E q uid req kind i action =
     a_then (ResourceLock q i)
    (lease q (a_bind (file_of E q i) (\<lambda>(r, expired).
     a_then (require (t_sender r = uid \<or> t_receiver r = uid) 403 ''resource access denied'')
    (a_then (require (kind = ''uploads'' \<longrightarrow> t_sender r = uid) 403 ''upload owner required'')
    (a_then (require (\<not> expired \<and> t_status r \<noteq> ''cancelled'') 410 ''resource expired'')
    (if rq_method req = Get_verb \<and> action = [] then a_return (result E (file_json i (r, expired)) 200)
     else if rq_method req = Delete_verb \<and> action = [] then
       a_then (require (kind = ''uploads'' \<longrightarrow> t_status r = ''uploading'') 409 ''upload already published'')
      (a_then (set_status E i (\<lambda>x. x\<lparr>t_status := ''cancelled'', t_expires := sql_now (rc_sql q)\<rparr>))
        (a_return (empty_response\<lparr>rs_status := 204\<rparr>)))
     else
       a_then (require (kind = ''files'' \<and> t_receiver r = uid) 403 ''receiver required'')
      (a_then (require (t_status r = ''available'' \<or> t_status r = ''downloaded'') 409 ''file not available'')
      (if rq_method req = Post_verb \<and> action = ''downloaded'' then
         a_then (set_status E i (\<lambda>x. x\<lparr>t_status := ''downloaded'',
             t_downloaded := Some (case t_downloaded x of None \<Rightarrow> sql_now (rc_sql q) | Some t \<Rightarrow> t),
             t_expires := min (t_expires x) (sql_now (rc_sql q) + days 1)\<rparr>))
           (a_return (result E (file_json i (r, expired)) 200))
       else a_then (require (rq_method req = Get_verb \<and> action = ''content'') 404 ''route not found'') (content i r req)))))))))"

definition route_file :: "'s resource_env \<Rightarrow> resource_call \<Rightarrow> int \<Rightarrow> resource_request \<Rightarrow> string \<Rightarrow> ('s, resource_response) ract" where
  "route_file E q uid req target =
     (case cut (CHR ''/'') target of
        None \<Rightarrow> a_fail 404 ''route not found''
      | Some (kind, rest) \<Rightarrow>
          a_then (require (kind = ''uploads'' \<or> kind = ''files'') 404 ''route not found'')
            (let (i, action) = (case cut (CHR ''/'') rest of None \<Rightarrow> (rest, []) | Some p \<Rightarrow> p) in
             if kind = ''uploads'' \<and> rq_method req = Put_verb \<and> take 14 action = ''chunks?offset='' then
               a_bind (number_of (drop 14 action)) (\<lambda>offset. a_bind (chunk E q uid i offset (rq_body req)) (\<lambda>v. a_return (result E v 200)))
             else if kind = ''uploads'' \<and> action = ''complete'' \<and> rq_method req = Post_verb then
               a_bind (complete E q uid i) (\<lambda>v. a_return (result E v 200))
             else access_file E q uid req kind i action))"

definition profile_avatar :: "'s resource_env \<Rightarrow> resource_call \<Rightarrow> string \<Rightarrow> ('s, resource_response) ract" where
  "profile_avatar E q s =
     a_bind (number_of s) (\<lambda>n.
       lease q (a_bind (sql (select (\<lambda>d. find (\<lambda>p. p_uid p = uint n) (profiles d)))) (\<lambda>row.
         case row of
           None \<Rightarrow> a_fail 404 ''user not found''
         | Some p \<Rightarrow> a_return (result E (JObj [(''avatar_id'', JStr (case p_avatar p of None \<Rightarrow> [] | Some a \<Rightarrow> a)), (''version'', u64 (p_version p))]) 200))))"

text \<open>Whether the server is ready: the storage directory is what it should be and has space, and both databases answer.\<close>

definition ready :: "'s resource_env \<Rightarrow> resource_call \<Rightarrow> bool \<Rightarrow> nat \<Rightarrow> (resource_db, 's) rworld \<Rightarrow> bool \<times> (resource_db, 's) rworld" where
  "ready E q mounted space w =
     (case a_then (require mounted 503 ''storage directory must already exist'')
             (lease q (a_then (sql (select (\<lambda>_. ()))) (redis_do (re_redis E) [''PING'']))) w of
        (Ok _, w') \<Rightarrow> (space > 128 * 1024 * 1024, w')
      | (_, w') \<Rightarrow> (False, w'))"

text \<open>What a request does for the user whose token it carries.\<close>

definition serve_user :: "'s resource_env \<Rightarrow> resource_call \<Rightarrow> resource_request \<Rightarrow> int \<Rightarrow> ('s, resource_response) ract" where
  "serve_user E q req uid =
     (let prefix = ''/api/resources/v1/''; target = drop (length prefix) (rq_target req) in
      a_then (require (take (length prefix) (rq_target req) = prefix) 404 ''route not found'')
        (if rq_method req = Get_verb \<and> take 6 target = ''users/'' \<and> length target > 13 \<and> drop (length target - 7) target = ''/avatar''
         then profile_avatar E q (take (length target - 13) (drop 6 target))
         else if target = ''users/me/avatar'' \<or> take 8 target = ''avatars/'' then avatar E q uid req
         else if target = ''uploads'' \<and> rq_method req = Post_verb then
           a_bind (parse_object (re_lib E) (rq_body req)) (\<lambda>v.
             a_bind (create_upload E q uid v) (\<lambda>f. a_return (result E f 201)))
         else route_file E q uid req target))"

definition handle_request :: "'s resource_env \<Rightarrow> resource_call \<Rightarrow> bool \<Rightarrow> nat \<Rightarrow> resource_request \<Rightarrow> ('s, resource_response) ract" where
  "handle_request E q mounted space req =
     (if rq_target req = ''/health/live'' then a_return (result E (JObj [(''alive'', JBool True)]) 200)
      else if rq_target req = ''/health/ready'' then
        (\<lambda>w. case ready E q mounted space w of
               (ok, w') \<Rightarrow> (Ok (result E (JObj [(''ready'', JBool ok)]) (if ok then 200 else 503)), w'))
      else
        a_bind (authenticate_request E (rq_authorization req) (length (rq_body req))) (serve_user E q req))"

section \<open>Streaming\<close>

definition read_attachment :: "'s resource_env \<Rightarrow> resource_call \<Rightarrow> string \<Rightarrow> nat \<Rightarrow> ('s, byte list) ract" where
  "read_attachment E q i offset =
     a_then (ResourceLock q i)
    (lease q (a_bind (file_of E q i) (\<lambda>(r, expired).
     a_then (require (\<not> expired \<and> (t_status r = ''available'' \<or> t_status r = ''downloaded'')) 410 ''file unavailable'')
       (from_disk (read (re_crypto E) i offset PlainChunkBytes)))))"

section \<open>Calls of the chat servers\<close>

datatype metadata_status = Meta_ok | Meta_status rpc_status | Meta_invalid | Meta_denied | Meta_unavailable

fun files_json :: "'s resource_env \<Rightarrow> resource_call \<Rightarrow> string list \<Rightarrow> ('s, json list) ract" where
  "files_json E q [] = a_return []"
| "files_json E q (i # is) =
     a_bind (file_of E q i) (\<lambda>f. a_bind (files_json E q is) (\<lambda>vs. a_return (file_json i f # vs)))"

definition pending_resources :: "time \<Rightarrow> int \<Rightarrow> resource_db \<Rightarrow> string list" where
  "pending_resources now uid d =
     map t_id (take 32 (sort_key t_created (filter (\<lambda>r. (t_sender r = uid \<or> t_receiver r = uid)
       \<and> (t_status r = ''available'' \<or> t_status r = ''downloaded'') \<and> t_expires r > now) (files d))))"

definition ListPending ::
    "'s resource_env \<Rightarrow> resource_call \<Rightarrow> (string \<times> string) list \<Rightarrow> int \<Rightarrow> (resource_db, 's) rworld \<Rightarrow> metadata_status \<times> string list" where
  "ListPending E q metadata uid w =
     (if authorize metadata (re_peer_token E) \<noteq> RpcOk then (Meta_status (authorize metadata (re_peer_token E)), [])
      else if uid \<le> 0 then (Meta_invalid, [])
      else case lease q (a_bind (sql (select (pending_resources (sql_now (rc_sql q)) uid))) (files_json E q)) w of
        (Ok vs, _) \<Rightarrow> (Meta_ok, map (toStyledString (re_lib E)) vs)
      | _ \<Rightarrow> (Meta_unavailable, []))"

definition GetMetadata ::
    "'s resource_env \<Rightarrow> resource_call \<Rightarrow> (string \<times> string) list \<Rightarrow> int \<Rightarrow> string \<Rightarrow> (resource_db, 's) rworld \<Rightarrow> metadata_status \<times> string" where
  "GetMetadata E q metadata uid i w =
     (if authorize metadata (re_peer_token E) \<noteq> RpcOk then (Meta_status (authorize metadata (re_peer_token E)), [])
      else case lease q (file_of E q i) w of
        (Ok (r, expired), _) \<Rightarrow>
          if expired \<or> (t_sender r \<noteq> uid \<and> t_receiver r \<noteq> uid) then (Meta_denied, [])
          else (Meta_ok, toStyledString (re_lib E) (file_json i (r, expired)))
      | _ \<Rightarrow> (Meta_unavailable, []))"

section \<open>Maintenance\<close>

text \<open>
  The fields of the message that a peer gets; a conversion that fails throws. \<open>rc_peer\<close> is what becomes of the call of a
  peer: \<^const>\<open>None\<close> if the channel cannot be made, which throws, and otherwise whether the peer confirmed.
\<close>

definition event_fields :: "json_lib \<Rightarrow> string \<Rightarrow> json \<Rightarrow> bool" where
  "event_fields lib kind v =
     (if kind = ''file'' then
        asString lib (field ''id'' v) \<noteq> None \<and> asInt (field ''fromuid'' v) \<noteq> None \<and> asInt (field ''touid'' v) \<noteq> None
        \<and> asString lib (field ''name'' v) \<noteq> None \<and> asString lib (field ''mime'' v) \<noteq> None
        \<and> uint64_of (field ''total_size'' v) \<noteq> None \<and> asString lib (field ''sha256'' v) \<noteq> None
      else asInt (field ''uid'' v) \<noteq> None \<and> asString lib (field ''avatar_id'' v) \<noteq> None \<and> uint64_of (field ''version'' v) \<noteq> None)"

definition update_event :: "nat \<Rightarrow> (outbox_row \<Rightarrow> outbox_row) \<Rightarrow> resource_db \<Rightarrow> (unit \<times> resource_db) option" where
  "update_event n f d = Some ((), d\<lparr>outbox := map (\<lambda>e. if o_id e = n then f e else e) (outbox d)\<rparr>)"

definition deliver_event :: "'s resource_env \<Rightarrow> resource_call \<Rightarrow> ('s, unit) ract" where
  "deliver_event E q =
     a_bind (sql (select (\<lambda>d. find (\<lambda>e. o_delivered e = None \<and> o_next e \<le> sql_now (rc_sql q)) (sort_key o_id (outbox d))))) (\<lambda>row.
     a_then
       (case row of
          None \<Rightarrow> a_return ()
        | Some e \<Rightarrow>
            a_bind (parse_object (re_lib E) (o_payload e)) (\<lambda>v.
            a_then (if re_peers E = [] \<or> event_fields (re_lib E) (o_kind e) v \<and> re_peer_token E \<noteq> []
                      \<and> list_all (\<lambda>n. rc_peer q n \<noteq> None) [0..<length (re_peers E)] then a_return () else a_crash)
              (if list_all (\<lambda>n. rc_peer q n = Some True) [0..<length (re_peers E)]
               then sql (statement (update_event (o_id e) (\<lambda>x. x\<lparr>o_delivered := Some (sql_now (rc_sql q))\<rparr>)))
               else sql (statement (update_event (o_id e) (\<lambda>x. x\<lparr>o_attempts := o_attempts x + 1, o_next := sql_now (rc_sql q) + seconds 10\<rparr>))))))
       tx_commit)"

fun members :: "json \<Rightarrow> json list" where
  "members (JObj kvs) = map snd kvs"
| "members _ = []"

fun remove_variants :: "json_lib \<Rightarrow> json list \<Rightarrow> ('s, unit) ract" where
  "remove_variants lib [] = a_return ()"
| "remove_variants lib (v # vs) =
     a_bind (demand (variant_id lib v)) (\<lambda>i. a_then (on_disk (remove_file i)) (remove_variants lib vs))"

definition avatar_expired :: "time \<Rightarrow> avatar_row \<Rightarrow> bool" where
  "avatar_expired now a = (case av_expires a of None \<Rightarrow> False | Some t \<Rightarrow> t \<le> now)"

definition reclaim_avatar :: "'s resource_env \<Rightarrow> resource_call \<Rightarrow> string \<Rightarrow> ('s, unit) ract" where
  "reclaim_avatar E q i =
     a_bind (sql (select (\<lambda>d.
       if list_ex (\<lambda>p. map_option (re_collation E) (p_avatar p) = Some (re_collation E i)) (profiles d) then None
       else find (\<lambda>a. re_collation E (av_id a) = re_collation E i \<and> avatar_expired (sql_now (rc_sql q)) a) (avatars d)))) (\<lambda>row.
     a_then
       (case row of
          None \<Rightarrow> a_return ()
        | Some a \<Rightarrow>
            a_bind (parse_object (re_lib E) (av_variants a)) (\<lambda>variants.
            a_then (remove_variants (re_lib E) (members variants))
              (sql (statement (\<lambda>d. Some ((), d\<lparr>avatars := filter (\<lambda>a. re_collation E (av_id a) \<noteq> re_collation E i) (avatars d)\<rparr>))))))
       tx_commit)"

definition file_dead :: "time \<Rightarrow> resource_row \<Rightarrow> bool" where
  "file_dead now r \<longleftrightarrow> t_expires r \<le> now \<or> t_status r = ''cancelled''"

definition delete_file :: "'s resource_env \<Rightarrow> string \<Rightarrow> ('s, unit) ract" where
  "delete_file E i =
     a_then (on_disk (remove_file i))
    (a_then (sql (statement (\<lambda>d. Some ((), d\<lparr>outbox := filter (\<lambda>e. re_collation E (o_key e) \<noteq> re_collation E (''file:'' @ i)) (outbox d)\<rparr>))))
      (sql (statement (\<lambda>d. Some ((), d\<lparr>files := filter (\<lambda>r. re_collation E (t_id r) \<noteq> re_collation E i) (files d)\<rparr>)))))"

definition reclaim_file :: "'s resource_env \<Rightarrow> resource_call \<Rightarrow> string \<Rightarrow> ('s, unit) ract" where
  "reclaim_file E q i =
     a_bind (sql (select (\<lambda>d. list_ex (\<lambda>r. re_collation E (t_id r) = re_collation E i \<and> file_dead (sql_now (rc_sql q)) r) (files d)))) (\<lambda>found.
       a_then (if found then delete_file E i else a_return ()) tx_commit)"

fun each_locked :: "resource_call \<Rightarrow> (string \<Rightarrow> ('s, unit) ract) \<Rightarrow> string list \<Rightarrow> ('s, unit) ract" where
  "each_locked q f [] = a_return ()"
| "each_locked q f (i # is) = a_then (ResourceLock q i) (a_then (Transaction (f i)) (each_locked q f is))"

definition maintenance :: "'s resource_env \<Rightarrow> resource_call \<Rightarrow> ('s, unit) ract" where
  "maintenance E q =
     lease q
       (a_then (Transaction (deliver_event E q))
       (a_bind (sql (select (\<lambda>d. map av_id (take 16 (filter (avatar_expired (sql_now (rc_sql q))) (avatars d)))))) (\<lambda>expired.
        a_then (each_locked q (reclaim_avatar E q) expired)
       (a_bind (sql (select (\<lambda>d. map t_id (take 32 (filter (file_dead (sql_now (rc_sql q))) (files d)))))) (\<lambda>is.
          each_locked q (reclaim_file E q) is)))))"

end
