(* ===== verification/Stored_Content.thy ===== *)
theory Stored_Content
  imports Encrypted_Store
begin

text \<open>
  What the clients of the encrypted store rely on when writes may be torn and calls may be repeated: \<open>stored\<close>
  says that a file holds certain bytes, whatever an interrupted call has left behind them.
\<close>

definition stored :: "crypto \<Rightarrow> string \<Rightarrow> byte list \<Rightarrow> disk \<Rightarrow> bool" where
  "stored cr i bs d \<longleftrightarrow> (\<exists>cs junk. file_holds cr i cs junk d \<and> concat cs = bs)"

section \<open>Chunks\<close>

lemma length_full: "\<forall>c \<in> set cs. full c \<Longrightarrow> length (concat cs) = length cs * ChunkBytes"
  by (induction cs) (auto simp: full_def)

lemma chunked_nth:
  assumes "chunked cs" and "n < length cs"
  shows "cs ! n = take ChunkBytes (drop (n * ChunkBytes) (concat cs))"
proof -
  note t = chunked_take_full [OF assms]
  have l: "length (concat (take n cs)) = n * ChunkBytes"
    using length_full [OF t(1)] t(3) by simp
  have split: "concat cs = concat (take n cs) @ cs ! n @ concat (drop (Suc n) cs)"
    using assms(2) by (metis Cons_nth_drop_Suc append_take_drop_id concat.simps(2) concat_append)
  have "length (cs ! n) \<le> ChunkBytes"
    using t(2) by (simp add: chunk_ok_def)
  moreover have "length (cs ! n) = ChunkBytes \<or> concat (drop (Suc n) cs) = []"
  proof (cases "Suc n < length cs")
    case True
    then show ?thesis
      using chunked_take_full(1) [OF assms(1) True] assms(2) by (auto simp: full_def take_Suc_conv_app_nth)
  qed simp
  ultimately show ?thesis
    by (subst split) (auto simp: l)
qed

lemma aligned_full:
  assumes "chunked cs" and "length (concat cs) mod ChunkBytes = 0"
  shows "\<forall>c \<in> set cs. full c"
proof (cases cs rule: rev_cases)
  case (snoc ps p)
  have "\<forall>c \<in> set ps. full c" "chunk_ok p"
    using assms(1) snoc by (auto simp: chunked_def)
  moreover have "length p mod ChunkBytes = 0"
    using assms(2) length_full [OF calculation(1)] snoc by simp
  then have "full p"
    using \<open>chunk_ok p\<close> by (cases "length p < ChunkBytes") (auto simp: chunk_ok_def full_def)
  ultimately show ?thesis
    using snoc by simp
qed simp

lemma readLength_split:
  assumes "readLength bs = Some v"
  shows "take 4 bs = writeLength v"
proof -
  obtain b0 b1 b2 b3 rest where bs: "bs = b0 # b1 # b2 # b3 # rest"
    and v: "v = push_bit 24 (ucast b0) OR push_bit 16 (ucast b1) OR push_bit 8 (ucast b2) OR ucast b3"
    using assms by (auto simp: readLength_def split: list.splits)
  have "ucast (drop_bit 24 v) = b0" "ucast (drop_bit 16 v) = b1" "ucast (drop_bit 8 v) = b2" "ucast v = b3"
    unfolding v by (rule bit_word_eqI; auto simp: bit_simps dest: bit_imp_le_length)+
  then show ?thesis
    by (simp add: bs writeLength_def)
qed

section \<open>Reading\<close>

lemma stored_read:
  assumes "aead_ok cr" and "stored cr i bs d" and "off mod ChunkBytes = 0" and "off < length bs"
  shows "read cr i off ChunkBytes d = Returns (take ChunkBytes (drop off bs))"
proof -
  obtain cs junk where h: "file_holds cr i cs junk d" and bs: "concat cs = bs"
    using assms(2) by (auto simp: stored_def)
  have c: "chunked cs"
    using h by (simp add: file_holds_def)
  define n where "n = off div ChunkBytes"
  have off: "off = n * ChunkBytes"
    using assms(3) by (simp add: n_def mod_0_imp_dvd)
  have n: "n < length cs"
    using chunked_length [OF c, of n] assms(4) bs off by simp
  then have "length (cs ! n) \<le> ChunkBytes"
    using c by (auto simp: chunked_def chunk_ok_def)
  then show ?thesis
    using read_chunk [OF assms(1) h n] chunked_nth [OF c n] bs off by simp
qed

lemma stored_sha256:
  assumes "aead_ok cr" and "stored cr i bs d"
  shows "sha256 cr i (length bs) d = Returns (sha256_hex cr bs)"
  using assms hash_chunks_from [OF assms(1), of i _ _ d 0 "[]"] by (auto simp: stored_def sha256_def)

section \<open>Writing\<close>

lemma stored_same: "enc_files d' i = enc_files d i \<Longrightarrow> lock_files d i \<longrightarrow> lock_files d' i \<Longrightarrow> stored cr i bs d \<Longrightarrow> stored cr i bs d'"
  unfolding stored_def using file_holds_other [of d' i d cr] by blast

lemma stored_append_other: "j \<noteq> i \<Longrightarrow> stored cr i bs d \<Longrightarrow> stored cr i bs (snd (append_file cr fail j off p d))"
  by (rule stored_same [of _ i d]) (simp_all add: append_other [of i j])

lemma stored_create_any: "stored cr i bs d \<Longrightarrow> stored cr i bs (snd (create prefix fail j d))"
  by (rule stored_same [of _ i d]) (auto simp: create_def Let_def stored_def file_holds_def split: option.split)

lemma stored_create:
  "create prefix fail i d = (Returns (), d') \<Longrightarrow> length prefix = 16 \<Longrightarrow> stored cr i [] d'"
  unfolding stored_def
  by (rule exI [of _ "[]"], rule exI [of _ "[]"])
    (auto simp: create_def Let_def file_holds_def chunked_def split: if_splits option.splits)

lemma stored_remove_other: "j \<noteq> i \<Longrightarrow> stored cr i bs d \<Longrightarrow> stored cr i bs (snd (remove_file j d))"
  by (rule stored_same [of _ i d]) (auto simp: remove_file_def)

text \<open>
  Appending behind what is stored, with anything at all behind it: what was stored stays, whether the call
  returns or throws, and if it returns, the new bytes are stored too.
\<close>

lemma stored_append:
  assumes "aead_ok cr" and "stored cr i bs d" and "length bs mod ChunkBytes = 0"
    and "append_file cr fail i (length bs) p d = (r, d')"
  shows "stored cr i bs d'" "r = Returns n \<Longrightarrow> n = length bs + length p \<and> stored cr i (bs @ p) d' \<and> p \<noteq> [] \<and> length p \<le> ChunkBytes"
proof -
  obtain cs junk prefix where bs: "concat cs = bs" and g: "valid_transfer_id i" "lock_files d i" "chunked cs"
    and e: "length prefix = 16" "enc_files d i = Some (Magic @ prefix @ records cr i prefix 0 cs @ junk)"
    using assms(2) by (auto simp: stored_def file_holds_def)
  have f: "\<forall>c \<in> set cs. full c"
    using aligned_full [OF g(3)] assms(3) bs by simp
  then have len: "length bs = length cs * ChunkBytes"
    using length_full bs by blast
  have sk: "skip_confirmed (length cs) (records cr i prefix 0 cs @ junk) = Some junk"
    by (rule skip_confirmed_records [OF assms(1) f])
  note c = encrypt_ciphertext [OF assms(1), of i prefix "length cs" p]
  have holds: "stored cr i (concat ps) d2"
    if "chunked ps" "enc_files d2 i = Some (Magic @ prefix @ records cr i prefix 0 ps @ rest)" "lock_files d2 i" for ps rest d2
    using that g e(1) by (auto simp: stored_def file_holds_def)
  have more: "chunked (cs @ [p])" if "p \<noteq> []" "length p \<le> ChunkBytes"
    using f that by (auto simp: chunked_def chunk_ok_def full_def ChunkBytes_def)
  let ?C = "ciphertext_of cr i prefix (length cs) p"
  have run: "append_file cr fail i (length bs) p d =
      (if p = [] \<or> length p > ChunkBytes then (Throws, d)
       else if junk \<noteq> [] then
         (case readLength junk of
            None \<Rightarrow> (Throws, d)
          | Some sz \<Rightarrow> if unat sz \<noteq> length p \<or> length junk < 4 + length ?C \<or> take (length ?C) (drop 4 junk) \<noteq> ?C \<or> fail \<noteq> None then (Throws, d)
              else (Returns (length bs + length p), d))
       else (case fail of
           None \<Rightarrow> (Returns (length bs + length p), d\<lparr>enc_files := (enc_files d)(i := Some (Magic @ prefix @ records cr i prefix 0 cs @ record_of cr i prefix (length cs) p))\<rparr>)
         | Some k \<Rightarrow> (Throws, d\<lparr>enc_files := (enc_files d)(i := Some (Magic @ prefix @ records cr i prefix 0 cs @ take k (record_of cr i prefix (length cs) p)))\<rparr>)))"
    using assms(3) g e sk c len
    by (simp add: append_file_def record_of_def ChunkBytes_def Let_def split: option.split)
  show "stored cr i bs d'"
    using run assms(4) holds [OF g(3)] bs g(2) e assms(2)
    by (fastforce split: if_splits option.splits)
  show "n = length bs + length p \<and> stored cr i (bs @ p) d' \<and> p \<noteq> [] \<and> length p \<le> ChunkBytes" if r: "r = Returns n"
  proof (cases "junk = []")
    case True
    then show ?thesis
      using run assms(4) r holds [OF more, of d' "[]"] bs g(2)
      by (auto simp: records_append split: if_splits option.splits)
  next
    case False
    then obtain sz where sz: "readLength junk = Some sz" "unat sz = length p" "take (length ?C) (drop 4 junk) = ?C"
      and d: "d' = d" "n = length bs + length p" and p: "p \<noteq> []" "length p \<le> ChunkBytes"
      using run assms(4) r by (auto split: if_splits option.splits)
    have "junk = record_of cr i prefix (length cs) p @ drop (4 + length ?C) junk"
    proof -
      have "take 4 junk = writeLength (word_of_nat (length p))"
        using readLength_split [OF sz(1)] by (simp flip: sz(2))
      then have "take (4 + length ?C) junk = record_of cr i prefix (length cs) p"
        using sz(3) by (simp add: take_add record_of_def)
      then show ?thesis
        by (metis append_take_drop_id)
    qed
    then have "enc_files d i = Some (Magic @ prefix @ records cr i prefix 0 (cs @ [p]) @ drop (4 + length ?C) junk)"
      using e(2) by (simp add: records_append)
    then show ?thesis
      using holds [OF more [OF p]] d bs g(2) p by auto
  qed
qed

end
