(* ===== verification/Resource_Invariant.thy ===== *)
theory Resource_Invariant
  imports Resource_Service Stored_Content
begin

text \<open>
  The invariant of the resource server and rules for the steps of a request that keep it. \<open>whole\<close> says of what is durable
  and of what the connection sees: every file that has not expired is in the store with all the bytes that are
  confirmed, a published one with the digest that was announced, and no name of an avatar variant is the name of a
  file. The set \<open>G\<close> fixes the contents of files that were published before.
\<close>

section \<open>Invariant\<close>

definition names_in :: "json_lib \<Rightarrow> string \<Rightarrow> string set" where
  "names_in L t = {i. \<exists>v m. parse_json L t = Some v \<and> m \<in> set (members v) \<and> variant_id L m = Some i}"

definition variant_names :: "'s resource_env \<Rightarrow> resource_db \<Rightarrow> string set" where
  "variant_names E d = (\<Union>a \<in> set (avatars d). names_in (re_lib E) (av_variants a))"

definition file_ids :: "resource_db \<Rightarrow> string set" where
  "file_ids d = t_id ` set (files d)"

definition published :: "resource_row \<Rightarrow> bool" where
  "published r \<longleftrightarrow> t_status r = ''available'' \<or> t_status r = ''downloaded''"

definition row_intact :: "crypto \<Rightarrow> disk \<Rightarrow> resource_row \<Rightarrow> bool" where
  "row_intact cr k r \<longleftrightarrow> (\<exists>bs. stored cr (t_id r) bs k \<and> length bs = unat (t_uploaded r) \<and> t_uploaded r \<le> t_total r
     \<and> (length bs mod ChunkBytes = 0 \<or> t_uploaded r = t_total r)
     \<and> (published r \<longrightarrow> t_uploaded r = t_total r \<and> sha256_hex cr bs = t_sha256 r))"

definition row_good :: "crypto \<Rightarrow> (string \<times> byte list) set \<Rightarrow> disk \<Rightarrow> resource_row \<Rightarrow> bool" where
  "row_good cr G k r \<longleftrightarrow> row_intact cr k r \<and> (\<forall>bs. (t_id r, bs) \<in> G \<longrightarrow> published r \<and> stored cr (t_id r) bs k)"

definition files_ok :: "'s resource_env \<Rightarrow> (string \<times> byte list) set \<Rightarrow> time \<Rightarrow> resource_db \<Rightarrow> disk \<Rightarrow> bool" where
  "files_ok E G now d k \<longleftrightarrow> distinct (map (\<lambda>r. re_collation E (t_id r)) (files d))
     \<and> (\<forall>r \<in> set (files d). validId (t_id r) \<and> (\<not> file_dead now r \<longrightarrow> row_good (re_crypto E) G k r))"

text \<open>
  What is assumed of the libraries and of the database: the cipher, that two different identifiers are not equal under the
  collation, and that a JSON column gives back the identifiers that were written to it.
\<close>

definition env_ok :: "'s resource_env \<Rightarrow> bool" where
  "env_ok E \<longleftrightarrow> aead_ok (re_crypto E)
     \<and> (\<forall>a b. validId a \<and> validId b \<and> re_collation E a = re_collation E b \<longrightarrow> a = b)
     \<and> (\<forall>v t. re_column E (toStyledString (re_lib E) v) = Some t \<longrightarrow>
          names_in (re_lib E) t \<subseteq> {i. \<exists>m \<in> set (members v). variant_id (re_lib E) m = Some i})
     \<and> (\<forall>t. re_column E ''{}'' = Some t \<longrightarrow> names_in (re_lib E) t = {})"

definition new_names :: "resource_call \<Rightarrow> string set" where
  "new_names q = range (\<lambda>n. vc_uuid (rc_variant q n))"

definition call_ok :: "(string \<times> byte list) set \<Rightarrow> resource_call \<Rightarrow> bool" where
  "call_ok G q \<longleftrightarrow> length (rc_prefix q) = 16 \<and> rc_uuid q \<notin> fst ` G"

definition tables_ok ::
    "'s resource_env \<Rightarrow> (string \<times> byte list) set \<Rightarrow> resource_call \<Rightarrow> bool \<Rightarrow> resource_db \<Rightarrow> resource_db \<Rightarrow> disk \<Rightarrow> bool" where
  "tables_ok E G q auto d v k \<longleftrightarrow>
     (auto \<longrightarrow> v = d) \<and> files_ok E G (sql_now (rc_sql q)) d k \<and> files_ok E G (sql_now (rc_sql q)) v k
     \<and> (variant_names E d \<union> variant_names E v \<union> new_names q) \<inter> (file_ids d \<union> file_ids v \<union> {rc_uuid q}) = {}"

definition whole :: "'s resource_env \<Rightarrow> (string \<times> byte list) set \<Rightarrow> resource_call \<Rightarrow> (resource_db, 's) rworld \<Rightarrow> bool" where
  "whole E G q w \<longleftrightarrow> tables_ok E G q (autocommit (rconn w)) (durable (rconn w)) (working (rconn w)) (rdisk w)"

lemma tables_okD:
  assumes "tables_ok E G q auto d v k"
  shows "auto \<Longrightarrow> v = d" "files_ok E G (sql_now (rc_sql q)) d k" "files_ok E G (sql_now (rc_sql q)) v k"
    "i \<in> variant_names E d \<union> variant_names E v \<union> new_names q \<Longrightarrow> i \<notin> file_ids d \<union> file_ids v"
    "rc_uuid q \<notin> variant_names E d \<union> variant_names E v \<union> new_names q"
  using assms by (auto simp: tables_ok_def)

lemma tables_ok_conn:
  assumes "tables_ok E G q auto d v k"
  shows "tables_ok E G q auto' v v k" "tables_ok E G q auto' d d k" "tables_ok E G q False d v k"
  using assms by (auto simp: tables_ok_def)

lemma wholeD:
  assumes "whole E G q w"
  shows "autocommit (rconn w) \<Longrightarrow> working (rconn w) = durable (rconn w)"
    "files_ok E G (sql_now (rc_sql q)) (durable (rconn w)) (rdisk w)" "files_ok E G (sql_now (rc_sql q)) (working (rconn w)) (rdisk w)"
  using tables_okD [OF assms [unfolded whole_def]] by auto

lemma env_okD:
  assumes "env_ok E"
  shows "aead_ok (re_crypto E)"
    "validId a \<Longrightarrow> validId b \<Longrightarrow> re_collation E a = re_collation E b \<Longrightarrow> a = b"
    "re_column E (toStyledString (re_lib E) v) = Some t \<Longrightarrow> i \<in> names_in (re_lib E) t \<Longrightarrow> \<exists>m \<in> set (members v). variant_id (re_lib E) m = Some i"
    "re_column E ''{}'' = Some t \<Longrightarrow> names_in (re_lib E) t = {}"
  using assms unfolding env_ok_def by blast+

text \<open>Identifiers tell the rows apart.\<close>

lemma unique_row:
  assumes "files_ok E G now d k" and "r \<in> set (files d)" and "x \<in> set (files d)" and "re_collation E (t_id x) = re_collation E (t_id r)"
  shows "x = r"
  using assms by (auto simp: files_ok_def distinct_map inj_on_def)

lemma row_of_id:
  assumes "env_ok E" and "files_ok E G now d k" and "validId i" and "x \<in> set (files d)" and "re_collation E (t_id x) = re_collation E i"
  shows "t_id x = i"
  using assms(2-5) env_okD(2) [OF assms(1)] by (auto simp: files_ok_def)

lemma whole_faults: "whole E G q (w\<lparr>rconn := (rconn w)\<lparr>faults := fs\<rparr>\<rparr>) = whole E G q w"
  by (simp add: whole_def)

section \<open>Statements\<close>

text \<open>A condition that does not look at the remaining faults.\<close>

definition steady :: "(('d, 's) rworld \<Rightarrow> bool) \<Rightarrow> bool" where
  "steady P \<longleftrightarrow> (\<forall>w fs. P (w\<lparr>rconn := (rconn w)\<lparr>faults := fs\<rparr>\<rparr>) = P w)"

lemma steady_True [simp]: "steady (\<lambda>_. True)"
  by (simp add: steady_def)

lemma triple_sql:
  assumes "\<And>w. I w \<Longrightarrow> P w \<Longrightarrow> wp m (\<lambda>a c. I (w\<lparr>rconn := c\<rparr>) \<and> Q a (w\<lparr>rconn := c\<rparr>)) (\<lambda>c. I (w\<lparr>rconn := c\<rparr>)) (rconn w)"
  shows "triple I P (sql m) Q"
  unfolding triple_def
proof (intro allI impI)
  fix w
  assume "I w" "P w"
  from assms [OF this] show "case sql m w of (a, w') \<Rightarrow> I w' \<and> (\<forall>x. a = Ok x \<longrightarrow> Q x w')"
    by (auto simp: wp_def sql_def split: prod.splits outcome.splits)
qed

lemma triple_select:
  assumes "steady P"
  shows "triple (whole E G q) P (sql (select f)) (\<lambda>x w. x = f (working (rconn w)) \<and> P w)"
proof (rule triple_sql)
  fix w
  assume w: "whole E G q w" "P w"
  have same: "(rconn w)\<lparr>faults := fs, durable := if autocommit (rconn w) then working (rconn w) else durable (rconn w)\<rparr> = (rconn w)\<lparr>faults := fs\<rparr>" for fs
    using wholeD(1) [OF w(1)] by (cases "autocommit (rconn w)") simp_all
  show "wp (select f) (\<lambda>a c. whole E G q (w\<lparr>rconn := c\<rparr>) \<and> a = f (working (rconn (w\<lparr>rconn := c\<rparr>))) \<and> P (w\<lparr>rconn := c\<rparr>))
     (\<lambda>c. whole E G q (w\<lparr>rconn := c\<rparr>)) (rconn w)"
    by (rule wp_select) (use w assms in \<open>simp_all add: same whole_faults steady_def\<close>)
qed

lemma keeps_select [triples]: "keeps_inv (whole E G q) (sql (select f))"
  by (rule triple_post, rule triple_select) simp_all

text \<open>The tables after a statement: the new ones, and what is durable when there is no transaction.\<close>

definition put_tables :: "'d \<Rightarrow> ('d, 's) rworld \<Rightarrow> ('d, 's) rworld" where
  "put_tables d w = w\<lparr>rconn := (rconn w)\<lparr>working := d, durable := if autocommit (rconn w) then d else durable (rconn w)\<rparr>\<rparr>"

definition permitted :: "'s resource_env \<Rightarrow> (string \<times> byte list) set \<Rightarrow> resource_call \<Rightarrow> disk \<Rightarrow> resource_db \<Rightarrow> resource_db \<Rightarrow> bool" where
  "permitted E G q k d d' \<longleftrightarrow> files_ok E G (sql_now (rc_sql q)) d' k \<and> variant_names E d' \<subseteq> variant_names E d \<union> new_names q
     \<and> file_ids d' \<subseteq> file_ids d \<union> {rc_uuid q}"

lemma tables_ok_allowed:
  assumes "tables_ok E G q auto d v k" and "permitted E G q k v v'"
  shows "tables_ok E G q auto (if auto then v' else d) v' k"
  using assms by (cases auto) (auto simp: tables_ok_def permitted_def)

lemma whole_put_tables:
  assumes "whole E G q w" and "permitted E G q (rdisk w) (working (rconn w)) d"
  shows "whole E G q (put_tables d w)"
  using tables_ok_allowed [OF assms(1) [unfolded whole_def] assms(2)] by (simp add: whole_def put_tables_def)

lemma triple_statement:
  assumes "\<And>w a d. whole E G q w \<Longrightarrow> P w \<Longrightarrow> f (working (rconn w)) = Some (a, d) \<Longrightarrow> permitted E G q (rdisk w) (working (rconn w)) d"
    and "\<And>w a d. whole E G q w \<Longrightarrow> P w \<Longrightarrow> f (working (rconn w)) = Some (a, d) \<Longrightarrow> Q a (put_tables d w)"
    and "\<And>a. steady (Q a)"
  shows "triple (whole E G q) P (sql (statement f)) Q"
proof (rule triple_sql)
  fix w
  assume w: "whole E G q w" "P w"
  have put: "w\<lparr>rconn := (rconn w)\<lparr>faults := fs, working := d, durable := if autocommit (rconn w) then d else durable (rconn w)\<rparr>\<rparr>
      = (put_tables d w)\<lparr>rconn := (rconn (put_tables d w))\<lparr>faults := fs\<rparr>\<rparr>" for fs d
    by (simp add: put_tables_def)
  have ok: "whole E G q (put_tables d w)" if "f (working (rconn w)) = Some (a, d)" for a d
    using whole_put_tables [OF w(1) assms(1) [OF w that]] .
  show "wp (statement f) (\<lambda>a c. whole E G q (w\<lparr>rconn := c\<rparr>) \<and> Q a (w\<lparr>rconn := c\<rparr>)) (\<lambda>c. whole E G q (w\<lparr>rconn := c\<rparr>)) (rconn w)"
    by (rule wp_statement) (use w ok assms(2) [OF w] assms(3) in \<open>auto simp: put whole_faults steady_def\<close>)
qed

text \<open>A statement on other tables.\<close>

lemma allowed_same:
  "files d' = files d \<Longrightarrow> variant_names E d' \<subseteq> variant_names E d \<union> new_names q \<Longrightarrow> files_ok E G (sql_now (rc_sql q)) d k \<Longrightarrow> permitted E G q k d d'"
  by (auto simp: permitted_def files_ok_def file_ids_def)

lemma keeps_other_tables:
  assumes "\<And>d a d'. f d = Some (a, d') \<Longrightarrow> files d' = files d \<and> variant_names E d' \<subseteq> variant_names E d \<union> new_names q"
  shows "keeps_inv (whole E G q) (sql (statement f))"
  by (rule triple_statement) (use assms wholeD(3) in \<open>auto intro!: allowed_same\<close>)

lemma set_map_elem: "x \<in> set (map g xs) \<Longrightarrow> \<exists>y \<in> set xs. x = g y"
  by auto

lemma update_allowed:
  assumes "files_ok E G (sql_now (rc_sql q)) d k" and "update_files found P f d = Some (n, d')"
    and "\<And>x. x \<in> set (files d) \<Longrightarrow> P x \<Longrightarrow> t_id (f x) = t_id x"
    and "\<And>x. x \<in> set (files d) \<Longrightarrow> P x \<Longrightarrow> \<not> file_dead (sql_now (rc_sql q)) (f x) \<Longrightarrow> row_good (re_crypto E) G k (f x)"
  shows "permitted E G q k d d'"
proof -
  have d': "d' = d\<lparr>files := map (\<lambda>r. if P r then f r else r) (files d)\<rparr>"
    using assms(2) by (simp add: update_files_def)
  have ids: "map t_id (files d') = map t_id (files d)"
    using assms(3) by (simp add: d')
  then have "map (\<lambda>i. re_collation E i) (map t_id (files d')) = map (\<lambda>i. re_collation E i) (map t_id (files d))"
    by simp
  then have keys: "map (\<lambda>r. re_collation E (t_id r)) (files d') = map (\<lambda>r. re_collation E (t_id r)) (files d)"
    by (simp add: comp_def)
  have same: "file_ids d' = file_ids d" "variant_names E d' = variant_names E d"
    using arg_cong [OF ids, of set] by (simp_all only: file_ids_def set_map) (simp add: variant_names_def d')
  have "validId (t_id x) \<and> (\<not> file_dead (sql_now (rc_sql q)) x \<longrightarrow> row_good (re_crypto E) G k x)" if x: "x \<in> set (files d')" for x
  proof -
    obtain y where "y \<in> set (files d)" "x = (if P y then f y else y)"
      using set_map_elem [of x "\<lambda>r. if P r then f r else r" "files d"] x by (auto simp: d' simp del: set_map)
    then show ?thesis
      using assms(1) assms(3,4) [of y] by (auto simp: files_ok_def split: if_splits)
  qed
  then show ?thesis
    using assms(1) keys same by (auto simp: permitted_def files_ok_def)
qed

section \<open>Transactions\<close>

lemma whole_committed [simp]: "whole E G q (w\<lparr>committed := b\<rparr>) = whole E G q w"
  by (simp add: whole_def)

lemma whole_redis [simp]: "whole E G q (w\<lparr>rredis := s\<rparr>) = whole E G q w"
  by (simp add: whole_def)

lemma keeps_commit: "keeps_inv (whole E G q) (sql commit)"
  by (rule triple_sql, rule wp_commit) (auto simp: whole_def tables_ok_conn)

lemma keeps_rollback: "keeps_inv (whole E G q) (sql rollback)"
  by (rule triple_sql, rule wp_rollback) (auto simp: whole_def tables_ok_conn)

lemma keeps_setAutoCommit: "triple (whole E G q) (\<lambda>_. True) (sql (setAutoCommit b)) (\<lambda>_ w. autocommit (rconn w) = b)"
  by (rule triple_sql, rule wp_setAutoCommit) (cases b; auto simp: whole_def tables_ok_conn)+

lemma sql_other [simp]: "committed (snd (sql m w)) = committed w" "rdisk (snd (sql m w)) = rdisk w" "rredis (snd (sql m w)) = rredis w"
  by (simp_all add: sql_def split: prod.split outcome.split)

lemma triple_frame:
  assumes "triple I P (sql m) Q"
  shows "triple I (\<lambda>w. P w \<and> R (committed w)) (sql m) (\<lambda>x w. Q x w \<and> R (committed w))"
  unfolding triple_def
proof (intro allI impI, elim conjE)
  fix w
  assume w: "I w" "P w" "R (committed w)"
  obtain a w' where m: "sql m w = (a, w')"
    by (cases "sql m w")
  then show "case sql m w of (a, w') \<Rightarrow> I w' \<and> (\<forall>x. a = Ok x \<longrightarrow> Q x w' \<and> R (committed w'))"
    using tripleD [OF assms m w(1,2)] w(3) sql_other(1) [of m w] by simp
qed

lemma triple_commit: "triple (whole E G q) P tx_commit (\<lambda>_ w. autocommit (rconn w) \<and> committed w)"
  unfolding tx_commit_def
proof (rule triple_then)
  show "triple (whole E G q) P (sql commit) (\<lambda>_ _. True)"
    by (rule triple_pre [OF keeps_commit]) simp
  have "triple (whole E G q) committed (sql (setAutoCommit True)) (\<lambda>_ w. autocommit (rconn w) \<and> committed w)"
    by (rule triple_pre, rule triple_post, rule triple_frame [OF keeps_setAutoCommit, where R = "\<lambda>b. b"]) auto
  then show "triple (whole E G q) (\<lambda>_. True) (a_then (\<lambda>w. (Ok (), w\<lparr>committed := True\<rparr>)) (sql (setAutoCommit True))) (\<lambda>_ w. autocommit (rconn w) \<and> committed w)"
    by (rule triple_then [rotated]) (simp add: triple_def)
qed

lemma keeps_tx_commit [triples]: "keeps_inv (whole E G q) tx_commit"
  by (rule triple_true [OF triple_commit])

lemma whole_tx_close: "whole E G q w \<Longrightarrow> whole E G q (tx_close w)"
proof -
  assume w: "whole E G q w"
  have "keeps_inv (whole E G q) (a_then (sql rollback) (sql (setAutoCommit True)))"
    by (intro inv_then keeps_rollback triple_true [OF keeps_setAutoCommit])
  then show ?thesis
    using w tripleD(1) [of "whole E G q" "\<lambda>_. True" _ "\<lambda>_ _. True" w] by (cases "a_then (sql rollback) (sql (setAutoCommit True)) w") (auto simp: tx_close_def)
qed

text \<open>
  A transaction: its body starts with what is durable. After a body that has committed the
  connection is as before.
\<close>

lemma triple_transaction:
  assumes body: "triple (whole E G q) (\<lambda>w. P w \<and> working (rconn w) = durable (rconn w)) body (\<lambda>x w. Q x w \<and> committed w)"
    and P: "\<And>w fs. P w \<Longrightarrow> P (w\<lparr>rconn := (rconn w)\<lparr>faults := fs, autocommit := False\<rparr>, committed := False\<rparr>)"
  shows "triple (whole E G q) (\<lambda>w. P w \<and> autocommit (rconn w)) (Transaction body) Q"
  unfolding triple_def
proof (intro allI impI, elim conjE)
  fix w
  assume w: "whole E G q w" "P w" "autocommit (rconn w)"
  have wd: "working (rconn w) = durable (rconn w)"
    using wholeD(1) [OF w(1,3)] .
  have "wp (setAutoCommit False) (\<lambda>_ c. \<exists>fs. c = (rconn w)\<lparr>faults := fs, autocommit := False\<rparr>)
      (\<lambda>c. working c = durable c \<and> durable c = durable (rconn w)) (rconn w)"
    by (rule wp_setAutoCommit) (use wd in auto)
  then consider (yes) fs where "sql (setAutoCommit False) w = (Ok (), w\<lparr>rconn := (rconn w)\<lparr>faults := fs, autocommit := False\<rparr>\<rparr>)"
    | (no) c where "sql (setAutoCommit False) w = (Crashed, w\<lparr>rconn := c\<rparr>)" "working c = durable c" "durable c = durable (rconn w)"
    by (auto simp: wp_def sql_def split: prod.splits outcome.splits)
  then show "case Transaction body w of (a, w') \<Rightarrow> whole E G q w' \<and> (\<forall>x. a = Ok x \<longrightarrow> Q x w')"
  proof cases
    case (yes fs)
    define w1 where "w1 = w\<lparr>rconn := (rconn w)\<lparr>faults := fs, autocommit := False\<rparr>, committed := False\<rparr>"
    obtain a w2 where b: "body w1 = (a, w2)"
      by (cases "body w1")
    have w1: "whole E G q w1" "P w1" "working (rconn w1) = durable (rconn w1)"
      using w wd P [OF w(2)] by (simp_all add: w1_def whole_def tables_ok_conn(3))
    note r = tripleD [OF body b w1(1)]
    have "Transaction body w = (a, tx_close w2)"
      using yes b by (simp add: Transaction_def w1_def)
    then show ?thesis
      using r w1 whole_tx_close [of E G q w2] by (auto simp: tx_close_def)
  next
    case (no c)
    then have "Transaction body w = (Crashed, w\<lparr>rconn := c\<rparr>)"
      by (simp add: Transaction_def)
    then show ?thesis
      using w no tables_ok_conn(2) by (simp add: whole_def)
  qed
qed

end
