(* ===== verification/Resource_Integrity.thy ===== *)
theory Resource_Integrity
  imports Resource_Invariant
begin

text \<open>Every operation of the resource server keeps the invariant, whatever fails in it.\<close>

section \<open>Common steps\<close>

lemma PlainChunkBytes_eq [simp]: "PlainChunkBytes = ChunkBytes"
  by (simp add: PlainChunkBytes_def ChunkBytes_def)

lemma triple_lock: "(validId i \<Longrightarrow> triple I P k Q) \<Longrightarrow> triple I P (a_then (ResourceLock q i) k) Q"
  by (auto simp: ResourceLock_def a_then_def a_bind_def triple_def a_return_def a_crash_def)

lemma keeps_lock [triples]: "keeps_inv I (ResourceLock q i)"
  by (auto simp: ResourceLock_def triple_def a_return_def a_crash_def)

lemma triple_lease: "triple I P m Q \<Longrightarrow> triple I P (lease q m) Q"
  unfolding lease_def by (rule triple_require)

lemma triple_check: "triple I P (require b n t) (\<lambda>_. P)"
  by (auto simp: require_def triple_def a_return_def a_fail_def)

lemma triple_answered: "triple I P (lift_answer a) (\<lambda>_. P)"
  by (simp add: triple_def lift_answer_def)

lemma triple_parse: "triple I P (parse_object lib s) (\<lambda>v w. P w \<and> parse_json lib s = Some v)"
  by (auto simp: parse_object_def triple_def a_return_def a_fail_def split: option.split)

lemma triple_number: "triple I P (number_of s) (\<lambda>_. P)"
  by (auto simp: number_of_def triple_def a_return_def a_fail_def)

lemma row_good_mono:
  assumes "row_good cr G k r" and "\<And>bs. stored cr (t_id r) bs k \<Longrightarrow> stored cr (t_id r) bs k'"
  shows "row_good cr G k' r"
proof -
  obtain bs where b: "stored cr (t_id r) bs k"
    and c: "length bs = unat (t_uploaded r) \<and> t_uploaded r \<le> t_total r \<and> (length bs mod ChunkBytes = 0 \<or> t_uploaded r = t_total r)
      \<and> (published r \<longrightarrow> t_uploaded r = t_total r \<and> sha256_hex cr bs = t_sha256 r)"
    using assms(1) by (auto simp: row_good_def row_intact_def)
  have "row_intact cr k' r"
    unfolding row_intact_def by (rule exI [of _ bs], rule conjI [OF assms(2) [OF b] c])
  then show ?thesis
    using assms by (simp add: row_good_def)
qed

text \<open>A change of the directory that spares the files of the table.\<close>

lemma whole_disk:
  assumes "whole E G q w"
    and "\<And>x. x \<in> set (files (durable (rconn w))) \<union> set (files (working (rconn w))) \<Longrightarrow> \<not> file_dead (sql_now (rc_sql q)) x \<Longrightarrow>
      row_good (re_crypto E) G (rdisk w) x \<Longrightarrow> row_good (re_crypto E) G k x"
  shows "whole E G q (w\<lparr>rdisk := k\<rparr>)"
  using assms by (auto simp: whole_def tables_ok_def files_ok_def)

lemma whole_spares:
  assumes "whole E G q w" and "\<And>i bs. i \<in> file_ids (durable (rconn w)) \<union> file_ids (working (rconn w)) \<Longrightarrow>
      stored (re_crypto E) i bs (rdisk w) \<Longrightarrow> stored (re_crypto E) i bs k"
  shows "whole E G q (w\<lparr>rdisk := k\<rparr>)"
proof (rule whole_disk [OF assms(1)])
  fix x
  assume x: "x \<in> set (files (durable (rconn w))) \<union> set (files (working (rconn w)))" "row_good (re_crypto E) G (rdisk w) x"
  show "row_good (re_crypto E) G k x"
    by (rule row_good_mono [OF x(2)], rule assms(2)) (use x(1) in \<open>auto simp: file_ids_def\<close>)
qed

lemma find_SomeD: "find P xs = Some x \<Longrightarrow> x \<in> set xs \<and> P x"
  by (induction xs) (auto split: if_splits)

text \<open>A row that is read: its identifier is the one that was asked for.\<close>

lemma triple_file:
  assumes "env_ok E" and "steady P"
    and "\<And>r. t_id r = i \<Longrightarrow> validId i \<Longrightarrow>
      triple (whole E G q) (\<lambda>w. P w \<and> r \<in> set (files (working (rconn w)))) (f (r, t_expires r \<le> sql_now (rc_sql q))) Q"
  shows "triple (whole E G q) P (a_bind (file_of E q i) f) Q"
proof (rule triple_bind)
  let ?F = "\<lambda>a w. P w \<and> validId i \<and> t_id (fst a) = i \<and> fst a \<in> set (files (working (rconn w))) \<and> snd a = (t_expires (fst a) \<le> sql_now (rc_sql q))"
  show "triple (whole E G q) P (file_of E q i) ?F"
    unfolding file_of_def
  proof (rule triple_require, rule triple_bind, rule triple_select [OF assms(2)])
    fix row
    assume i: "validId i"
    show "triple (whole E G q) (\<lambda>w. row = find (\<lambda>r. re_collation E (t_id r) = re_collation E i) (files (working (rconn w))) \<and> P w)
        (case row of None \<Rightarrow> a_fail 404 ''resource not found'' | Some r \<Rightarrow> a_return (r, t_expires r \<le> sql_now (rc_sql q))) ?F"
    proof (cases row)
      case (Some r)
      show ?thesis
        unfolding Some option.case
      proof (rule triple_return)
        fix w
        assume w: "whole E G q w" "Some r = find (\<lambda>r. re_collation E (t_id r) = re_collation E i) (files (working (rconn w))) \<and> P w"
        then have r: "r \<in> set (files (working (rconn w)))" "re_collation E (t_id r) = re_collation E i"
          using find_SomeD [OF w(2) [THEN conjunct1, symmetric]] by simp_all
        then show "?F (r, t_expires r \<le> sql_now (rc_sql q)) w"
          using row_of_id [OF assms(1) wholeD(3) [OF w(1)] i r] w(2) i by simp
      qed
    qed (simp add: triple_stop)
  qed
  fix a
  show "triple (whole E G q) (?F a) (f a) Q"
  proof (cases "validId i \<and> t_id (fst a) = i \<and> snd a = (t_expires (fst a) \<le> sql_now (rc_sql q))")
    case True
    then have a: "a = (fst a, t_expires (fst a) \<le> sql_now (rc_sql q))"
      by (cases a) simp
    show ?thesis
      using True by (subst (2) a) (rule triple_pre [OF assms(3)], simp_all)
  next
    case False
    then show ?thesis
      by (auto simp: triple_def)
  qed
qed

section \<open>Uploading\<close>

lemma parts_props:
  "0 < n \<Longrightarrow> concat (parts n bs) = bs \<and> (\<forall>p \<in> set (parts n bs). p \<noteq> [] \<and> length p \<le> n) \<and> (\<forall>p \<in> set (butlast (parts n bs)). length p = n)"
proof (induction n bs rule: parts.induct)
  case (1 n bs)
  show ?case
  proof (cases "bs = []")
    case False
    then have p: "parts n bs = take n bs # parts n (drop n bs)"
      using 1(2) by (subst parts.simps) simp
    define rest where "rest = parts n (drop n bs)"
    have full: "length (take n bs) = n \<or> rest = []"
      by (cases "drop n bs = []") (auto simp: parts.simps rest_def)
    have rest: "concat rest = drop n bs" "\<forall>p \<in> set rest. p \<noteq> [] \<and> length p \<le> n" "\<forall>p \<in> set (butlast rest). length p = n"
    proof -
      have "\<not> (n = 0 \<or> bs = [])"
        using False 1(2) by blast
      from 1(1) [OF this 1(2)] show "concat rest = drop n bs" "\<forall>p \<in> set rest. p \<noteq> [] \<and> length p \<le> n" "\<forall>p \<in> set (butlast rest). length p = n"
        unfolding rest_def by blast+
    qed
    show ?thesis
      unfolding p rest_def [symmetric] using full rest False 1(2) by (cases rest) auto
  qed (simp add: parts.simps)
qed

text \<open>While a chunk is taken: every row of the resource that has not expired is the upload at \<open>n\<close> confirmed bytes.\<close>

definition uploading_at :: "'s resource_env \<Rightarrow> resource_call \<Rightarrow> string \<Rightarrow> 64 word \<Rightarrow> 64 word \<Rightarrow> (resource_db, 's) rworld \<Rightarrow> bool" where
  "uploading_at E q i T n w \<longleftrightarrow> autocommit (rconn w)
     \<and> (\<forall>x \<in> set (files (working (rconn w))). t_id x = i \<longrightarrow>
          t_total x = T \<and> (\<not> file_dead (sql_now (rc_sql q)) x \<longrightarrow> t_uploaded x = n \<and> t_status x = ''uploading''))
     \<and> (\<exists>bs. stored (re_crypto E) i bs (rdisk w) \<and> length bs = unat n)"

lemma steady_uploading [simp]: "steady (uploading_at E q i T n)"
  by (simp add: steady_def uploading_at_def)

lemma uploading_not_published: "t_status r = ''uploading'' \<Longrightarrow> \<not> published r"
  by (simp add: published_def)

lemma row_goodI_uploading:
  assumes "stored cr (t_id r) bs k" and "length bs = unat (t_uploaded r)" and "t_uploaded r \<le> t_total r"
    and "length bs mod ChunkBytes = 0 \<or> t_uploaded r = t_total r" and "t_status r = ''uploading''" and "t_id r \<notin> fst ` G"
  shows "row_good cr G k r"
  using assms uploading_not_published [OF assms(5)] by (auto simp: row_good_def row_intact_def image_iff)

lemma uploading_not_fixed: "row_good cr G k r \<Longrightarrow> t_status r = ''uploading'' \<Longrightarrow> t_id r \<notin> fst ` G"
  using uploading_not_published by (auto simp: row_good_def)

lemma triple_confirm:
  assumes "env_ok E" and "validId i" and "m \<le> T" and "unat m mod ChunkBytes = 0 \<or> m = T"
  shows "triple (whole E G q) (\<lambda>w. uploading_at E q i T n w \<and> (\<exists>bs. stored (re_crypto E) i bs (rdisk w) \<and> length bs = unat m))
    (confirm E q i n m) (\<lambda>_. uploading_at E q i T m)"
  unfolding confirm_def
proof (rule triple_bind [OF triple_statement triple_check])
  let ?P = "\<lambda>r. re_collation E (t_id r) = re_collation E i \<and> t_uploaded r = n \<and> t_status r = ''uploading'' \<and> t_expires r > sql_now (rc_sql q)"
  fix w a d
  assume w: "whole E G q w" "uploading_at E q i T n w \<and> (\<exists>bs. stored (re_crypto E) i bs (rdisk w) \<and> length bs = unat m)"
    and u: "update_files (re_found E) ?P (\<lambda>r. r\<lparr>t_uploaded := m\<rparr>) (working (rconn w)) = Some (a, d)"
  obtain bs where bs: "stored (re_crypto E) i bs (rdisk w)" "length bs = unat m"
    using w(2) by blast
  have d: "files d = map (\<lambda>r. if ?P r then r\<lparr>t_uploaded := m\<rparr> else r) (files (working (rconn w)))"
    using u by (auto simp: update_files_def)
  show "permitted E G q (rdisk w) (working (rconn w)) d"
  proof (rule update_allowed [OF wholeD(3) [OF w(1)] u])
    fix x
    assume x: "x \<in> set (files (working (rconn w)))" "?P x"
    then have i: "t_id x = i"
      using row_of_id [OF assms(1) wholeD(3) [OF w(1)] assms(2)] by blast
    have T: "t_total x = T"
      using w(2) x(1) i by (simp add: uploading_at_def)
    have "\<not> file_dead (sql_now (rc_sql q)) x"
      using x(2) by (simp add: file_dead_def)
    then have "row_good (re_crypto E) G (rdisk w) x"
      using wholeD(3) [OF w(1)] x(1) by (simp add: files_ok_def)
    then have "t_id x \<notin> fst ` G"
      using uploading_not_fixed x(2) by blast
    then show "row_good (re_crypto E) G (rdisk w) (x\<lparr>t_uploaded := m\<rparr>)"
      using bs i T x(2) assms(3,4) by (intro row_goodI_uploading [of _ _ bs]) auto
  qed simp
  have "uploading_at E q i T m (put_tables d w)"
  proof -
    have "t_total x = T \<and> (\<not> file_dead (sql_now (rc_sql q)) x \<longrightarrow> t_uploaded x = m \<and> t_status x = ''uploading'')"
      if x: "x \<in> set (files d)" "t_id x = i" for x
    proof -
      obtain y where y: "y \<in> set (files (working (rconn w)))" "x = (if ?P y then y\<lparr>t_uploaded := m\<rparr> else y)"
        by (rule bexE [OF set_map_elem [OF x(1) [unfolded d]]])
      then have "t_id y = i"
        using x(2) by (simp split: if_splits)
      then have "t_total y = T \<and> (\<not> file_dead (sql_now (rc_sql q)) y \<longrightarrow> t_uploaded y = n \<and> t_status y = ''uploading'')"
        using w(2) y(1) by (simp add: uploading_at_def)
      note T = this
      show ?thesis
      proof (cases "?P y")
        case True
        then have "x = y\<lparr>t_uploaded := m\<rparr>"
          using y(2) by simp
        then show ?thesis
          using T True by simp
      next
        case False
        then have "file_dead (sql_now (rc_sql q)) y"
          using T \<open>t_id y = i\<close> by (auto simp: file_dead_def)
        moreover have "x = y"
          using y(2) False by (simp only: if_False)
        ultimately show ?thesis
          using T by simp
      qed
    qed
    then show ?thesis
      using w(2) bs by (auto simp: uploading_at_def put_tables_def)
  qed
  then show "uploading_at E q i T m (put_tables d w)" .
qed simp

lemma append_step:
  assumes "env_ok E" and "whole E G q w" and "uploading_at E q i T n w" and "unat n mod ChunkBytes = 0" and "n \<le> T"
    and "append_file (re_crypto E) fail i (unat n) p (rdisk w) = (r, k)"
  shows "whole E G q (w\<lparr>rdisk := k\<rparr>)" "uploading_at E q i T n (w\<lparr>rdisk := k\<rparr>)"
    "r = Returns m \<Longrightarrow> m = unat n + length p \<and> (\<exists>bs. stored (re_crypto E) i bs k \<and> length bs = m)"
proof -
  obtain bs where bs: "stored (re_crypto E) i bs (rdisk w)" "length bs = unat n"
    using assms(3) by (auto simp: uploading_at_def)
  note ap = stored_append [OF env_okD(1) [OF assms(1)] bs(1), unfolded bs(2), OF assms(4,6)]
  show "uploading_at E q i T n (w\<lparr>rdisk := k\<rparr>)"
    using assms(3) ap(1) bs(2) by (auto simp: uploading_at_def)
  show "m = unat n + length p \<and> (\<exists>bs. stored (re_crypto E) i bs k \<and> length bs = m)" if "r = Returns m"
    using ap(2) [OF that] bs(2) by (intro conjI exI [of _ "bs @ p"]) auto
  show "whole E G q (w\<lparr>rdisk := k\<rparr>)"
  proof (rule whole_disk [OF assms(2)])
    fix x
    assume x: "x \<in> set (files (durable (rconn w))) \<union> set (files (working (rconn w)))" "\<not> file_dead (sql_now (rc_sql q)) x"
      "row_good (re_crypto E) G (rdisk w) x"
    then have xw: "x \<in> set (files (working (rconn w)))"
      using wholeD(1) [OF assms(2)] assms(3) by (auto simp: uploading_at_def)
    show "row_good (re_crypto E) G k x"
    proof (cases "t_id x = i")
      case True
      then have "t_total x = T" "t_uploaded x = n" "t_status x = ''uploading''"
        using assms(3) xw x(2) by (auto simp: uploading_at_def)
      then show ?thesis
        using ap(1) bs(2) assms(4,5) True uploading_not_fixed [OF x(3)] by (intro row_goodI_uploading [of _ _ bs]) auto
    next
      case False
      then show ?thesis
        using stored_append_other [of i "t_id x"] assms(6) by (intro row_good_mono [OF x(3)]) (metis snd_conv)
    qed
  qed
qed

lemma unat_word_add: "unat (a :: 64 word) + n \<le> unat (b :: 64 word) \<Longrightarrow> unat (a + word_of_nat n) = unat a + n"
proof -
  assume le: "unat a + n \<le> unat b"
  have "unat b < 2 ^ 64"
    using unsigned_less [of b] by simp
  then show ?thesis
    using le by (simp add: unat_word_ariths unat_of_nat)
qed

text \<open>The shape of the pieces of one request, from \<open>offset\<close> on.\<close>

definition pieces_ok :: "64 word \<Rightarrow> 64 word \<Rightarrow> byte list list \<Rightarrow> bool" where
  "pieces_ok T offset ps \<longleftrightarrow> (ps \<noteq> [] \<longrightarrow> unat offset mod ChunkBytes = 0) \<and> (\<forall>p \<in> set ps. p \<noteq> [] \<and> length p \<le> ChunkBytes)
     \<and> (\<forall>p \<in> set (butlast ps). length p = ChunkBytes) \<and> unat offset + length (concat ps) \<le> unat T
     \<and> (length (concat ps) mod ChunkBytes = 0 \<or> unat offset + length (concat ps) = unat T)"

lemma pieces_Cons:
  assumes "pieces_ok T offset (p # ps)"
  shows "unat (offset + word_of_nat (length p)) = unat offset + length p" "pieces_ok T (offset + word_of_nat (length p)) ps"
    "p \<noteq> []" "length p \<le> ChunkBytes" "unat offset mod ChunkBytes = 0" "unat offset + length p \<le> unat T"
    "(unat offset + length p) mod ChunkBytes = 0 \<or> unat offset + length p = unat T"
proof -
  have p: "p \<noteq> []" "length p \<le> ChunkBytes" "unat offset mod ChunkBytes = 0" "unat offset + (length p + length (concat ps)) \<le> unat T"
    "(length p + length (concat ps)) mod ChunkBytes = 0 \<or> unat offset + (length p + length (concat ps)) = unat T"
    "ps \<noteq> [] \<longrightarrow> length p = ChunkBytes"
    using assms by (auto simp: pieces_ok_def)
  then show "p \<noteq> []" "length p \<le> ChunkBytes" "unat offset mod ChunkBytes = 0" "unat offset + length p \<le> unat T"
    by simp_all
  then show u: "unat (offset + word_of_nat (length p)) = unat offset + length p"
    using unat_word_add by blast
  show "(unat offset + length p) mod ChunkBytes = 0 \<or> unat offset + length p = unat T"
    using p(3,5,6) by (cases "ps = []") (auto simp: mod_add_left_eq [symmetric])
  show "pieces_ok T (offset + word_of_nat (length p)) ps"
  proof (cases "ps = []")
    case True
    then show ?thesis
      using p(4) u by (simp add: pieces_ok_def)
  next
    case False
    then show ?thesis
      using p u assms by (auto simp: pieces_ok_def)
  qed
qed

lemma within_confirmed:
  assumes "pieces_ok T offset (p # ps)" and "offset < n" and "unat n mod ChunkBytes = 0 \<or> n = T"
  shows "offset + word_of_nat (length p) \<le> n"
proof -
  note p = pieces_Cons [OF assms(1)]
  have "unat offset + length p \<le> unat n"
  proof (cases "n = T")
    case False
    then have a: "ChunkBytes dvd unat n" "ChunkBytes dvd unat offset" "unat offset < unat n"
      using assms(2,3) p(5) by (auto simp: word_less_nat_alt mod_eq_0_iff_dvd)
    then obtain x y where xy: "unat n = ChunkBytes * x" "unat offset = ChunkBytes * y"
      by (auto elim!: dvdE)
    then have "y < x"
      using a(3) by simp
    then have "ChunkBytes * Suc y \<le> ChunkBytes * x"
      by (intro mult_le_mono2) simp
    then show ?thesis
      using xy p(4) by simp
  qed (use p(6) in simp)
  then show ?thesis
    using p(1) by (simp add: word_le_nat_alt)
qed

lemma triple_chunk_loop:
  assumes "env_ok E" and "validId i"
  shows "pieces_ok T offset ps \<Longrightarrow> offset \<le> n \<Longrightarrow> n \<le> T \<Longrightarrow> unat n mod ChunkBytes = 0 \<or> n = T \<Longrightarrow>
    triple (whole E G q) (uploading_at E q i T n) (chunk_loop E q i offset n torn ps) (\<lambda>_ _. True)"
proof (induction ps arbitrary: offset n torn)
  case Nil
  then show ?case
    by (simp add: triple_return)
next
  case (Cons p ps)
  note p = pieces_Cons [OF Cons.prems(1)]
  show ?case
  proof (cases "offset < n")
    case True
    have "triple (whole E G q) (uploading_at E q i T n) (chunk_loop E q i (offset + word_of_nat (length p)) n torn ps) (\<lambda>_ _. True)"
      by (rule Cons.IH [OF p(2) within_confirmed [OF Cons.prems(1) True Cons.prems(4)] Cons.prems(3,4)])
    then show ?thesis
      using True by simp (rule triple_bind [OF triple_from_disk triple_require], assumption)
  next
    case False
    then have n: "n = offset"
      using Cons.prems(2) by simp
    let ?next = "offset + word_of_nat (length p)"
    have next_ok: "?next \<le> T" "unat ?next mod ChunkBytes = 0 \<or> ?next = T"
      using p(1,6,7) by (auto simp: word_le_nat_alt word_unat_eq_iff)
    have rest: "triple (whole E G q) (\<lambda>w. uploading_at E q i T n w \<and> (\<exists>bs. stored (re_crypto E) i bs (rdisk w) \<and> length bs = unat ?next))
        (a_then (confirm E q i n ?next) (chunk_loop E q i ?next ?next (tl torn) ps)) (\<lambda>_ _. True)"
      by (rule triple_then [OF triple_confirm [OF assms next_ok]], rule Cons.IH [OF p(2) order_refl next_ok])
    show ?thesis
      unfolding triple_def
    proof (intro allI impI)
      fix w
      assume w: "whole E G q w" "uploading_at E q i T n w"
      obtain r k where a: "append_file (re_crypto E) (first_torn torn) i (unat offset) p (rdisk w) = (r, k)"
        by (cases "append_file (re_crypto E) (first_torn torn) i (unat offset) p (rdisk w)")
      note st = append_step [OF assms(1) w _ Cons.prems(3), unfolded n, OF p(5) a]
      show "case chunk_loop E q i offset n torn (p # ps) w of (a, w') \<Rightarrow> whole E G q w' \<and> (\<forall>x. a = Ok x \<longrightarrow> True)"
      proof (cases r)
        case Throws
        then show ?thesis
          using False a st(1) by simp
      next
        case (Returns m)
        have mn: "m = unat ?next"
          using st(3) [OF Returns] p(1) by (simp only:)
        then have m: "word_of_nat m = ?next" "m = unat ?next"
          by simp_all
        have "uploading_at E q i T n (w\<lparr>rdisk := k\<rparr>) \<and> (\<exists>bs. stored (re_crypto E) i bs (rdisk (w\<lparr>rdisk := k\<rparr>)) \<and> length bs = unat ?next)"
          unfolding n using st(2) st(3) [OF Returns, THEN conjunct2, unfolded mn] by simp
        from rest [unfolded triple_def, THEN spec, THEN mp, OF st(1), THEN mp, OF this]
        have "case a_then (confirm E q i n ?next) (chunk_loop E q i ?next ?next (tl torn) ps) (w\<lparr>rdisk := k\<rparr>) of (a, w') \<Rightarrow> whole E G q w' \<and> (\<forall>x. a = Ok x \<longrightarrow> True)"
          .
        then show ?thesis
          using False a Returns m(1) by simp
      qed
    qed
  qed
qed

end
