(* ===== verification/Resource_Operations.thy ===== *)
theory Resource_Operations
  imports Resource_Integrity
begin

text \<open>The operations on files and avatars and the maintenance keep the invariant.\<close>

abbreviation auto :: "('d, 's) rworld \<Rightarrow> bool" where
  "auto w \<equiv> autocommit (rconn w)"

lemma steady_auto [simp]: "steady auto"
  by (simp add: steady_def)

lemma keeps_weaken: "keeps_inv I m \<Longrightarrow> triple I P m (\<lambda>_ _. True)"
  by (rule triple_pre) simp_all

lemma triple_case_prod: "(\<And>x y. triple I P (f x y) Q) \<Longrightarrow> triple I P (case a of (x, y) \<Rightarrow> f x y) Q"
  by (cases a) simp

lemma triple_case_option:
  "triple I P m Q \<Longrightarrow> (\<And>x. a = Some x \<Longrightarrow> triple I P (f x) Q) \<Longrightarrow> triple I P (case a of None \<Rightarrow> m | Some x \<Rightarrow> f x) Q"
  by (cases a) simp_all

lemmas branches = triple_if triple_case_prod triple_case_option

lemma keeps_answered [triples]: "keeps_inv I (lift_answer a)"
  by (rule triple_answered)

lemma triple_chunk:
  assumes "env_ok E"
  shows "triple (whole E G q) auto (chunk E q uid i offset bytes) (\<lambda>_ _. True)"
  unfolding chunk_def
proof (rule triple_require, rule triple_lock, rule triple_lease, rule triple_file [OF assms steady_auto], unfold prod.case,
    rule triple_require, rule triple_require, rule triple_require, rule triple_if)
  fix r :: resource_row
  assume bytes: "bytes \<noteq> [] \<and> length bytes \<le> 256 * 1024 \<and> unat offset mod PlainChunkBytes = 0" and i: "validId i" "t_id r = i"
    and live: "\<not> t_expires r \<le> sql_now (rc_sql q) \<and> t_status r = ''uploading''"
    and len: "offset \<le> t_total r \<and> word_of_nat (length bytes) \<le> t_total r - offset
      \<and> (length bytes mod PlainChunkBytes = 0 \<or> offset + word_of_nat (length bytes) = t_total r)"
    and le: "\<not> offset > t_uploaded r"
  have small: "unat (word_of_nat (length bytes) :: 64 word) = length bytes"
    using bytes by (simp add: unat_of_nat)
  have sum: "unat offset + length bytes \<le> unat (t_total r)"
    using len small by (auto simp: word_le_nat_alt unat_sub)
  have pieces: "pieces_ok (t_total r) offset (parts PlainChunkBytes (map of_char bytes))"
    using parts_props [of ChunkBytes "map of_char bytes"] bytes len sum unat_word_add [OF sum]
    by (auto simp: pieces_ok_def ChunkBytes_def)
  have up: "uploading_at E q i (t_total r) (t_uploaded r) w \<and> t_uploaded r \<le> t_total r
      \<and> (unat (t_uploaded r) mod ChunkBytes = 0 \<or> t_uploaded r = t_total r)"
    if w: "whole E G q w" "auto w" "r \<in> set (files (working (rconn w)))" for w
  proof -
    have "\<not> file_dead (sql_now (rc_sql q)) r"
      using live by (simp add: file_dead_def)
    then have "row_good (re_crypto E) G (rdisk w) r"
      using wholeD(3) [OF w(1)] w(3) by (simp add: files_ok_def)
    moreover have "x = r" if "x \<in> set (files (working (rconn w)))" "t_id x = i" for x
      using unique_row [OF wholeD(3) [OF w(1)] w(3) that(1)] that(2) i(2) by simp
    ultimately show ?thesis
      using w(2) live i(2) by (auto simp: row_good_def row_intact_def uploading_at_def)
  qed
  show "triple (whole E G q) (\<lambda>w. auto w \<and> r \<in> set (files (working (rconn w))))
      (a_bind (chunk_loop E q i offset (t_uploaded r) (rc_append q) (parts PlainChunkBytes (map of_char bytes)))
        (\<lambda>confirmed. a_return (file_json i (r\<lparr>t_uploaded := confirmed\<rparr>, t_expires r \<le> sql_now (rc_sql q))))) (\<lambda>_ _. True)"
  proof (rule triple_assume)
    show "t_uploaded r \<le> t_total r \<and> (unat (t_uploaded r) mod ChunkBytes = 0 \<or> t_uploaded r = t_total r)"
      if "whole E G q w" "auto w \<and> r \<in> set (files (working (rconn w)))" for w
      using up that by blast
    assume u: "t_uploaded r \<le> t_total r \<and> (unat (t_uploaded r) mod ChunkBytes = 0 \<or> t_uploaded r = t_total r)"
    show ?thesis
      by (rule triple_bind [OF triple_pre [OF triple_chunk_loop [OF assms i(1) pieces]] inv_return]) (use u le up in auto)
  qed
qed (rule triple_stop)

section \<open>Creating\<close>

lemma keeps_file_of [triples]: "keeps_inv (whole E G q) (file_of E q i)"
  unfolding file_of_def by (intro triples) (auto intro!: triples split: option.split)

lemma triple_create_disk:
  assumes "call_ok G q"
  shows "triple (whole E G q) P (on_disk (create (rc_prefix q) fail (rc_uuid q))) (\<lambda>_ w. stored (re_crypto E) (rc_uuid q) [] (rdisk w))"
proof (rule triple_disk)
  show "whole E G q (w\<lparr>rdisk := snd (create (rc_prefix q) fail (rc_uuid q) (rdisk w))\<rparr>)" if "whole E G q w" for w
    by (rule whole_spares [OF that]) (rule stored_create_any)
qed (use assms in \<open>auto simp: call_ok_def intro!: stored_create\<close>)

lemma keeps_create_disk [triples]: "keeps_inv (whole E G q) (on_disk (create prefix fail i))"
proof (rule triple_disk)
  show "whole E G q (w\<lparr>rdisk := snd (create prefix fail i (rdisk w))\<rparr>)" if "whole E G q w" for w
    by (rule whole_spares [OF that]) (rule stored_create_any)
qed simp

lemma keeps_insert_file:
  assumes "validId (rc_uuid q)" and "call_ok G q"
  shows "triple (whole E G q) (\<lambda>w. stored (re_crypto E) (rc_uuid q) [] (rdisk w))
    (sql (statement (insert_file (re_collation E) (new_file (sql_now (rc_sql q)) (rc_uuid q) uid touid name mime n digest key)))) (\<lambda>_ _. True)"
proof (rule triple_statement)
  fix w a d
  let ?r = "new_file (sql_now (rc_sql q)) (rc_uuid q) uid touid name mime n digest key"
  assume w: "whole E G q w" "stored (re_crypto E) (rc_uuid q) [] (rdisk w)"
    and ins: "insert_file (re_collation E) ?r (working (rconn w)) = Some (a, d)"
  have d: "d = (working (rconn w))\<lparr>files := files (working (rconn w)) @ [?r]\<rparr>"
    and new: "re_collation E (rc_uuid q) \<notin> (\<lambda>x. re_collation E (t_id x)) ` set (files (working (rconn w)))"
    using ins by (auto simp: insert_file_def list_ex_iff new_file_def split: if_splits)
  have "row_good (re_crypto E) G (rdisk w) ?r"
    by (rule row_goodI_uploading [of _ _ "[]"]) (use w(2) assms(2) in \<open>auto simp: new_file_def call_ok_def\<close>)
  then show "permitted E G q (rdisk w) (working (rconn w)) d"
    using wholeD(3) [OF w(1)] new assms(1) by (auto simp: permitted_def files_ok_def d file_ids_def variant_names_def new_file_def)
qed simp_all

lemma triple_create_new:
  assumes "env_ok E" and "call_ok G q"
  shows "triple (whole E G q) (\<lambda>_. True) (create_new E q uid touid name mime n digest key) (\<lambda>_ w. auto w \<and> committed w)"
proof -
  have fin: "triple (whole E G q) (\<lambda>_. True) (a_then tx_commit (a_bind (file_of E q i) (\<lambda>f. a_return (file_json i f)))) (\<lambda>_ w. auto w \<and> committed w)" for i
    by (rule triple_then [OF triple_commit], rule triple_file [OF assms(1)], simp add: steady_def, rule triple_return) simp
  show ?thesis
    unfolding create_new_def
    by (rule triple_bind [OF keeps_select], rule triple_require, rule triple_bind [OF keeps_select], rule triple_case_prod,
        rule triple_require, rule triple_lock, rule triple_then [OF triple_create_disk [OF assms(2)]],
        rule triple_then [OF keeps_insert_file [OF _ assms(2)]], assumption, rule fin)
qed

lemma triple_resume:
  assumes "env_ok E" and "call_ok G q"
  shows "triple (whole E G q) (\<lambda>_. True) (create_or_resume E q uid v name mime n digest key) (\<lambda>_ w. auto w \<and> committed w)"
  unfolding create_or_resume_def
proof (rule triple_bind [OF keeps_select], rule triple_require, rule triple_bind [OF keeps_select])
  fix old :: "resource_row option"
  show "triple (whole E G q) (\<lambda>_. True)
      (case old of
         Some prior \<Rightarrow>
           a_bind (file_of E q (t_id prior)) (\<lambda>(r, expired).
           a_then (require (JInt (t_receiver r) = field ''touid'' v \<and> t_name r = name \<and> t_sha256 r = digest \<and> t_total r = n \<and> t_mime r = mime)
                     409 ''idempotency conflict'')
          (a_then (require (\<not> expired \<and> t_status r \<noteq> ''cancelled'') 410 ''upload expired'')
          (a_then tx_commit (a_return (file_json (t_id prior) (r, expired))))))
       | None \<Rightarrow> create_new E q uid (int_val (field ''touid'' v)) name mime n digest key) (\<lambda>_ w. auto w \<and> committed w)"
  proof (cases old)
    case None
    then show ?thesis
      by (simp add: triple_create_new [OF assms])
  next
    case (Some prior)
    show ?thesis
      unfolding Some option.case
      by (rule triple_file [OF assms(1) steady_True], unfold prod.case, rule triple_require, rule triple_require,
          rule triple_then [OF triple_commit], rule triple_return)
  qed
qed

lemma triple_tx:
  assumes "triple (whole E G q) (\<lambda>_. True) body (\<lambda>_ w. auto w \<and> committed w)"
  shows "triple (whole E G q) auto (Transaction body) (\<lambda>_. auto)"
  by (rule triple_pre [OF triple_transaction [where P = "\<lambda>_. True"]], rule triple_pre [OF assms]) simp_all

lemma triple_create_upload:
  assumes "env_ok E" and "call_ok G q"
  shows "triple (whole E G q) auto (create_upload E q uid v) (\<lambda>_ _. True)"
  unfolding create_upload_def Let_def
  by (rule triple_require, rule triple_demand, rule triple_require, rule triple_require, rule triple_require, rule triple_lease,
      rule triple_true [OF triple_tx [OF triple_resume [OF assms]]])

section \<open>Completing\<close>

lemma inv_notify: "keeps_inv (whole E G q) (notify E q key kind v)"
  unfolding notify_def
  by (rule keeps_other_tables) (auto simp: insert_event_def variant_names_def split: option.splits if_splits)

lemma triple_publish:
  assumes "env_ok E" and "validId i" and "t_id r = i" and "t_uploaded r = t_total r" and "\<not> file_dead (sql_now (rc_sql q)) r"
  shows "triple (whole E G q) (\<lambda>w. r \<in> set (files (working (rconn w)))
      \<and> (\<exists>bs. stored (re_crypto E) i bs (rdisk w) \<and> length bs = unat (t_total r) \<and> sha256_hex (re_crypto E) bs = t_sha256 r))
    (publish E q i (r, e)) (\<lambda>_ w. auto w \<and> committed w)"
  unfolding publish_def Let_def
proof (rule triple_bind [OF triple_statement [where Q = "\<lambda>_ _. True"]], goal_cases)
  case (1 w a d)
  have r: "r \<in> set (files (working (rconn w)))"
    using 1(2) by simp
  obtain bs where bs: "stored (re_crypto E) i bs (rdisk w)" "length bs = unat (t_total r)" "sha256_hex (re_crypto E) bs = t_sha256 r"
    using 1(2) by blast
  show ?case
  proof (rule update_allowed [OF wholeD(3) [OF 1(1)] 1(3)])
    fix x
    assume x: "x \<in> set (files (working (rconn w)))" "re_collation E (t_id x) = re_collation E i \<and> t_status x = ''uploading''"
    then have xr: "x = r"
      using unique_row [OF wholeD(3) [OF 1(1)] r x(1)] assms(3) by simp
    have "row_good (re_crypto E) G (rdisk w) r"
      using wholeD(3) [OF 1(1)] r assms(5) by (simp add: files_ok_def)
    then have "i \<notin> fst ` G"
      using uploading_not_fixed x(2) xr assms(3) by blast
    then show "row_good (re_crypto E) G (rdisk w)
        (x\<lparr>t_status := ''available'', t_completed := Some (sql_now (rc_sql q)), t_expires := sql_now (rc_sql q) + days 7\<rparr>)"
      using bs assms(3,4) by (auto simp: row_good_def row_intact_def xr image_iff intro!: exI [of _ bs])
  qed simp
next
  case (4 n)
  show ?case
    by (rule triple_require, rule triple_then [OF keeps_weaken [OF inv_notify]], rule triple_then [OF triple_commit], rule triple_return) 
qed simp_all

lemma triple_complete:
  assumes "env_ok E"
  shows "triple (whole E G q) auto (complete E q uid i) (\<lambda>_ _. True)"
  unfolding complete_def
proof (rule triple_lock, rule triple_lease, rule triple_file [OF assms steady_auto], unfold prod.case, rule triple_require, rule triple_require, rule triple_if)
  fix r :: resource_row
  assume i: "validId i" "t_id r = i" and live: "\<not> t_expires r \<le> sql_now (rc_sql q) \<and> t_status r \<noteq> ''cancelled''"
  let ?in = "\<lambda>w. r \<in> set (files (working (rconn w)))"
  have alive: "\<not> file_dead (sql_now (rc_sql q)) r"
    using live by (simp add: file_dead_def)
  let ?B = "\<lambda>digest w. \<exists>bs. stored (re_crypto E) i bs (rdisk w) \<and> length bs = unat (t_total r) \<and> sha256_hex (re_crypto E) bs = digest"
  show "triple (whole E G q) (\<lambda>w. auto w \<and> ?in w)
     (a_then (require (t_uploaded r = t_total r) 409 ''upload incomplete'')
      (a_bind (from_disk (sha256 (re_crypto E) i (unat (t_total r)))) (\<lambda>digest.
       a_then (require (digest = t_sha256 r) 422 ''checksum mismatch'')
         (Transaction (publish E q i (r, t_expires r \<le> sql_now (rc_sql q))))))) (\<lambda>_ _. True)"
  proof (rule triple_require, rule triple_bind)
    assume u: "t_uploaded r = t_total r"
    show "triple (whole E G q) (\<lambda>w. auto w \<and> ?in w) (from_disk (sha256 (re_crypto E) i (unat (t_total r)))) (\<lambda>digest w. (?in w \<and> ?B digest w) \<and> auto w)"
    proof (rule triple_from_disk)
      fix digest w
      assume w: "whole E G q w" "auto w \<and> ?in w" "sha256 (re_crypto E) i (unat (t_total r)) (rdisk w) = Returns digest"
      have "row_intact (re_crypto E) (rdisk w) r"
        using wholeD(3) [OF w(1)] w(2) alive by (simp add: files_ok_def row_good_def)
      then obtain bs where bs: "stored (re_crypto E) i bs (rdisk w)" "length bs = unat (t_total r)"
        using i(2) u by (auto simp: row_intact_def)
      then show "(?in w \<and> ?B digest w) \<and> auto w"
        using stored_sha256 [OF env_okD(1) [OF assms] bs(1)] w(2,3) by auto
    qed
    fix digest
    show "triple (whole E G q) (\<lambda>w. (?in w \<and> ?B digest w) \<and> auto w)
       (a_then (require (digest = t_sha256 r) 422 ''checksum mismatch'') (Transaction (publish E q i (r, t_expires r \<le> sql_now (rc_sql q))))) (\<lambda>_ _. True)"
    proof (rule triple_require)
      assume "digest = t_sha256 r"
      then show "triple (whole E G q) (\<lambda>w. (?in w \<and> ?B digest w) \<and> auto w) (Transaction (publish E q i (r, t_expires r \<le> sql_now (rc_sql q)))) (\<lambda>_ _. True)"
        by (intro triple_true [OF triple_transaction [where Q = "\<lambda>_. auto"]] triple_pre [OF triple_publish [OF assms i u alive]]) auto
    qed
  qed
qed (rule keeps_weaken [OF inv_return])

text \<open>
  Steps that leave the connection alone keep it outside of a transaction; \<open>frame I P m\<close> is a step that keeps the
  invariant and \<open>P\<close>.
\<close>

abbreviation frame :: "(('d, 's) rworld \<Rightarrow> bool) \<Rightarrow> (('d, 's) rworld \<Rightarrow> bool) \<Rightarrow> ('d, 's, 'a) act \<Rightarrow> bool" where
  "frame I P m \<equiv> triple I P m (\<lambda>_. P)"

named_theorems frames \<open>steps that keep a condition\<close>

lemma frame_return [frames]: "frame I P (a_return a)"
  by (rule triple_return)

lemma frame_bind [frames]: "frame I P m \<Longrightarrow> (\<And>a. frame I P (f a)) \<Longrightarrow> frame I P (a_bind m f)"
  by (rule triple_bind)

lemma frame_then [frames]: "frame I P m \<Longrightarrow> frame I P k \<Longrightarrow> frame I P (a_then m k)"
  by (rule triple_then)

lemma frame_demand [frames]: "frame I P (demand v)"
  by (auto simp: demand_def triple_def a_return_def a_crash_def split: option.split)

lemma frame_parse [frames]: "frame I P (parse_object lib s)"
  by (rule triple_post [OF triple_parse]) simp

lemma frame_select [frames]: "steady P \<Longrightarrow> frame (whole E G q) P (sql (select f))"
  by (rule triple_post [OF triple_select]) simp_all

lemma frame_disk_read [frames]: "frame I P (from_disk f)"
  by (rule triple_from_disk)

lemmas frame_stops [frames] = triple_stop [where Q = "\<lambda>_. P" for P] triple_check triple_number triple_answered

section \<open>Answers\<close>

text \<open>\<open>yields m R\<close>: if \<open>m\<close> ends with a value, the value satisfies \<open>R\<close>.\<close>

definition yields :: "('d, 's, 'a) act \<Rightarrow> ('a \<Rightarrow> bool) \<Rightarrow> bool" where
  "yields m R \<longleftrightarrow> (\<forall>w x w'. m w = (Ok x, w') \<longrightarrow> R x)"

named_theorems yielding \<open>rules for answers\<close>

lemma yields_return [yielding]: "R a \<Longrightarrow> yields (a_return a) R"
  by (simp add: yields_def a_return_def)

lemma yields_stop [yielding]: "yields (a_fail n t) R" "yields a_crash R"
  by (simp_all add: yields_def a_fail_def a_crash_def)

lemma yields_bind: "yields m S \<Longrightarrow> (\<And>a. S a \<Longrightarrow> yields (f a) R) \<Longrightarrow> yields (a_bind m f) R"
  by (fastforce simp: yields_def a_bind_def split: prod.splits answer.splits)

lemma yields_any: "yields m (\<lambda>_. True)"
  by (simp add: yields_def)

lemma yields_bind_any [yielding]: "(\<And>a. yields (f a) R) \<Longrightarrow> yields (a_bind m f) R"
  by (rule yields_bind [OF yields_any])

lemma yields_require: "(b \<Longrightarrow> yields k R) \<Longrightarrow> yields (a_then (require b n t) k) R"
  by (cases b) (simp_all add: yields_def a_then_def a_bind_def require_def a_return_def a_fail_def)

lemma yields_then [yielding]: "yields k R \<Longrightarrow> yields (a_then m k) R"
  unfolding a_then_def by (rule yields_bind_any)

lemma yields_branches [yielding]:
  "(b \<Longrightarrow> yields m R) \<Longrightarrow> (\<not> b \<Longrightarrow> yields k R) \<Longrightarrow> yields (if b then m else k) R"
  "(\<And>x y. yields (f x y) R) \<Longrightarrow> yields (case p of (x, y) \<Rightarrow> f x y) R"
  "yields k R \<Longrightarrow> (\<And>x. yields (g x) R) \<Longrightarrow> yields (case v of None \<Rightarrow> k | Some x \<Rightarrow> g x) R"
  by (cases p; cases v; simp)+

lemma yields_transaction [yielding]: "yields body R \<Longrightarrow> yields (Transaction body) R"
  by (auto simp: yields_def Transaction_def split: prod.splits answer.splits)

lemma triple_yields: "triple I P m Q \<Longrightarrow> yields m R \<Longrightarrow> triple I P m (\<lambda>x w. Q x w \<and> R x)"
  unfolding triple_def yields_def by (fastforce split: prod.splits)

section \<open>Access to files\<close>

lemma keeps_byte_range [triples]: "keeps_inv I (byte_range s n)"
  unfolding byte_range_def by (intro triples branches)

definition in_range :: "64 word \<Rightarrow> 64 word \<times> 64 word \<Rightarrow> bool" where
  "in_range n p \<longleftrightarrow> (case p of (begin, finish) \<Rightarrow> begin \<le> finish \<and> finish < n)"

lemma less_pred: "0 < (n :: 64 word) \<Longrightarrow> m \<le> n - 1 \<Longrightarrow> m < n"
  by (auto simp: word_less_nat_alt word_le_nat_alt unat_sub_if')

lemma yields_byte_range: "yields (byte_range s n) (in_range n)"
  unfolding byte_range_def
proof (rule yields_require, rule yields_branches(3), rule yields_stop, rule yields_branches(2), rule yields_require, rule yields_bind)
  fix first final
  assume n: "0 < n"
  show "yields (if first = [] then a_bind (number_of final) (\<lambda>suffix.
          a_then (require (suffix > 0) 416 ''invalid suffix'') (a_return (n - min n suffix, n - 1)))
        else a_bind (number_of first) (\<lambda>begin.
          if final \<noteq> [] then a_bind (number_of final) (\<lambda>m. a_return (begin, min (n - 1) m)) else a_return (begin, n - 1))) (\<lambda>(begin, finish). finish < n)"
    by (intro yielding) (auto intro: less_pred [OF n])
  fix p :: "64 word \<times> 64 word"
  assume "case p of (begin, finish) \<Rightarrow> finish < n"
  then show "yields (case p of (begin, finish) \<Rightarrow> a_then (require (begin < n \<and> finish \<ge> begin) 416 ''range outside file'') (a_return (begin, finish))) (in_range n)"
    by (cases p) (auto intro!: yields_require yields_return simp: in_range_def)
qed

definition covers :: "string \<Rightarrow> 64 word \<Rightarrow> resource_response \<Rightarrow> bool" where
  "covers i n rs \<longleftrightarrow> rs_stream rs = i \<and> unat (rs_begin rs) + unat (rs_length rs) \<le> unat n"

lemma range_length:
  assumes "in_range n (begin, finish)"
  shows "unat begin + unat (finish - begin + 1) \<le> unat n"
proof -
  have le: "unat begin \<le> unat finish" "unat finish < unat n"
    using assms by (simp_all add: in_range_def word_le_nat_alt word_less_nat_alt)
  have "unat (finish - begin) = unat finish - unat begin"
    using assms by (simp add: in_range_def unat_sub)
  moreover have "unat ((finish - begin) + word_of_nat 1) = unat (finish - begin) + 1"
    by (rule unat_word_add [of _ _ n]) (use le calculation in simp)
  ultimately show ?thesis
    using le by simp
qed

lemma yields_content: "yields (content i r req) (covers i (t_total r))"
  unfolding content_def Let_def
proof (rule yields_branches(1), rule yields_bind [OF yields_byte_range])
  fix p
  assume "in_range (t_total r) p"
  then show "yields (case p of (begin, finish) \<Rightarrow>
      a_return (empty_response\<lparr>rs_stream := i, rs_type := ''application/octet-stream'', rs_length := t_total r, rs_begin := begin,
        rs_length := finish - begin + 1, rs_status := 206,
        rs_headers := (''Content-Range'', ''bytes '' @ to_string (uint begin) @ ''-'' @ to_string (uint finish) @ ''/'' @ to_string (uint (t_total r)))
          # [(''Accept-Ranges'', ''bytes''), (''ETag'', CHR 0x22 # t_sha256 r @ [CHR 0x22]), (''Cache-Control'', ''private, no-store'')]\<rparr>))
      (covers i (t_total r))"
    by (cases p) (auto intro!: yields_return simp: covers_def dest: range_length)
qed (rule yields_return, simp add: covers_def empty_response_def)

lemma frame_content: "frame I P (content i r req)"
  unfolding content_def byte_range_def Let_def by (intro frames branches)

text \<open>What an answer with a stream means for the user who asked.\<close>

definition streams :: "resource_call \<Rightarrow> int \<Rightarrow> resource_response \<Rightarrow> (resource_db, 's) rworld \<Rightarrow> bool" where
  "streams q uid rs w \<longleftrightarrow> rs_stream rs = [] \<or> (\<exists>r \<in> set (files (durable (rconn w))). published r \<and> \<not> file_dead (sql_now (rc_sql q)) r
     \<and> t_receiver r = uid \<and> covers (t_id r) (t_total r) rs)"

lemma streamsI:
  assumes "whole E G q w" and "auto w" and "r \<in> set (files (working (rconn w)))" and "published r" and "\<not> file_dead (sql_now (rc_sql q)) r"
    and "t_receiver r = uid" and "covers (t_id r) (t_total r) rs"
  shows "streams q uid rs w"
  using assms(2-7) wholeD(1) [OF assms(1)] by (auto simp: streams_def)

lemma streams_plain [simp]: "streams q uid (result E v n) w" "streams q uid (empty_response\<lparr>rs_status := n\<rparr>) w"
  by (simp_all add: streams_def result_def empty_response_def)

lemma keeps_cancel: "keeps_inv (whole E G q) (set_status E i (\<lambda>x. x\<lparr>t_status := ''cancelled'', t_expires := t\<rparr>))"
  unfolding set_status_def
  by (rule triple_statement) (auto intro!: update_allowed [OF wholeD(3)] simp: file_dead_def)

lemma keeps_downloaded:
  assumes "validId i" and "t_id r = i" and "published r" and "\<not> file_dead (sql_now (rc_sql q)) r"
  shows "triple (whole E G q) (\<lambda>w. r \<in> set (files (working (rconn w))))
    (set_status E i (\<lambda>x. x\<lparr>t_status := ''downloaded'', t_downloaded := Some (case t_downloaded x of None \<Rightarrow> sql_now (rc_sql q) | Some t \<Rightarrow> t),
       t_expires := min (t_expires x) (sql_now (rc_sql q) + days 1)\<rparr>)) (\<lambda>_ _. True)"
  unfolding set_status_def
proof (rule triple_statement, goal_cases)
  case (1 w a d)
  show ?case
  proof (rule update_allowed [OF wholeD(3) [OF 1(1)] 1(3)])
    fix x
    assume "x \<in> set (files (working (rconn w)))" "re_collation E (t_id x) = re_collation E i"
    then have xr: "x = r"
      using unique_row [OF wholeD(3) [OF 1(1)] 1(2)] assms(2) by simp
    have "row_good (re_crypto E) G (rdisk w) r"
      using wholeD(3) [OF 1(1)] 1(2) assms(4) by (simp add: files_ok_def)
    then show "row_good (re_crypto E) G (rdisk w) (x\<lparr>t_status := ''downloaded'', t_downloaded := Some (case t_downloaded x of None \<Rightarrow> sql_now (rc_sql q) | Some t \<Rightarrow> t),
        t_expires := min (t_expires x) (sql_now (rc_sql q) + days 1)\<rparr>)"
      using assms(3) by (auto simp: row_good_def row_intact_def xr published_def)
  qed simp
qed simp_all

lemma triple_access:
  assumes "env_ok E"
  shows "triple (whole E G q) auto (access_file E q uid req kind i action) (streams q uid)"
  unfolding access_file_def
proof (rule triple_lock, rule triple_lease, rule triple_file [OF assms steady_auto], unfold prod.case,
    rule triple_require, rule triple_require, rule triple_require, rule triple_if)
  fix r :: resource_row
  assume i: "validId i" "t_id r = i" and live: "\<not> t_expires r \<le> sql_now (rc_sql q) \<and> t_status r \<noteq> ''cancelled''"
  let ?P = "\<lambda>w. auto w \<and> r \<in> set (files (working (rconn w)))"
  show "triple (whole E G q) ?P (a_return (result E (file_json i (r, t_expires r \<le> sql_now (rc_sql q))) 200)) (streams q uid)"
    by (rule triple_return) simp
  have alive: "\<not> file_dead (sql_now (rc_sql q)) r"
    using live by (simp add: file_dead_def)
  have "triple (whole E G q) ?P
      (set_status E i (\<lambda>x. x\<lparr>t_status := ''downloaded'', t_downloaded := Some (case t_downloaded x of None \<Rightarrow> sql_now (rc_sql q) | Some t \<Rightarrow> t),
         t_expires := min (t_expires x) (sql_now (rc_sql q) + days 1)\<rparr>)) (\<lambda>_ _. True)"
    if "t_status r = ''available'' \<or> t_status r = ''downloaded''"
    by (rule triple_pre [OF keeps_downloaded [OF i _ alive]]) (use that in \<open>simp_all add: published_def\<close>)
  then show "triple (whole E G q) ?P
      (if rq_method req = Delete_verb \<and> action = [] then
         a_then (require (kind = ''uploads'' \<longrightarrow> t_status r = ''uploading'') 409 ''upload already published'')
        (a_then (set_status E i (\<lambda>x. x\<lparr>t_status := ''cancelled'', t_expires := sql_now (rc_sql q)\<rparr>))
          (a_return (empty_response\<lparr>rs_status := 204\<rparr>)))
       else
         a_then (require (kind = ''files'' \<and> t_receiver r = uid) 403 ''receiver required'')
        (a_then (require (t_status r = ''available'' \<or> t_status r = ''downloaded'') 409 ''file not available'')
        (if rq_method req = Post_verb \<and> action = ''downloaded'' then
           a_then (set_status E i (\<lambda>x. x\<lparr>t_status := ''downloaded'',
               t_downloaded := Some (case t_downloaded x of None \<Rightarrow> sql_now (rc_sql q) | Some t \<Rightarrow> t),
               t_expires := min (t_expires x) (sql_now (rc_sql q) + days 1)\<rparr>))
             (a_return (result E (file_json i (r, t_expires r \<le> sql_now (rc_sql q))) 200))
         else a_then (require (rq_method req = Get_verb \<and> action = ''content'') 404 ''route not found'') (content i r req)))) (streams q uid)"
  proof (intro triple_if triple_require triple_then [OF keeps_weaken [OF keeps_cancel]] triple_then [of _ _ _ "\<lambda>_. True"] triple_return streams_plain, goal_cases)
    case 2
    show ?case
      by (rule triple_post [OF triple_yields [OF frame_content yields_content]]) (use 2 i(2) alive in \<open>auto simp: published_def intro: streamsI\<close>)
  qed auto
qed

section \<open>Avatars\<close>

lemma append_spares:
  assumes "whole E G q w" and "i \<in> new_names q"
  shows "whole E G q (w\<lparr>rdisk := snd (append_file cr fail i off p (rdisk w))\<rparr>)"
proof (rule whole_spares [OF assms(1)])
  fix j bs
  assume j: "j \<in> file_ids (durable (rconn w)) \<union> file_ids (working (rconn w))" "stored (re_crypto E) j bs (rdisk w)"
  then have "j \<noteq> i"
    using tables_okD(4) [OF assms(1) [unfolded whole_def], of i] assms(2) by blast
  then have eq: "enc_files (snd (append_file cr fail i off p (rdisk w))) j = enc_files (rdisk w) j \<and> lock_files (snd (append_file cr fail i off p (rdisk w))) = lock_files (rdisk w)"
    by (rule append_other)
  show "stored (re_crypto E) j bs (snd (append_file cr fail i off p (rdisk w)))"
    by (rule stored_same [of _ j "rdisk w"]) (use eq j(2) in simp_all)
qed

lemma keeps_append_all: "i \<in> new_names q \<Longrightarrow> keeps_inv (whole E G q) (append_all cr torn i pos ps)"
proof (induction ps arbitrary: torn pos)
  case (Cons p ps)
  show ?case
    by simp (rule inv_then, rule triple_disk, rule append_spares, assumption, rule Cons.prems, simp, rule Cons.IH [OF Cons.prems])
qed (simp add: inv_return)

definition named_by :: "json_lib \<Rightarrow> json \<Rightarrow> string set" where
  "named_by L v = {i. \<exists>m \<in> set (members v). variant_id L m = Some i}"

lemma named_by_add: "isObject v \<or> isNull v \<Longrightarrow> named_by L (add_variant n i len v) \<subseteq> insert i (named_by L v)"
proof -
  have sub: "snd ` set (AList.update k x kvs) \<subseteq> insert x (snd ` set kvs)" for k x and kvs :: "(string \<times> json) list"
    by (induction kvs) auto
  have "variant_id L (JObj [(''id'', JStr i), (''bytes'', b)]) = Some i" for b
    by (simp add: variant_id_def has_members_def field_def)
  then show "isObject v \<or> isNull v \<Longrightarrow> named_by L (add_variant n i len v) \<subseteq> insert i (named_by L v)"
    using sub by (cases v) (fastforce simp: named_by_def add_variant_def set_member_def)+
qed

lemma keeps_set_variants:
  assumes "env_ok E" and "named_by (re_lib E) v \<subseteq> new_names q"
  shows "keeps_inv (whole E G q) (sql (statement (set_variants E i v)))"
proof (rule keeps_other_tables)
  fix d a d'
  assume "set_variants E i v d = Some (a, d')"
  then obtain t where t: "re_column E (toStyledString (re_lib E) v) = Some t"
    and d': "d' = d\<lparr>avatars := map (\<lambda>a. if re_collation E (av_id a) = re_collation E i then a\<lparr>av_variants := t\<rparr> else a) (avatars d)\<rparr>"
    by (auto simp: set_variants_def)
  have "names_in (re_lib E) t \<subseteq> new_names q"
    using env_okD(3) [OF assms(1) t] assms(2) by (auto simp: named_by_def)
  then show "files d' = files d \<and> variant_names E d' \<subseteq> variant_names E d \<union> new_names q"
    by (auto simp: d' variant_names_def split: if_splits)
qed

lemma new_name [simp]: "vc_uuid (rc_variant q n) \<in> new_names q"
  by (simp add: new_names_def)

lemma keeps_store_variants:
  assumes "env_ok E"
  shows "isObject v \<or> isNull v \<Longrightarrow> named_by (re_lib E) v \<subseteq> new_names q \<Longrightarrow> keeps_inv (whole E G q) (store_variants E q i im v ns)"
proof (induction ns arbitrary: v)
  case (Cons n ns)
  have sub: "named_by (re_lib E) (add_variant n (vc_uuid (rc_variant q n)) len v) \<subseteq> new_names q" for len
    using named_by_add [OF Cons.prems(1)] Cons.prems(2) new_name [of q n] by fast
  have obj: "isObject (add_variant n (vc_uuid (rc_variant q n)) len v) \<or> isNull (add_variant n (vc_uuid (rc_variant q n)) len v)" for len
    by (simp add: add_variant_def)
  show ?case
    unfolding store_variants.simps Let_def
    by (intro inv_bind keeps_answered inv_then keeps_set_variants [OF assms sub] keeps_create_disk keeps_append_all new_name Cons.IH [OF obj sub])
qed (simp add: inv_return)

lemma triple_switch: "triple (whole E G q) P (switch_avatar E q uid expected i) (\<lambda>_ w. auto w \<and> committed w)"
proof -
  have p: "keeps_inv (whole E G q) (sql (statement (set_avatar uid i)))"
    by (rule keeps_other_tables) (auto simp: set_avatar_def variant_names_def)
  have a: "keeps_inv (whole E G q) (sql (statement (update_avatar_row (re_collation E) j t)))" for j t
    by (rule keeps_other_tables) (auto simp: update_avatar_row_def variant_names_def split: if_splits)
  show ?thesis
    unfolding switch_avatar_def Let_def
    by (rule triple_pre [of _ "\<lambda>_. True"], rule triple_bind [OF keeps_select], rule triple_case_option, rule triple_stop, rule triple_require,
        rule triple_then [OF p], rule triple_then [OF a], rule triple_then [OF triple_if [OF a inv_return]],
        rule triple_then [OF inv_notify], rule triple_then [OF triple_commit], rule triple_return) simp_all
qed

lemma frame_redis [frames]: "(\<And>w s. P (w\<lparr>rredis := s\<rparr>) = P w) \<Longrightarrow> frame (whole E G q) P (redis_do c args)"
  by (auto simp: triple_def redis_do_def split: prod.splits option.splits reply.splits)

lemma frame_redis_get [frames]: "(\<And>w s. P (w\<lparr>rredis := s\<rparr>) = P w) \<Longrightarrow> frame (whole E G q) P (redis_get c k)"
  unfolding redis_get_def by (intro frames) (auto intro!: frames split: reply.split)

lemma frame_authenticate: "frame (whole E G q) auto (authenticate_request E' a n)"
  unfolding authenticate_request_def by (intro frames branches) simp_all

lemma frame_insert_avatar:
  assumes "env_ok E"
  shows "frame (whole E G q) auto (sql (statement (insert_avatar E now i uid)))"
proof (rule triple_statement)
  fix w a d
  assume w: "whole E G q w" "insert_avatar E now i uid (working (rconn w)) = Some (a, d)"
  have "files d = files (working (rconn w)) \<and> variant_names E d \<subseteq> variant_names E (working (rconn w)) \<union> new_names q"
    using w(2) env_okD(4) [OF assms] by (auto simp: insert_avatar_def variant_names_def split: option.splits if_splits)
  then show "permitted E G q (rdisk w) (working (rconn w)) d"
    using wholeD(3) [OF w(1)] by (intro allowed_same) auto
qed (simp_all add: put_tables_def)

text \<open>The connection of \<open>store_variants\<close> is not in a transaction at the end either.\<close>

lemma frame_statement:
  assumes "keeps_inv (whole E G q) (sql (statement f))"
  shows "frame (whole E G q) auto (sql (statement f))"
  unfolding triple_def
proof (intro allI impI)
  fix w
  assume w: "whole E G q w" "auto w"
  obtain a w' where m: "sql (statement f) w = (a, w')"
    by (cases "sql (statement f) w")
  have "wp (statement f) (\<lambda>_ c. autocommit c) (\<lambda>_. True) (rconn w)"
    by (rule wp_statement) (use w(2) in simp_all)
  then have "a = Ok x \<Longrightarrow> auto w'" for x
    using m by (auto simp: wp_def sql_def split: prod.splits outcome.splits)
  then show "case sql (statement f) w of (a, w') \<Rightarrow> whole E G q w' \<and> (\<forall>x. a = Ok x \<longrightarrow> auto w')"
    using m tripleD(1) [OF assms m w(1)] by auto
qed

lemma frame_disk:
  assumes "keeps_inv I (on_disk f)"
  shows "frame I auto (on_disk f)"
  unfolding triple_def
proof (intro allI impI)
  fix w
  assume w: "I w" "auto w"
  obtain a w' where m: "on_disk f w = (a, w')"
    by (cases "on_disk f w")
  have "rconn w' = rconn w"
    using m by (auto simp: on_disk_def split: prod.splits outcome.splits)
  then show "case on_disk f w of (a, w') \<Rightarrow> I w' \<and> (\<forall>x. a = Ok x \<longrightarrow> auto w')"
    using m tripleD(1) [OF assms m w(1)] w(2) by simp
qed

lemma frame_append_all: "i \<in> new_names q \<Longrightarrow> frame (whole E G q) auto (append_all cr torn i pos ps)"
proof (induction ps arbitrary: torn pos)
  case (Cons p ps)
  show ?case
    by simp (rule frame_then, rule frame_disk, rule triple_disk, rule append_spares, assumption, rule Cons.prems, simp, rule Cons.IH [OF Cons.prems])
qed (simp add: frame_return)

lemma frame_store_variants:
  assumes "env_ok E"
  shows "isObject v \<or> isNull v \<Longrightarrow> named_by (re_lib E) v \<subseteq> new_names q \<Longrightarrow> frame (whole E G q) auto (store_variants E q i im v ns)"
proof (induction ns arbitrary: v)
  case (Cons n ns)
  have sub: "named_by (re_lib E) (add_variant n (vc_uuid (rc_variant q n)) len v) \<subseteq> new_names q" for len
    using named_by_add [OF Cons.prems(1)] Cons.prems(2) new_name [of q n] by fast
  have obj: "isObject (add_variant n (vc_uuid (rc_variant q n)) len v) \<or> isNull (add_variant n (vc_uuid (rc_variant q n)) len v)" for len
    by (simp add: add_variant_def)
  show ?case
    unfolding store_variants.simps Let_def
    by (intro frame_bind triple_answered frame_then frame_statement [OF keeps_set_variants [OF assms sub]] frame_disk [OF keeps_create_disk]
        frame_append_all new_name Cons.IH [OF obj sub])
qed (simp add: frame_return)

lemma triple_put_avatar:
  assumes "env_ok E"
  shows "triple (whole E G q) auto (put_avatar E q uid req) (\<lambda>_ _. True)"
  unfolding put_avatar_def
  by (rule triple_require, rule triple_require, rule triple_bind [OF triple_number], rule triple_bind [OF triple_answered],
      rule triple_then [OF frame_insert_avatar [OF assms]], rule triple_lock, rule triple_then [OF frame_store_variants [OF assms]],
      simp, simp add: named_by_def, rule triple_true [OF triple_tx [OF triple_switch]])

lemma keeps_read_variant: "keeps_inv I (read_variant E i ps)"
  by (induction ps) (auto intro!: triples)

lemma keeps_get_avatar: "keeps_inv (whole E G q) (get_avatar E q req i n)"
  unfolding get_avatar_def send_variant_def Let_def by (intro triples branches keeps_read_variant)

lemma triple_avatar:
  assumes "env_ok E"
  shows "triple (whole E G q) auto (avatar E q uid req) (\<lambda>_ _. True)"
  unfolding avatar_def Let_def
  by (intro triple_lease branches triple_put_avatar [OF assms] triple_require triple_stop keeps_weaken [OF keeps_get_avatar])

section \<open>Maintenance\<close>

lemma triple_deliver: "triple (whole E G q) P (deliver_event E q) (\<lambda>_ w. auto w \<and> committed w)"
proof -
  have u: "keeps_inv (whole E G q) (sql (statement (update_event n f)))" for n f
    by (rule keeps_other_tables) (auto simp: update_event_def variant_names_def)
  show ?thesis
    unfolding deliver_event_def
    by (rule triple_bind [OF keeps_weaken [OF keeps_select]], rule triple_then [where Q = "\<lambda>_. True", OF _ triple_commit])
      (intro triples branches u)
qed

lemma remove_spares:
  assumes "whole E G q w" and "i \<notin> file_ids (durable (rconn w)) \<union> file_ids (working (rconn w))"
  shows "whole E G q (w\<lparr>rdisk := snd (remove_file i (rdisk w))\<rparr>)"
proof (rule whole_spares [OF assms(1)])
  fix j bs
  assume j: "j \<in> file_ids (durable (rconn w)) \<union> file_ids (working (rconn w))" "stored (re_crypto E) j bs (rdisk w)"
  then show "stored (re_crypto E) j bs (snd (remove_file i (rdisk w)))"
    using assms(2) by (metis stored_remove_other)
qed

lemma triple_remove_variants:
  "triple (whole E G q) (\<lambda>w. \<forall>m \<in> set ms. \<forall>i. variant_id L m = Some i \<longrightarrow> i \<notin> file_ids (durable (rconn w)) \<union> file_ids (working (rconn w)))
     (remove_variants L ms) (\<lambda>_ _. True)"
proof (induction ms)
  case (Cons m ms)
  show ?case
    unfolding remove_variants.simps
  proof (rule triple_demand, rule triple_then [OF triple_disk Cons.IH])
    fix i w
    assume "variant_id L m = Some i" "whole E G q w"
      "\<forall>m' \<in> set (m # ms). \<forall>i. variant_id L m' = Some i \<longrightarrow> i \<notin> file_ids (durable (rconn w)) \<union> file_ids (working (rconn w))"
    then show "whole E G q (w\<lparr>rdisk := snd (remove_file i (rdisk w))\<rparr>)"
      by (intro remove_spares) simp_all
  qed simp
qed (simp add: triple_return)

lemma triple_reclaim_avatar: "triple (whole E G q) P (reclaim_avatar E q i) (\<lambda>_ w. auto w \<and> committed w)"
  unfolding reclaim_avatar_def
proof (rule triple_pre [of _ "\<lambda>_. True"], rule triple_bind [OF triple_select [OF steady_True]],
    rule triple_then [where Q = "\<lambda>_. True", OF _ triple_commit], rule triple_case_option)
  let ?find = "\<lambda>d. if list_ex (\<lambda>p. map_option (re_collation E) (p_avatar p) = Some (re_collation E i)) (profiles d) then None
       else find (\<lambda>a. re_collation E (av_id a) = re_collation E i \<and> avatar_expired (sql_now (rc_sql q)) a) (avatars d)"
  fix row :: "avatar_row option" and a
  assume row: "row = Some a"
  have del: "keeps_inv (whole E G q) (sql (statement (\<lambda>d. Some ((), d\<lparr>avatars := filter (\<lambda>a. re_collation E (av_id a) \<noteq> re_collation E i) (avatars d)\<rparr>))))"
    by (rule keeps_other_tables) (auto simp: variant_names_def)
  have in_names: "j \<in> variant_names E (working (rconn w))"
    if "row = ?find (working (rconn w))" "parse_json (re_lib E) (av_variants a) = Some v" "m \<in> set (members v)" "variant_id (re_lib E) m = Some j" for w v m j
    using that row find_SomeD [of _ "avatars (working (rconn w))" a]
    by (auto simp: variant_names_def names_in_def split: if_splits)
  show "triple (whole E G q) (\<lambda>w. row = ?find (working (rconn w)) \<and> True)
     (a_bind (parse_object (re_lib E) (av_variants a)) (\<lambda>variants.
        a_then (remove_variants (re_lib E) (members variants))
          (sql (statement (\<lambda>d. Some ((), d\<lparr>avatars := filter (\<lambda>a. re_collation E (av_id a) \<noteq> re_collation E i) (avatars d)\<rparr>)))))) (\<lambda>_ _. True)"
  proof (rule triple_bind [OF triple_parse], rule triple_then [OF triple_pre [OF triple_remove_variants] del])
    fix v w
    assume w: "whole E G q w" "(row = ?find (working (rconn w)) \<and> True) \<and> parse_json (re_lib E) (av_variants a) = Some v"
    show "\<forall>m \<in> set (members v). \<forall>j. variant_id (re_lib E) m = Some j \<longrightarrow> j \<notin> file_ids (durable (rconn w)) \<union> file_ids (working (rconn w))"
      using in_names [of w v] w(2) tables_okD(4) [OF w(1) [unfolded whole_def]] by blast
  qed
qed (simp_all add: keeps_weaken [OF inv_return])

lemma triple_reclaim_file:
  assumes "env_ok E" and "validId i"
  shows "triple (whole E G q) (\<lambda>w. working (rconn w) = durable (rconn w)) (reclaim_file E q i) (\<lambda>_ w. auto w \<and> committed w)"
  unfolding reclaim_file_def
proof (rule triple_bind [OF triple_select], simp add: steady_def, rule triple_then [where Q = "\<lambda>_. True", OF _ triple_commit], rule triple_if)
  let ?found = "\<lambda>d. list_ex (\<lambda>r. re_collation E (t_id r) = re_collation E i \<and> file_dead (sql_now (rc_sql q)) r) (files d)"
  fix found
  assume found: found
  have o: "keeps_inv (whole E G q) (sql (statement (\<lambda>d. Some ((), d\<lparr>outbox := filter f (outbox d)\<rparr>))))" for f
    by (rule keeps_other_tables) (auto simp: variant_names_def)
  have f: "keeps_inv (whole E G q) (sql (statement (\<lambda>d. Some ((), d\<lparr>files := filter f (files d)\<rparr>))))" for f
    by (rule triple_statement)
      (auto simp: permitted_def files_ok_def distinct_map_filter variant_names_def file_ids_def dest!: wholeD(3))
  show "triple (whole E G q) (\<lambda>w. found = ?found (working (rconn w)) \<and> working (rconn w) = durable (rconn w)) (delete_file E i) (\<lambda>_ _. True)"
    unfolding delete_file_def
  proof (rule triple_then [OF triple_disk inv_then [OF o f]])
    fix w
    assume w: "whole E G q w" "found = ?found (working (rconn w)) \<and> working (rconn w) = durable (rconn w)"
    obtain r where r: "r \<in> set (files (working (rconn w)))" "re_collation E (t_id r) = re_collation E i" "file_dead (sql_now (rc_sql q)) r"
      using w(2) found by (auto simp: list_ex_iff)
    show "whole E G q (w\<lparr>rdisk := snd (remove_file i (rdisk w))\<rparr>)"
    proof (rule whole_disk [OF w(1)])
      fix x
      assume x: "x \<in> set (files (durable (rconn w))) \<union> set (files (working (rconn w)))" "\<not> file_dead (sql_now (rc_sql q)) x"
        "row_good (re_crypto E) G (rdisk w) x"
      have "t_id x \<noteq> i"
      proof
        assume "t_id x = i"
        then have "x = r"
          using unique_row [OF wholeD(3) [OF w(1)] r(1), of x] x(1) r(2) w(2) by simp
        then show False
          using x(2) r(3) by simp
      qed
      then show "row_good (re_crypto E) G (snd (remove_file i (rdisk w))) x"
        by (intro row_good_mono [OF x(3)] stored_remove_other) auto
    qed
  qed simp
qed (rule keeps_weaken [OF inv_return])

lemma triple_each:
  assumes "\<And>i. validId i \<Longrightarrow> triple (whole E G q) (\<lambda>w. working (rconn w) = durable (rconn w)) (f i) (\<lambda>_ w. auto w \<and> committed w)"
  shows "frame (whole E G q) auto (each_locked q f is)"
proof (induction "is")
  case (Cons i "is")
  have "frame (whole E G q) auto (Transaction (f i))" if "validId i"
    by (rule triple_pre [OF triple_transaction [where P = "\<lambda>_. True"]], rule triple_pre [OF assms [OF that]]) simp_all
  then show ?case
    unfolding each_locked.simps by (intro triple_lock triple_then [OF _ Cons.IH])
qed (simp add: frame_return)

lemma triple_maintenance:
  assumes "env_ok E"
  shows "triple (whole E G q) auto (maintenance E q) (\<lambda>_. auto)"
  unfolding maintenance_def
  by (rule triple_lease, rule triple_then [OF triple_tx [OF triple_deliver]], rule triple_bind [OF frame_select [OF steady_auto]],
      rule triple_then [OF triple_each], rule triple_reclaim_avatar, rule triple_bind [OF frame_select [OF steady_auto]],
      rule triple_each, rule triple_reclaim_file [OF assms])

section \<open>Requests\<close>

lemma triple_ready: "triple (whole E G q) P (\<lambda>w. case ready E q mounted n w of (ok, w') \<Rightarrow> (Ok (f ok), w')) (\<lambda>_ _. True)"
proof -
  have k: "keeps_inv (whole E G q) (a_then (require mounted 503 ''storage directory must already exist'')
             (lease q (a_then (sql (select (\<lambda>_. ()))) (redis_do (re_redis E) [''PING'']))))"
    unfolding lease_def by (intro triples frame_redis) simp
  show ?thesis
    unfolding triple_def
  proof (intro allI impI)
    fix w
    assume w: "whole E G q w"
    obtain a w' where m: "a_then (require mounted 503 ''storage directory must already exist'')
             (lease q (a_then (sql (select (\<lambda>_. ()))) (redis_do (re_redis E) [''PING'']))) w = (a, w')"
      by (cases "a_then (require mounted 503 ''storage directory must already exist'')
             (lease q (a_then (sql (select (\<lambda>_. ()))) (redis_do (re_redis E) [''PING'']))) w")
    then show "case case ready E q mounted n w of (ok, w') \<Rightarrow> (Ok (f ok), w') of (a, w') \<Rightarrow> whole E G q w' \<and> (\<forall>x. a = Ok x \<longrightarrow> True)"
      using tripleD(1) [OF k m w] by (simp add: ready_def split: answer.split)
  qed
qed

lemma triple_result: "triple I P (a_return (result E v n)) (streams q uid)"
  by (rule triple_return) simp

lemma triple_route:
  assumes "env_ok E"
  shows "triple (whole E G q) auto (route_file E q uid req target) (streams q uid)"
  unfolding route_file_def Let_def
  by (rule triple_case_option, rule triple_stop, rule triple_case_prod, rule triple_require, rule triple_case_prod, rule triple_if,
      rule triple_bind [OF triple_number], rule triple_bind [OF triple_chunk [OF assms] triple_result], rule triple_if,
      rule triple_bind [OF triple_complete [OF assms] triple_result], rule triple_access [OF assms])

lemma inv_profile: "keeps_inv (whole E G q) (profile_avatar E q s)"
  unfolding profile_avatar_def lease_def by (intro triples branches)

lemma streamless: "triple I P m (\<lambda>_ _. True) \<Longrightarrow> yields m (\<lambda>rs. rs_stream rs = []) \<Longrightarrow> triple I P m (streams q uid)"
  by (rule triple_post [OF triple_yields]) (auto simp: streams_def)

lemma yields_avatar: "yields (avatar E q uid req) (\<lambda>rs. rs_stream rs = [])"
  unfolding avatar_def put_avatar_def switch_avatar_def get_avatar_def send_variant_def lease_def Let_def
  by (intro yielding) (simp_all add: empty_response_def)

lemma yields_profile: "yields (profile_avatar E q s) (\<lambda>rs. rs_stream rs = [])"
  unfolding profile_avatar_def lease_def by (intro yielding) (simp_all add: result_def empty_response_def)

lemma triple_serve:
  assumes "env_ok E" and "call_ok G q"
  shows "triple (whole E G q) auto (serve_user E q req uid) (streams q uid)"
  unfolding serve_user_def Let_def
  apply (rule triple_require, rule triple_if, rule streamless [OF keeps_weaken [OF inv_profile] yields_profile])
  apply (rule triple_if, rule streamless [OF triple_avatar [OF assms(1)] yields_avatar])
  apply (rule triple_if)
  apply (rule triple_bind [OF frame_parse], rule triple_bind [OF triple_create_upload [OF assms] triple_result])
  apply (rule triple_route [OF assms(1)])
  done

lemma triple_handle:
  assumes "env_ok E" and "call_ok G q"
  shows "triple (whole E G q) auto (handle_request E q mounted n req) (\<lambda>_ _. True)"
  unfolding handle_request_def
  by (intro triple_if keeps_weaken [OF inv_return] triple_ready triple_bind [OF frame_authenticate triple_post [OF triple_serve [OF assms]]] TrueI)

end
