(* ===== verification/Resource_Runs.thy ===== *)
theory Resource_Runs
  imports Resource_Operations
begin

text \<open>
  What holds of the resource server over time. A state is the time of the last step, the tables and the directory. A step is a
  request, a round of the maintenance or a change that others make to the other tables; the
  state of Redis, the failures and what the step is asked are arbitrary. Steps follow one another: the operation lock
  does this for those on one resource, and those on different resources work on different files and
  rows. A random identifier is not one that is in use.
\<close>

definition world_of :: "'s \<Rightarrow> resource_call \<Rightarrow> resource_db \<Rightarrow> disk \<Rightarrow> (resource_db, 's) rworld" where
  "world_of s q d k = \<lparr>rconn = fresh_conn d (sql_faults (rc_sql q)), committed = False, rdisk = k, rredis = s\<rparr>"

definition unused :: "'s resource_env \<Rightarrow> resource_call \<Rightarrow> resource_db \<Rightarrow> bool" where
  "unused E q d \<longleftrightarrow> length (rc_prefix q) = 16 \<and> (variant_names E d \<union> new_names q) \<inter> (file_ids d \<union> {rc_uuid q}) = {}"

type_synonym resource_state = "time \<times> resource_db \<times> disk"

text \<open>A step of which the second argument is the identifier that it may have drawn for a file.\<close>

inductive resource_step :: "'s resource_env \<Rightarrow> string option \<Rightarrow> resource_state \<Rightarrow> resource_state \<Rightarrow> bool" for E where
  request: "now \<le> sql_now (rc_sql q) \<Longrightarrow> unused E q d \<Longrightarrow> handle_request E q mounted n req (world_of s q d k) = (a, w) \<Longrightarrow>
    resource_step E (Some (rc_uuid q)) (now, d, k) (sql_now (rc_sql q), durable (rconn w), rdisk w)"
| upkeep: "now \<le> sql_now (rc_sql q) \<Longrightarrow> unused E q d \<Longrightarrow> maintenance E q (world_of s q d k) = (a, w) \<Longrightarrow>
    resource_step E (Some (rc_uuid q)) (now, d, k) (sql_now (rc_sql q), durable (rconn w), rdisk w)"
| others: "now \<le> now' \<Longrightarrow> files d' = files d \<Longrightarrow> avatars d' = avatars d \<Longrightarrow> resource_step E None (now, d, k) (now', d', k)"

text \<open>Steps that do not draw one of the identifiers \<open>X\<close> again.\<close>

inductive resource_path :: "'s resource_env \<Rightarrow> string set \<Rightarrow> resource_state \<Rightarrow> resource_state \<Rightarrow> bool" for E X where
  path_refl: "resource_path E X S S"
| path_step: "resource_path E X S S1 \<Longrightarrow> resource_step E u S1 S2 \<Longrightarrow> (\<forall>i. u = Some i \<longrightarrow> i \<notin> X) \<Longrightarrow> resource_path E X S S2"

definition resource_ok :: "'s resource_env \<Rightarrow> (string \<times> byte list) set \<Rightarrow> resource_state \<Rightarrow> bool" where
  "resource_ok E G S \<longleftrightarrow> (case S of (now, d, k) \<Rightarrow> files_ok E G now d k \<and> variant_names E d \<inter> file_ids d = {})"

lemma files_ok_later: "files_ok E G now d k \<Longrightarrow> now \<le> now' \<Longrightarrow> files_ok E G now' d k"
  by (fastforce simp: files_ok_def file_dead_def)

lemma whole_start:
  assumes "resource_ok E G (now, d, k)" and "now \<le> sql_now (rc_sql q)" and "unused E q d"
  shows "whole E G q (world_of s q d k)" "auto (world_of s q d k)"
  using assms files_ok_later [of E G now d k] by (auto simp: resource_ok_def unused_def whole_def tables_ok_def world_of_def)

lemma whole_end: "whole E G q w \<Longrightarrow> resource_ok E G (sql_now (rc_sql q), durable (rconn w), rdisk w)"
  by (auto simp: resource_ok_def whole_def tables_ok_def)

lemma step_keeps:
  assumes "resource_step E u S S'" and "env_ok E" and "resource_ok E G S" and "\<forall>i. u = Some i \<longrightarrow> i \<notin> fst ` G"
  shows "resource_ok E G S'"
  using assms(1,3,4)
proof cases
  case (request now q d mounted n req s k a w)
  have c: "call_ok G q"
    using assms(4) request by (simp add: call_ok_def unused_def)
  show ?thesis
    using tripleD(1) [OF triple_handle [OF assms(2) c] request(6) whole_start] assms(3) request by (simp add: whole_end)
next
  case (upkeep now q d s k a w)
  show ?thesis
    using tripleD(1) [OF triple_maintenance [OF assms(2)] upkeep(6) whole_start] assms(3) upkeep by (simp add: whole_end)
next
  case (others now now' d' d k)
  then show ?thesis
    using assms(3) files_ok_later [of E G now d k now'] by (auto simp: resource_ok_def files_ok_def variant_names_def file_ids_def)
qed

lemma path_keeps:
  "resource_path E X S S' \<Longrightarrow> env_ok E \<Longrightarrow> resource_ok E G S \<Longrightarrow> fst ` G \<subseteq> X \<Longrightarrow> resource_ok E G S'"
proof (induction rule: resource_path.induct)
  case (path_step S S1 u S2)
  show ?case
    using step_keeps [OF path_step.hyps(2) path_step.prems(1) path_step.IH [OF path_step.prems]] path_step.hyps(3) path_step.prems(3) by blast
qed

text \<open>To fix the contents of a published file.\<close>

lemma resource_ok_fix:
  assumes "resource_ok E {} (now, d, k)" and "r \<in> set (files d)" and "published r" and "stored (re_crypto E) (t_id r) bs k"
  shows "resource_ok E {(t_id r, bs)} (now, d, k)"
proof -
  have "row_good (re_crypto E) {(t_id r, bs)} k x" if "x \<in> set (files d)" "row_good (re_crypto E) {} k x" for x
  proof (cases "t_id x = t_id r")
    case True
    then have "x = r"
      using unique_row [of E "{}" now d k r x] assms(1,2) that(1) by (simp add: resource_ok_def)
    then show ?thesis
      using that(2) assms(3,4) by (simp add: row_good_def)
  qed (use that(2) in \<open>simp add: row_good_def\<close>)
  then show ?thesis
    using assms(1) by (auto simp: resource_ok_def files_ok_def)
qed

lemma published_bytes:
  assumes "resource_ok E G (now, d, k)" and "r \<in> set (files d)" and "published r" and "\<not> file_dead now r"
  shows "\<exists>bs. stored (re_crypto E) (t_id r) bs k \<and> length bs = unat (t_total r) \<and> sha256_hex (re_crypto E) bs = t_sha256 r"
proof -
  have "row_intact (re_crypto E) k r"
    using assms(1,2,4) by (simp add: resource_ok_def files_ok_def row_good_def)
  then show ?thesis
    using assms(3) by (auto simp: row_intact_def)
qed

lemma fixed_bytes:
  assumes "resource_ok E {(i, bs)} (now, d, k)" and "r \<in> set (files d)" and "t_id r = i" and "\<not> file_dead now r"
  shows "published r \<and> stored (re_crypto E) i bs k"
  using assms by (auto simp: resource_ok_def files_ok_def row_good_def)

lemma resource_start: "files d = [] \<Longrightarrow> avatars d = [] \<Longrightarrow> resource_ok E {} (now, d, k)"
  by (simp add: resource_ok_def files_ok_def variant_names_def)


end
