(* ===== verification/Resource_Download.thy ===== *)
theory Resource_Download
  imports Resource_Runs "HOL-Library.Sublist"
begin

text \<open>
  Downloading: the answer to a request for the content of a file, with its byte range, and the loop
  \<^verbatim>\<open>Connection::next\<close> of \<^verbatim>\<open>servers/resource/main.cpp\<close> that reads the file chunk by chunk and sends it. Between two
  chunks anything may happen.
\<close>

text \<open>
  The argument \<open>rd\<close> is the \<open>n\<close>-th read, \<^const>\<open>None\<close> if it throws; \<open>wr\<close> says whether the \<open>n\<close>-th write
  to the socket succeeds. The result is what was sent and whether the loop came to its end.
\<close>

function next_chunk :: "(nat \<Rightarrow> nat \<Rightarrow> byte list option) \<Rightarrow> (nat \<Rightarrow> bool) \<Rightarrow> nat \<Rightarrow> nat \<Rightarrow> nat \<Rightarrow> byte list \<times> bool" where
  "next_chunk rd wr n offset remaining =
     (if remaining = 0 then ([], True)
      else
        let base = offset div PlainChunkBytes * PlainChunkBytes in
        case rd n base of
          None \<Rightarrow> ([], False)
        | Some bytes \<Rightarrow>
            let skip = offset - base in
            if skip \<ge> length bytes then ([], False)
            else
              let count = min (length bytes - skip) remaining in
              if \<not> wr n then ([], False)
              else case next_chunk rd wr (Suc n) (offset + count) (remaining - count) of
                (rest, ok) \<Rightarrow> (take count (drop skip bytes) @ rest, ok))"
  by pat_completeness auto
termination
  by (relation "measure (\<lambda>(rd, wr, n, offset, remaining). remaining)") auto

declare next_chunk.simps [simp del]

text \<open>The reads, in the states that they meet.\<close>

definition reads ::
    "'s resource_env \<Rightarrow> string \<Rightarrow> (nat \<Rightarrow> resource_call) \<Rightarrow> (nat \<Rightarrow> 's) \<Rightarrow> (nat \<Rightarrow> resource_state) \<Rightarrow> nat \<Rightarrow> nat \<Rightarrow> byte list option" where
  "reads E i qs ss S n base =
     (case S n of (now, d, k) \<Rightarrow>
        case read_attachment E (qs n) i base (world_of (ss n) (qs n) d k) of (Ok bytes, _) \<Rightarrow> Some bytes | _ \<Rightarrow> None)"

section \<open>The loop\<close>

lemma next_chunk_prefix:
  assumes rd: "\<And>n base bytes. rd n base = Some bytes \<Longrightarrow> base mod ChunkBytes = 0 \<Longrightarrow> base < length bs \<Longrightarrow> bytes = take ChunkBytes (drop base bs)"
  shows "offset + remaining \<le> length bs \<Longrightarrow> next_chunk rd wr n offset remaining = (out, ok) \<Longrightarrow>
    prefix out (take remaining (drop offset bs)) \<and> (ok \<longrightarrow> out = take remaining (drop offset bs))"
proof (induction remaining arbitrary: n offset out ok rule: less_induct)
  case (less remaining)
  define base where "base = offset div PlainChunkBytes * PlainChunkBytes"
  have C: "0 < ChunkBytes" "PlainChunkBytes = ChunkBytes"
    by (simp_all add: ChunkBytes_def PlainChunkBytes_def)
  have base: "base mod ChunkBytes = 0" "base \<le> offset" "offset - base < ChunkBytes"
    unfolding base_def C(2) using C(1) by (simp_all add: minus_div_mult_eq_mod)
  have step: "next_chunk rd wr n offset remaining = (if remaining = 0 then ([], True) else case rd n base of None \<Rightarrow> ([], False)
      | Some bytes \<Rightarrow> if offset - base \<ge> length bytes \<or> \<not> wr n then ([], False)
          else case next_chunk rd wr (Suc n) (offset + min (length bytes - (offset - base)) remaining) (remaining - min (length bytes - (offset - base)) remaining) of
            (rest, ok) \<Rightarrow> (take (min (length bytes - (offset - base)) remaining) (drop (offset - base) bytes) @ rest, ok))"
    by (subst next_chunk.simps) (simp add: base_def Let_def split: option.split)
  show ?case
  proof (cases "remaining = 0 \<or> rd n base = None \<or> (\<exists>bytes. rd n base = Some bytes \<and> (offset - base \<ge> length bytes \<or> \<not> wr n))")
    case True
    then have "out = [] \<and> (ok \<longrightarrow> remaining = 0)"
      using less.prems(2) step by (auto split: if_splits)
    then show ?thesis
      by auto
  next
    case False
    then obtain bytes where b: "rd n base = Some bytes" "offset - base < length bytes" "wr n" and r: "remaining \<noteq> 0"
      by auto
    define count where "count = min (length bytes - (offset - base)) remaining"
    obtain rest where rest: "next_chunk rd wr (Suc n) (offset + count) (remaining - count) = (rest, ok)"
      and out: "out = take count (drop (offset - base) bytes) @ rest"
      using less.prems(2) b r step by (auto simp: count_def split: prod.splits)
    have bytes: "bytes = take ChunkBytes (drop base bs)"
      using rd [OF b(1) base(1)] base(2) less.prems(1) r by simp
    have le: "0 < count" "count \<le> remaining" "count \<le> ChunkBytes - (offset - base)"
      using b(2) r by (auto simp: count_def bytes)
    have piece: "take count (drop (offset - base) bytes) = take count (drop offset bs)"
      using le(3) base(2) by (simp add: bytes drop_take min_def)
    have "take remaining (drop offset bs) = take count (drop offset bs) @ take (remaining - count) (drop (offset + count) bs)"
      using take_add [of count "remaining - count" "drop offset bs"] le(2) by (simp add: add.commute)
    then show ?thesis
      using less.IH [OF _ _ rest] le less.prems(1) by (simp add: out piece)
  qed
qed

lemma ok_bind: "a_bind m f w = (Ok b, w2) \<longleftrightarrow> (\<exists>a w1. m w = (Ok a, w1) \<and> f a w1 = (Ok b, w2))"
  by (auto simp: a_bind_def split: prod.splits answer.splits)

lemma ok_require: "require b n t w = (Ok x, w') \<longleftrightarrow> b \<and> w' = w"
  by (auto simp: require_def a_return_def a_fail_def)

lemma ok_select: "sql (select f) w = (Ok x, w') \<Longrightarrow> x = f (working (rconn w)) \<and> rdisk w' = rdisk w"
  by (auto simp: sql_def select_def statement_def faulty_def next_fault_def split: prod.splits outcome.splits list.splits fault.splits if_splits option.splits)

lemma ok_from_disk: "from_disk f w = (Ok x, w') \<Longrightarrow> f (rdisk w) = Returns x"
  by (auto simp: from_disk_def on_disk_def split: outcome.splits)

lemma read_attachment_ok:
  assumes "read_attachment E q i base (world_of s q d k) = (Ok bytes, w)"
  shows "\<exists>r \<in> set (files d). validId i \<and> re_collation E (t_id r) = re_collation E i \<and> published r \<and> \<not> file_dead (sql_now (rc_sql q)) r
    \<and> read (re_crypto E) i base ChunkBytes k = Returns bytes"
proof -
  let ?w = "world_of s q d k"
  obtain row w1 r e w2 where i: "validId i" and row: "sql (select (\<lambda>d. find (\<lambda>r. re_collation E (t_id r) = re_collation E i) (files d))) ?w = (Ok row, w1)"
    and r: "(case row of None \<Rightarrow> a_fail 404 ''resource not found'' | Some r \<Rightarrow> a_return (r, t_expires r \<le> sql_now (rc_sql q))) w1 = (Ok (r, e), w2)"
    and live: "\<not> e" "t_status r = ''available'' \<or> t_status r = ''downloaded''"
    and disk: "from_disk (read (re_crypto E) i base PlainChunkBytes) w2 = (Ok bytes, w)"
    using assms by (auto simp: read_attachment_def ResourceLock_def lease_def file_of_def a_then_def ok_bind ok_require a_return_def a_crash_def split: if_splits)
  have row: "row = find (\<lambda>r. re_collation E (t_id r) = re_collation E i) (files d)" "rdisk w1 = k"
    using ok_select [OF row] by (simp_all add: world_of_def fresh_conn_def)
  have r: "row = Some r" "\<not> t_expires r \<le> sql_now (rc_sql q)" "w2 = w1"
    using r live(1) by (cases row; auto simp: a_return_def a_fail_def)+
  have "r \<in> set (files d) \<and> re_collation E (t_id r) = re_collation E i"
    using find_SomeD [of _ "files d" r] row(1) r(1) by auto
  moreover have "read (re_crypto E) i base ChunkBytes k = Returns bytes"
    using ok_from_disk [OF disk] row(2) r(3) by (simp add: PlainChunkBytes_def ChunkBytes_def)
  ultimately show ?thesis
    using i r(2) live(2) by (auto simp: file_dead_def published_def)
qed

section \<open>The whole download\<close>

lemma handle_stream:
  assumes "handle_request E q mounted n req w = (Ok rs, w')" and "rs_stream rs \<noteq> []"
  shows "\<exists>uid w1. authenticate_request E (rq_authorization req) (length (rq_body req)) w = (Ok uid, w1) \<and> serve_user E q req uid w1 = (Ok rs, w')"
  using assms by (auto simp: handle_request_def ok_bind result_def empty_response_def a_return_def split: if_splits prod.splits)

lemma reads_ok:
  assumes "env_ok E" and "resource_ok E {(i, bs)} (S m)" and "fst (S m) \<le> sql_now (rc_sql (qs m))"
    and "reads E i qs ss S m base = Some bytes" and "base mod ChunkBytes = 0" and "base < length bs"
  shows "bytes = take ChunkBytes (drop base bs)"
proof -
  obtain now d k where S: "S m = (now, d, k)"
    by (cases "S m")
  let ?now = "sql_now (rc_sql (qs m))"
  obtain w where "read_attachment E (qs m) i base (world_of (ss m) (qs m) d k) = (Ok bytes, w)"
    using assms(4) by (auto simp: reads_def S split: prod.splits answer.splits)
  from read_attachment_ok [OF this] obtain r where r: "r \<in> set (files d)" "validId i" "re_collation E (t_id r) = re_collation E i"
      "\<not> file_dead ?now r" "read (re_crypto E) i base ChunkBytes k = Returns bytes"
    by blast
  have ok: "resource_ok E {(i, bs)} (?now, d, k)"
    using assms(2,3) files_ok_later by (auto simp: S resource_ok_def)
  then have "t_id r = i"
    using row_of_id [OF assms(1) _ r(2,1,3)] by (auto simp: resource_ok_def)
  then have "stored (re_crypto E) i bs k"
    using fixed_bytes [OF ok r(1) _ r(4)] by simp
  then show ?thesis
    using stored_read [OF env_okD(1) [OF assms(1)] _ assms(5,6)] r(5) by simp
qed

text \<open>
  C16: A download gives the receiver the attachment and nobody else anything. Start the resource server with no files, let any
  requests and rounds of maintenance, with any failures, follow one another, and let then a request be answered with a stream. The request was authenticated as the
  receiver of a published file that has not expired, and the announced byte range lies in the file. Let the
  loop \<^verbatim>\<open>next\<close> read and send the chunks while more requests, maintenance and failures happen. The bytes that were
  sent are always a prefix of the range of the bytes with the announced length and digest, whatever happens to
  the file meanwhile, and they are the whole range if the loop comes to its end.
\<close>

theorem resource_download:
  assumes "env_ok E" and "files d0 = []" and "avatars d0 = []" and "resource_path E {} (t0, d0, k0) (now, d, k)"
    and "now \<le> sql_now (rc_sql q)" and "unused E q d"
    and "handle_request E q mounted space req (world_of s q d k) = (Ok rs, w)" and "rs_stream rs \<noteq> []"
    and "\<And>m. resource_path E {rs_stream rs} (sql_now (rc_sql q), durable (rconn w), rdisk w) (S m)"
    and "\<And>m. fst (S m) \<le> sql_now (rc_sql (qs m))"
  shows "\<exists>r bs w1. r \<in> set (files (durable (rconn w))) \<and> t_id r = rs_stream rs \<and> published r \<and> \<not> file_dead (sql_now (rc_sql q)) r
    \<and> authenticate_request E (rq_authorization req) (length (rq_body req)) (world_of s q d k) = (Ok (t_receiver r), w1)
    \<and> length bs = unat (t_total r) \<and> sha256_hex (re_crypto E) bs = t_sha256 r
    \<and> unat (rs_begin rs) + unat (rs_length rs) \<le> length bs
    \<and> (case next_chunk (reads E (rs_stream rs) qs ss S) wr 0 (unat (rs_begin rs)) (unat (rs_length rs)) of (out, ok) \<Rightarrow>
         prefix out (take (unat (rs_length rs)) (drop (unat (rs_begin rs)) bs))
         \<and> (ok \<longrightarrow> out = take (unat (rs_length rs)) (drop (unat (rs_begin rs)) bs)))"
proof -
  let ?now = "sql_now (rc_sql q)" and ?w = "world_of s q d k"
  have ok0: "resource_ok E {} (now, d, k)"
    by (rule path_keeps [OF assms(4,1) resource_start [OF assms(2,3)]]) simp
  have c: "call_ok {} q"
    using assms(6) by (simp add: call_ok_def unused_def)
  obtain uid w1 where a: "authenticate_request E (rq_authorization req) (length (rq_body req)) ?w = (Ok uid, w1)"
    and sv: "serve_user E q req uid w1 = (Ok rs, w)"
    using handle_stream [OF assms(7,8)] by blast
  note start = whole_start [OF ok0 assms(5,6)]
  have w1: "whole E {} q w1" "auto w1"
    using tripleD [OF frame_authenticate a start] by auto
  note t = tripleD [OF triple_serve [OF assms(1) c] sv w1]
  then obtain r where r: "r \<in> set (files (durable (rconn w)))" "published r" "\<not> file_dead ?now r" "t_receiver r = uid" "covers (t_id r) (t_total r) rs"
    using assms(8) by (auto simp: streams_def)
  have i: "t_id r = rs_stream rs" and len: "unat (rs_begin rs) + unat (rs_length rs) \<le> unat (t_total r)"
    using r(5) by (simp_all add: covers_def)
  have ok1: "resource_ok E {} (?now, durable (rconn w), rdisk w)"
    by (rule whole_end [OF t(1)])
  obtain bs where bs: "stored (re_crypto E) (t_id r) bs (rdisk w)" "length bs = unat (t_total r)" "sha256_hex (re_crypto E) bs = t_sha256 r"
    using published_bytes [OF ok1 r(1-3)] by blast
  have later: "resource_ok E {(rs_stream rs, bs)} (S m)" for m
    by (rule path_keeps [OF assms(9,1) resource_ok_fix [OF ok1 r(1,2) bs(1), unfolded i]]) simp
  obtain out ok where n: "next_chunk (reads E (rs_stream rs) qs ss S) wr 0 (unat (rs_begin rs)) (unat (rs_length rs)) = (out, ok)"
    by (cases "next_chunk (reads E (rs_stream rs) qs ss S) wr 0 (unat (rs_begin rs)) (unat (rs_length rs))")
  have "prefix out (take (unat (rs_length rs)) (drop (unat (rs_begin rs)) bs)) \<and> (ok \<longrightarrow> out = take (unat (rs_length rs)) (drop (unat (rs_begin rs)) bs))"
    by (rule next_chunk_prefix [OF reads_ok [OF assms(1) later assms(10)] _ n]) (use len bs(2) in simp_all)
  then show ?thesis
    using r(1-3) i a bs(2,3) len n unfolding r(4) [symmetric] by (intro exI [of _ r] exI [of _ bs] exI [of _ w1]) simp
qed

end
