(* ===== verification/Resource_Example.thy ===== *)
theory Resource_Example
  imports Resource_Download
begin

text \<open>
  A run of the resource server: user 1 creates an upload for user 2, sends two bytes, completes it, and user 2 asks for
  the second byte. It shows that the hypotheses of \<open>Resource_Runs\<close> and \<open>Resource_Download\<close> can hold.
\<close>

definition ex_id :: string where
  "ex_id = ''00000000-0000-0000-0000-000000000000''"

definition ex_hash :: string where
  "ex_hash = replicate 64 (CHR ''a'')"

definition ex_parse :: "string \<Rightarrow> json option" where
  "ex_parse s =
     (if s = ''1'' then Some (JObj [(''session'', JStr ''s''), (''generation'', JStr ''g''), (''uid'', JInt 1)])
      else if s = ''2'' then Some (JObj [(''session'', JStr ''s''), (''generation'', JStr ''g''), (''uid'', JInt 2)])
      else if s = ''b'' then Some (JObj [(''touid'', JInt 2), (''total_size'', JInt 2), (''name'', JStr ''n''), (''sha256'', JStr ex_hash),
             (''idempotency_key'', JStr ''k'')])
      else None)"

definition ex_redis :: "string list \<Rightarrow> unit \<Rightarrow> reply option \<times> unit" where
  "ex_redis args s =
     (Some (if args = [''GET'', ''resource_token:1''] then RString ''1''
            else if args = [''GET'', ''resource_token:2''] then RString ''2''
            else if args = [''GET'', ''resource_session:s''] then RString ''g''
            else RInteger 1), s)"

definition ex_env :: "unit resource_env" where
  "ex_env = \<lparr>re_collation = (\<lambda>s. s), re_found = True, re_column = Some, re_crypto = plain_crypto\<lparr>sha256_hex := \<lambda>_. ex_hash\<rparr>,
     re_codec = \<lparr>png_begin = (\<lambda>_. None), png_finish = (\<lambda>_. None), png_write = (\<lambda>_ _. None), jpeg_init = False, jpeg_header = (\<lambda>_. None),
       jpeg_pixels = (\<lambda>_. None)\<rparr>,
     re_lib = \<lparr>parse_json = ex_parse, toStyledString = (\<lambda>_. ''x''), real_text = (\<lambda>_. [])\<rparr>,
     re_redis = redis_link.make (\<lambda>_. True) ex_redis, re_digest = take 1, re_peers = [], re_peer_token = []\<rparr>"

definition ex_call :: resource_call where
  "ex_call = \<lparr>rc_sql = \<lparr>available = True, sql_faults = [], sql_now = 0\<rparr>, rc_lock = (\<lambda>_. True), rc_uuid = ex_id, rc_prefix = replicate 16 0,
     rc_create = None, rc_append = [], rc_variant = (\<lambda>_. \<lparr>vc_uuid = ''v'', vc_prefix = [], vc_create = None, vc_append = []\<rparr>), rc_peer = (\<lambda>_. Some False)\<rparr>"

definition ex_request :: "verb \<Rightarrow> string \<Rightarrow> char \<Rightarrow> string \<Rightarrow> string \<Rightarrow> resource_request" where
  "ex_request v target token spec body =
     \<lparr>rq_method = v, rq_target = ''/api/resources/v1/'' @ target, rq_authorization = ''Bearer '' @ replicate 64 token, rq_range = spec,
      rq_if_match = [], rq_if_none_match = [], rq_body = body\<rparr>"

definition ex_tables :: "resource_row list \<Rightarrow> outbox_row list \<Rightarrow> nat \<Rightarrow> resource_db" where
  "ex_tables rows events n =
     \<lparr>profiles = map (\<lambda>u. \<lparr>p_uid = u, p_avatar = None, p_version = 0\<rparr>) [1, 2], friendships = [(1, 2)], files = rows, outbox = events, next_outbox = n,
      avatars = []\<rparr>"

definition ex_row :: resource_row where
  "ex_row = new_file 0 ex_id 1 2 ''n'' ''application/octet-stream'' 2 ex_hash ''k''"

lemma ex_id_ok [simp]: "validId ex_id" "valid_transfer_id ex_id" "CHR ''/'' \<notin> set ex_id"
  by (simp_all add: ex_id_def validId_def id_char_def valid_transfer_id_def upt_rec)

lemma ex_hash_ok: "good_metadata ex_hash ''k'' ''application/octet-stream''"
  by (simp add: good_metadata_def ex_hash_def list_all_iff)

lemma ex_env_ok: "env_ok ex_env"
  by (auto simp: env_ok_def ex_env_def names_in_def ex_parse_def aead_ok_def plain_crypto_def)

lemmas act_eval = a_then_def a_bind_def require_def a_return_def a_fail_def a_crash_def demand_def lease_def ResourceLock_def
  sql_def select_def statement_def faulty_def next_fault_def commit_def setAutoCommit_def rollback_def tx_commit_def tx_close_def Transaction_def
  on_disk_def from_disk_def

lemma ex_auth:
  assumes "token = CHR ''1'' \<or> token = CHR ''2''"
  shows "authenticate_request ex_env (rq_authorization (ex_request v target token spec body)) n w = (Ok (if token = CHR ''1'' then 1 else 2), w)"
  using assms
  by (auto simp: authenticate_request_def act_eval redis_get_def redis_do_def redisCommand_def redis_link.defs ex_env_def ex_request_def ex_redis_def
      parse_object_def ex_parse_def field_def int_range_def numeral_eq_Suc)

lemma ex_env_sel [simp]:
  "re_collation ex_env = (\<lambda>s. s)" "re_found ex_env" "re_column ex_env = Some" "parse_json (re_lib ex_env) = ex_parse"
  "re_crypto ex_env = plain_crypto\<lparr>sha256_hex := \<lambda>_. ex_hash\<rparr>"
  by (simp_all add: ex_env_def)

lemma ex_call_sel [simp]:
  "rc_sql ex_call = \<lparr>available = True, sql_faults = [], sql_now = 0\<rparr>" "rc_lock ex_call i" "rc_uuid ex_call = ex_id" "rc_prefix ex_call = replicate 16 0"
  "rc_create ex_call = None" "rc_append ex_call = []"
  by (simp_all add: ex_call_def)

definition ex_world :: "bool \<Rightarrow> resource_row list \<Rightarrow> outbox_row list \<Rightarrow> nat \<Rightarrow> disk \<Rightarrow> (resource_db, unit) rworld" where
  "ex_world b rows events n k = (world_of () ex_call (ex_tables rows events n) k)\<lparr>committed := b\<rparr>"

lemma ex_file_of:
  "file_of ex_env ex_call ex_id (ex_world b [r] events n k) =
     (if t_id r = ex_id then Ok (r, t_expires r \<le> 0) else Failed 404 ''resource not found'' None, ex_world b [r] events n k)"
  by (simp add: file_of_def act_eval ex_world_def world_of_def fresh_conn_def ex_tables_def)

definition ex_disk :: disk where
  "ex_disk = snd (create (replicate 16 0) None ex_id empty_disk)"

lemmas ex_eval = act_eval ex_world_def world_of_def fresh_conn_def ex_tables_def

lemma ex_create_disk: "create (replicate 16 0) None ex_id empty_disk = (Returns (), ex_disk)"
  by (simp add: ex_disk_def create_def empty_disk_def)

lemma ex_create_new:
  "Transaction (create_or_resume ex_env ex_call 1 (JObj [(''touid'', JInt 2), (''total_size'', JInt 2), (''name'', JStr ''n''), (''sha256'', JStr ex_hash),
             (''idempotency_key'', JStr ''k'')]) ''n'' ''application/octet-stream'' 2 ex_hash ''k'') (ex_world False [] [] 0 empty_disk)
   = (Ok (file_json ex_id (ex_row, False)), ex_world True [ex_row] [] 0 ex_disk)"
  by (simp add: create_or_resume_def create_new_def ex_eval resource_usage_def insert_file_def field_def ex_create_disk file_of_def)
    (simp add: ex_row_def new_file_def days_def)

lemma ex_create:
  "serve_user ex_env ex_call (ex_request Post_verb ''uploads'' (CHR ''1'') [] ''b'') 1 (ex_world False [] [] 0 empty_disk)
   = (Ok (result ex_env (file_json ex_id (ex_row, False)) 201), ex_world True [ex_row] [] 0 ex_disk)"
  using ex_hash_ok ex_create_new
  by (simp add: serve_user_def ex_request_def Let_def a_then_def a_bind_def require_def a_return_def parse_object_def ex_parse_def create_upload_def field_def isMember_def demand_def
    lease_def good_name_def MaxFileBytes_def int_range_def)

abbreviation ex_bytes :: "byte list" where
  "ex_bytes \<equiv> map of_char ''hi''"

definition ex_disk2 :: disk where
  "ex_disk2 = snd (append_file (re_crypto ex_env) None ex_id 0 ex_bytes ex_disk)"

lemma ex_append: "append_file (re_crypto ex_env) None ex_id 0 ex_bytes ex_disk = (Returns 2, ex_disk2)"
  by (simp add: ex_disk2_def append_file_def ex_disk_def create_def empty_disk_def read_header_def Magic_def plain_crypto_def ChunkBytes_def)

lemma ex_stored: "stored (re_crypto ex_env) ex_id ex_bytes ex_disk2"
  using stored_append(2) [of "re_crypto ex_env" ex_id "[]" ex_disk None ex_bytes "Returns 2" ex_disk2 2]
    stored_create [OF ex_create_disk] ex_append env_okD(1) [OF ex_env_ok] by (simp del: ex_env_sel)

lemma ex_parts: "parts PlainChunkBytes ex_bytes = [ex_bytes]"
  by (simp add: parts.simps PlainChunkBytes_def ChunkBytes_def)

lemma ex_row_sel [simp]:
  "t_id ex_row = ex_id" "t_sender ex_row = 1" "t_receiver ex_row = 2" "t_total ex_row = 2" "t_uploaded ex_row = 0" "t_sha256 ex_row = ex_hash"
  "t_status ex_row = ''uploading''" "t_expires ex_row = days 7"
  by (simp_all add: ex_row_def new_file_def)

lemma ex_days [simp]: "0 < days 7" "\<not> days 7 \<le> 0"
  by (simp_all add: days_def)

lemma ex_loop:
  "chunk_loop ex_env ex_call ex_id 0 0 [] [ex_bytes] (ex_world False [ex_row] [] 0 ex_disk) = (Ok 2, ex_world False [ex_row\<lparr>t_uploaded := 2\<rparr>] [] 0 ex_disk2)"
  using ex_append by (simp add: first_torn_def confirm_def update_files_def ex_eval)

lemma ex_chunk:
  "chunk ex_env ex_call 1 ex_id 0 ''hi'' (ex_world False [ex_row] [] 0 ex_disk)
   = (Ok (file_json ex_id (ex_row\<lparr>t_uploaded := 2\<rparr>, False)), ex_world False [ex_row\<lparr>t_uploaded := 2\<rparr>] [] 0 ex_disk2)"
  using ex_loop ex_parts
  by (simp add: chunk_def a_then_def a_bind_def require_def a_return_def lease_def ResourceLock_def ex_file_of del: chunk_loop.simps)

definition ex_event :: outbox_row where
  "ex_event = \<lparr>o_id = 0, o_key = ''file:'' @ ex_id, o_kind = ''file'', o_payload = ''x'', o_attempts = 0, o_next = 0, o_delivered = None\<rparr>"

definition ex_published :: resource_row where
  "ex_published = ex_row\<lparr>t_uploaded := 2, t_status := ''available'', t_completed := Some 0\<rparr>"

lemma ex_sha256: "sha256 (re_crypto ex_env) ex_id 2 ex_disk2 = Returns ex_hash"
  using stored_sha256 [OF env_okD(1) [OF ex_env_ok] ex_stored] by (simp add: numeral_2_eq_2)

lemma ex_complete:
  "complete ex_env ex_call 1 ex_id (ex_world False [ex_row\<lparr>t_uploaded := 2\<rparr>] [] 0 ex_disk2)
   = (Ok (file_json ex_id (ex_row\<lparr>t_uploaded := 2, t_status := ''available''\<rparr>, False)), ex_world True [ex_published] [ex_event] 1 ex_disk2)"
  using ex_sha256
  apply (simp add: complete_def ex_eval file_of_def publish_def update_files_def notify_def insert_event_def Let_def)
  apply (simp add: ex_published_def ex_event_def ex_row_def new_file_def ex_env_def)
  done

lemma ex_numbers [simp]: "number ''0'' = 0" "number ''1'' = 1" "is_digit CHR ''0''" "is_digit CHR ''1''"
  by (simp_all add: number_def digit_value_def is_digit_def)

definition ex_answer :: resource_response where
  "ex_answer = empty_response\<lparr>rs_stream := ex_id, rs_type := ''application/octet-stream'', rs_length := 1, rs_begin := 1, rs_status := 206,
       rs_headers := [(''Content-Range'', ''bytes '' @ to_string 1 @ ''-'' @ to_string 1 @ ''/'' @ to_string 2), (''Accept-Ranges'', ''bytes''),
         (''ETag'', CHR 0x22 # ex_hash @ [CHR 0x22]), (''Cache-Control'', ''private, no-store'')]\<rparr>"

lemma ex_content:
  "access_file ex_env ex_call 2 (ex_request Get_verb t (CHR ''2'') ''bytes=1-'' []) ''files'' ex_id ''content'' (ex_world False [ex_published] [ex_event] 1 ex_disk2)
   = (Ok ex_answer, ex_world False [ex_published] [ex_event] 1 ex_disk2)"
  by (simp add: access_file_def a_then_def a_bind_def require_def a_return_def lease_def ResourceLock_def ex_file_of ex_published_def
      content_def ex_request_def byte_range_def cut_def number_of_def ex_answer_def)

section \<open>The requests\<close>

lemma ex_handle:
  assumes "serve_user ex_env ex_call (ex_request v target token spec body) uid w = r" and "token = CHR ''1'' \<and> uid = 1 \<or> token = CHR ''2'' \<and> uid = 2"
  shows "handle_request ex_env ex_call True 0 (ex_request v target token spec body) w = r"
  using ex_auth [of token v target spec body "length body" w] assms by (auto simp: handle_request_def a_bind_def ex_request_def)

lemmas route_eval = serve_user_def ex_request_def Let_def a_then_def a_bind_def require_def a_return_def route_file_def

lemma ex_cut [simp]: "cut CHR ''/'' (ex_id @ CHR ''/'' # s) = Some (ex_id, s)"
  by (rule cut_append) simp

lemma ex_serve_chunk:
  "serve_user ex_env ex_call (ex_request Put_verb (''uploads/'' @ ex_id @ ''/chunks?offset=0'') (CHR ''1'') [] ''hi'') 1 (ex_world False [ex_row] [] 0 ex_disk)
   = (Ok (result ex_env (file_json ex_id (ex_row\<lparr>t_uploaded := 2\<rparr>, False)) 200), ex_world False [ex_row\<lparr>t_uploaded := 2\<rparr>] [] 0 ex_disk2)"
  using ex_chunk by (simp add: route_eval number_of_def cut_def [of _ "_ # _"])

lemma ex_serve_complete:
  "serve_user ex_env ex_call (ex_request Post_verb (''uploads/'' @ ex_id @ ''/complete'') (CHR ''1'') [] []) 1 (ex_world False [ex_row\<lparr>t_uploaded := 2\<rparr>] [] 0 ex_disk2)
   = (Ok (result ex_env (file_json ex_id (ex_row\<lparr>t_uploaded := 2, t_status := ''available''\<rparr>, False)) 200), ex_world True [ex_published] [ex_event] 1 ex_disk2)"
  using ex_complete by (simp add: route_eval cut_def [of _ "_ # _"])

lemma ex_serve_content:
  "serve_user ex_env ex_call (ex_request Get_verb (''files/'' @ ex_id @ ''/content'') (CHR ''2'') ''bytes=1-'' []) 2 (ex_world False [ex_published] [ex_event] 1 ex_disk2)
   = (Ok ex_answer, ex_world False [ex_published] [ex_event] 1 ex_disk2)"
  using ex_content by (simp add: route_eval cut_def [of _ "_ # _"])

lemma ex_world_sel [simp]:
  "durable (rconn (ex_world b rows events n k)) = ex_tables rows events n" "rdisk (ex_world b rows events n k) = k"
  by (simp_all add: ex_world_def world_of_def fresh_conn_def)

lemma ex_world_start: "world_of () ex_call (ex_tables rows events n) k = ex_world False rows events n k"
  by (simp add: ex_world_def world_of_def)

lemma ex_tables_sel [simp]: "files (ex_tables rows events n) = rows" "avatars (ex_tables rows events n) = []"
  by (simp_all add: ex_tables_def)

lemma ex_unused: "unused ex_env ex_call (ex_tables rows events n)" if "t_id ` set rows \<subseteq> {ex_id}"
  using that by (auto simp: unused_def variant_names_def file_ids_def new_names_def ex_call_def ex_id_def)

lemma ex_step:
  assumes "handle_request ex_env ex_call True 0 req (ex_world False rows events n k) = (Ok a, ex_world b rows' events' n' k')" and "t_id ` set rows \<subseteq> {ex_id}"
  shows "resource_step ex_env (Some ex_id) (0, ex_tables rows events n, k) (0, ex_tables rows' events' n', k')"
  using resource_step.request [of 0 ex_call ex_env "ex_tables rows events n" True 0 req "()" k] assms ex_unused [OF assms(2), of events n]
  by (fastforce simp: ex_world_start)

abbreviation ex_state :: resource_state where
  "ex_state \<equiv> (0, ex_tables [ex_published] [ex_event] 1, ex_disk2)"

lemma ex_path: "resource_path ex_env {} (0, ex_tables [] [] 0, empty_disk) ex_state"
proof -
  have "resource_path ex_env {} (0, ex_tables [] [] 0, empty_disk) (0, ex_tables [ex_row] [] 0, ex_disk)"
    by (rule path_step [OF path_refl ex_step [OF ex_handle [OF ex_create]]]) simp_all
  then have "resource_path ex_env {} (0, ex_tables [] [] 0, empty_disk) (0, ex_tables [ex_row\<lparr>t_uploaded := 2\<rparr>] [] 0, ex_disk2)"
    by (rule path_step [OF _ ex_step [OF ex_handle [OF ex_serve_chunk]]]) simp_all
  then show ?thesis
    by (rule path_step [OF _ ex_step [OF ex_handle [OF ex_serve_complete]]]) simp_all
qed

lemma ex_live: "published ex_published" "\<not> file_dead 0 ex_published" "t_id ex_published = ex_id" "t_total ex_published = 2"
  by (simp_all add: published_def ex_published_def file_dead_def)


definition ex_download :: resource_request where
  "ex_download = ex_request Get_verb (''files/'' @ ex_id @ ''/content'') (CHR ''2'') ''bytes=1-'' []"

theorem resource_download_witness:
  "handle_request ex_env ex_call True 0 ex_download (ex_world False [ex_published] [ex_event] 1 ex_disk2)
     = (Ok ex_answer, ex_world False [ex_published] [ex_event] 1 ex_disk2)
   \<and> (\<exists>bs out ok. next_chunk (reads ex_env ex_id (\<lambda>_. ex_call) (\<lambda>_. ()) (\<lambda>_. ex_state)) (\<lambda>_. True) 0 1 1 = (out, ok)
        \<and> length bs = 2 \<and> prefix out (take 1 (drop 1 bs)))"
proof -
  have h: "handle_request ex_env ex_call True 0 ex_download (ex_world False [ex_published] [ex_event] 1 ex_disk2)
     = (Ok ex_answer, ex_world False [ex_published] [ex_event] 1 ex_disk2)"
    unfolding ex_download_def by (rule ex_handle [OF ex_serve_content]) simp
  have r: "rs_stream ex_answer = ex_id" "ex_id \<noteq> []" "rs_begin ex_answer = 1" "rs_length ex_answer = 1"
    by (simp_all add: ex_answer_def ex_id_def)
  show ?thesis
    using h resource_download [OF ex_env_ok _ _ ex_path _ ex_unused h [folded ex_world_start], of "\<lambda>_. ex_state" "\<lambda>_. ex_call" "\<lambda>_. ()" "\<lambda>_. True"]
      path_refl [of ex_env "{ex_id}" ex_state] ex_live(3,4)
    by (fastforce simp: r ex_world_start split: prod.splits)
qed

end
