(* ===== verification/Spec2Isabelle.thy ===== *)
theory Spec2Isabelle
  imports Mailbox_Spec Friend_Db File_Transfer_Db Encrypted_Store Keyed_Executor Mysql_Pool Redis_Pool
  Send_Queue Frame_Reader Delivery_Scan Recovery
  Gate_Logic Resource_Example
begin

text \<open>
  A verification library for a distributed chat system: a gate that registers users and logs them in over HTTP, a
  status server that assigns a chat server and issues a one-time ticket, chat servers that accept, store and
  deliver messages over TCP, a verification service that mails codes, and a resource server for attachments and
  avatars. They share a MySQL database and a Redis server. Paths below are under \<^verbatim>\<open>src/\<close>.

  \<^bold>\<open>Modelling.\<close> Every definition translates a function, method, critical section, SQL statement or Lua
  script of the source and has its name where possible. State is a \<^theory_text>\<open>record\<close>; integers whose width matters
  are words; a \<open>time\<close> is a count of nanoseconds. Code that throws returns \<open>outcome\<close> (\<open>Sql_Connection\<close>: the
  monad \<open>io\<close>) or \<open>answer\<close> (\<open>Resource_Act\<close>: the monad \<open>act\<close>, whose errors carry an HTTP status). Code that other
  threads or processes interleave with is cut at its critical sections, and an \<^theory_text>\<open>inductive\<close> relation takes
  these in any order. What is not in the repository is an argument, and what is relied on is a named hypothesis:
  \<open>redis_server\<close> (the documented effect of the Redis commands and of the scripts used), \<open>aead_ok\<close> and \<open>sodium_ok\<close>
  (libsodium), \<open>prints_back\<close> (jsoncpp reads what it printed), \<open>rounding_ok\<close> (floating point). A collation of the
  database is the function from a text to its sort key. Every theorem with hypotheses has a witness
  that meets them on concrete values.

  \<^bold>\<open>Failures.\<close> A call on a database connection may fail before or after the server has executed it, decided call
  by call by the list \<open>faults\<close>; a file write may be torn after any number of bytes; a Redis reply may be missing. The rules
  \<open>wp_rules\<close> of \<open>Sql_Connection\<close> and \<open>triples\<close> of \<open>Resource_Act\<close> quantify over all of it.

  \<^bold>\<open>Shared theories.\<close>
  \<^item> \<open>Prelude\<close>: clock, association lists, sums over queues; \<open>Decimal\<close>: numbers as text; \<open>Json_Value\<close>: jsoncpp values.
  \<^item> \<open>Sql_Connection\<close>: connections, transactions, \<^verbatim>\<open>ResetMysqlTransaction\<close>, weakest preconditions.
  \<^item> \<open>Redis_Keys\<close>, \<open>Code_Script\<close>, \<open>Redis_Store\<close>: the key space, the scripts of the verification codes,
    \<^verbatim>\<open>servers/chat/storage/RedisMgr.cpp\<close> and \<^verbatim>\<open>DistLock.cpp\<close>. Shown: the lock is exclusive in
    every interleaving, and acquiring it returns.

  \<^bold>\<open>Infrastructure.\<close>
  \<^item> \<open>Keyed_Executor\<close> (\<^verbatim>\<open>common/KeyedExecutor.h\<close>): order per key, accounting of bytes and tasks, and a stop that drains.
  \<^item> \<open>Connection_Pool\<close>, \<open>Mysql_Pool\<close>, \<open>Redis_Pool\<close> (\<^verbatim>\<open>common/MysqlConnectionPool.h\<close>,
    \<^verbatim>\<open>common/RedisConnectionPool.h\<close>): the locale \<open>connection_pool\<close> states the contract of the critical sections, and
    both pools interpret it. Shown: no connection is lost or lent twice, and a health round restores the pool.
  \<^item> \<open>Token_Bucket\<close>, \<open>Internal_Rpc\<close>, \<open>Wire_Protocol\<close> (\<^verbatim>\<open>common/TokenBucket.h\<close>,
    \<^verbatim>\<open>common/InternalRpcAuth.h\<close>, \<^verbatim>\<open>servers/chat/core/const.h\<close>).

  \<^bold>\<open>Chat server.\<close>
  \<^item> \<open>Send_Queue\<close>, \<open>Frame_Reader\<close> (\<^verbatim>\<open>network/CSession.cpp\<close>): frames are sent in order and within the limits; what a peer
    encodes is dispatched, and nothing passes the limits.
  \<^item> \<open>Session_Table\<close> (\<^verbatim>\<open>CServer.cpp\<close>, \<^verbatim>\<open>UserMgr.cpp\<close>, \<^verbatim>\<open>CSession::Close\<close>): both tables and the threads that work on
    them, each of \<^verbatim>\<open>Close\<close>, \<^verbatim>\<open>ClearSession\<close> and \<^verbatim>\<open>Stop\<close> cut at its critical sections; the invariant in every
    interleaving.
  \<^item> \<open>Chat_Schema\<close>, \<open>Message_Db\<close>, \<open>Friend_Db\<close>, \<open>File_Transfer_Db\<close> (\<^verbatim>\<open>storage/MysqlDao.cpp\<close>): the tables and every method
    on them; messages are stored exactly once, acceptance of a friend is atomic, transfers move forward only.
  \<^item> \<open>Mailbox_Spec\<close>: an abstract mailbox per user, and the refinement of it by the three methods of the message table.
  \<^item> \<open>Text_Message_Service\<close>, \<open>Delivery_Window\<close> (\<^verbatim>\<open>common/\<close>), \<open>Message_Delivery\<close>, \<open>Delivery_Scan\<close>: acceptance, retry window
    and back-off, delivery of what is pending, fairness of the periodic scan.
  \<^item> \<open>Chat_World\<close>, \<open>Chat_Logic\<close> (\<^verbatim>\<open>service/LogicSystem.cpp\<close>, \<^verbatim>\<open>rpc/ResourceClient.h\<close>): one world and every handler on it, with the
    call of the resource servers that may throw. \<open>Request_Authority\<close>: a
    request changes only what its user may change. \<open>Request_Outcome\<close>: an accepted message is durable, and a login needs a
    valid ticket. \<open>Recovery\<close>: the snapshot after a reconnection is complete.

  \<^bold>\<open>Gate, status server and verification service.\<close>
  \<^item> \<open>Url_Codec\<close>, \<open>Password_Rule\<close>, \<open>Gate_Logic\<close> (\<^verbatim>\<open>servers/gate/\<close>): URL coding, UTF-8 password rule, every route. Shown:
    accounts change only with a consumed code or a verified password.
  \<^item> \<open>Credentials\<close> (\<^verbatim>\<open>common/PasswordHasher.cpp\<close>, both \<^verbatim>\<open>MysqlDao.cpp\<close>): registration is atomic, and the upgrade of
    a hash keeps the password and never overwrites a newer one.
  \<^item> \<open>Verification\<close>, \<open>Varify_Service\<close> (\<^verbatim>\<open>VarifyServer/\<close>, \<^verbatim>\<open>servers/gate/storage/RedisMgr.cpp\<close>): the number of guesses per code
    is bounded.
  \<^item> \<open>Status_Service\<close> (\<^verbatim>\<open>servers/status/\<close>): choice of the least loaded healthy server, and the ticket.

  \<^bold>\<open>Resource server\<close> (\<^verbatim>\<open>servers/resource/\<close>, \<^verbatim>\<open>servers/chat/files/EncryptedFileStore.cpp\<close>, \<^verbatim>\<open>common/ResourceLock.h\<close>).
  \<^item> \<open>Encrypted_Store\<close>, \<open>Stored_Content\<close>: the file format and its operations; what is uploaded is read back, a torn write can be
    recovered, an append replaces nothing.
  \<^item> \<open>Resource_Act\<close>, \<open>Avatar_Image\<close>, \<open>Resource_Service\<close>: the monad of a request with its rules, decoding and scaling of images,
    every route, RPC and the maintenance.
  \<^item> \<open>Resource_Invariant\<close>, \<open>Resource_Integrity\<close>, \<open>Resource_Operations\<close>: the invariant that ties the tables to the files, and
    that every operation keeps it. \<open>Resource_Runs\<close>: a published attachment has the announced digest and never changes.
    \<open>Resource_Download\<close>: streaming gives exactly the granted range, to the receiver only. \<open>Resource_Example\<close>: a run on
    concrete values.

  \<^bold>\<open>This theory\<close> composes gate, status server and chat server: a login leads to a ticket for that user and no other.

  \<^bold>\<open>Bounds and fuel.\<close> No definition uses fuel: loops are structural, or have a measure (input left, time until
  a deadline, tasks in a queue). Limits (50 messages per batch, 32 in the window, 1000 frames, 4 MiB, 5 guesses, 16 files) are those
  of the code.

  \<^bold>\<open>Not modelled.\<close> Logging and metrics (output only); reading of configuration, TLS set-up and the main programs (their values
  are arguments); the asio and Beast machinery, whose handlers are taken in any order; the text of mails;
  the HTTP parsing and the mount check of the resource server; that its requests run at the same time (they are taken one after the
  other); gRPC channel pools and the chat server's peer calls, which are arguments that may fail; the attachment
  workers of the chat server, which are never started; copies of storage classes in the status server that are not
  called; the Qt client, which can be any sequence of requests here; tests, benchmarks, scripts.
\<close>

section \<open>Gate, status server and chat server\<close>

text \<open>The status server as the gate reaches it, when the server's own state is \<open>st\<close> and the token it draws is \<open>uuid\<close>.\<close>

definition status_stub ::
    "'s redis_link \<Rightarrow> json_lib \<Rightarrow> string \<Rightarrow> string \<Rightarrow> status_state \<Rightarrow> (string \<times> string) list \<Rightarrow> int \<Rightarrow> 's \<Rightarrow> rpc_status \<times> routing_reply \<times> 's" where
  "status_stub c L gate_token uuid st metadata uid s =
     (case GetChatServer c L gate_token metadata uuid uid st s of (status, reply, _, s') \<Rightarrow> (status, reply, s'))"

lemma ticket_valid_iff:
  assumes "int_range uid" and "prints_back L (ticket_json uid name)" and "lib C = L"
  shows "ticket_valid C u (toStyledString L (ticket_json uid name)) \<longleftrightarrow> u = uid \<and> self_name C = name"
  using assms by (auto simp: ticket_valid_def prints_back_def ticket_json_def field_def)

lemma stub_reply:
  assumes "StatusGrpcClient_GetChatServer E uid rid s = (Returns reply, s')" and "rr_error reply = ERROR_CODE_OK"
    and "g_status_stub E = Some (status_stub c L gate_token uuid st)"
  obtains metadata st' where "GetChatServer c L gate_token metadata uuid uid st s = (RpcOk, reply, st', s')"
  using assms
  by (auto simp: StatusGrpcClient_GetChatServer_def status_stub_def split: option.splits prod.splits if_splits)

text \<open>
  C1: A login through the gate leads to a chat server and to nobody else's account. If the gate answers a login
  without an error, then an account has the address of the request and accepts its password, and the token of
  the answer is the key of a ticket that stays in Redis for 60 seconds and no longer and that the
  login check of a chat server accepts if and only if that server is the chosen one and the login names the user of
  that account.
\<close>

theorem login_grants_ticket:
  assumes "redis_server c now ks" and "status_ok st" and "\<forall>r \<in> set (accounts (db w)). \<forall>name. prints_back L (ticket_json (u_uid r) name)"
    and "sodium_ok (g_sodium E)" and "schemes_ok (g_collation E) (db w)" and "schemes_ok (g_collation E) (r_other q (db w))"
    and "\<forall>r \<in> set (accounts (db w)). int_range (u_uid r)"
    and "g_status_stub E = Some (status_stub c L gate_token uuid st)"
    and "user_login E q body w = (Returns j, w')" and "field ''error'' j = JInt 0"
  shows "\<exists>r name v entry issued. r \<in> set (accounts (db w)) \<and> g_collation E (u_email r) = g_collation E (posted_email E body)
    \<and> accepts (g_sodium E) r (posted E body ''passwd'') \<and> (name, v) \<in> set (servers st) \<and> field ''host'' j = JStr (cs_host v)
    \<and> issued \<le> now (shared w')
    \<and> (\<forall>t. live t (ks (shared w')) (ticket_key (str_val (field ''token'' j))) = (if t < issued + seconds 60 then Some (VStr entry) else None))
    \<and> (\<forall>C u. lib C = L \<longrightarrow> (ticket_valid C u entry \<longleftrightarrow> u = u_uid r \<and> self_name C = name))"
proof (rule user_login_success [OF assms(4-6,9,10)])
  fix r reply
  assume r: "r \<in> set (accounts (db w))" "g_collation E (u_email r) = g_collation E (posted_email E body)"
      "accepts (g_sodium E) r (posted E body ''passwd'')"
    and call: "StatusGrpcClient_GetChatServer E (u_uid r) (r_id q) (shared w) = (Returns reply, shared w')" "rr_error reply = ERROR_CODE_OK"
    and j: "j = login_json (g_resource_url E) (posted_email E body)
      \<lparr>lu_name = u_name r, lu_email = posted_email E body, lu_uid = u_uid r\<rparr> reply"
  obtain metadata st' where g: "GetChatServer c L gate_token metadata uuid (u_uid r) st (shared w) = (RpcOk, reply, st', shared w')"
    by (rule stub_reply [OF call assms(8)])
  obtain name v t where v: "(name, v) \<in> set (servers st)" "rr_host reply = cs_host v" "t \<le> now (shared w')"
    "ks (shared w') (ticket_key uuid) = Some (VStr (toStyledString L (ticket_json (u_uid r) name)), Some (t + seconds 60))"
    "rr_token reply = uuid"
    using GetChatServer_result [OF assms(1,2) g call(2)] by (auto simp: ticket_key_def)
  have "\<forall>C u. lib C = L \<longrightarrow> (ticket_valid C u (toStyledString L (ticket_json (u_uid r) name)) \<longleftrightarrow> u = u_uid r \<and> self_name C = name)"
    using ticket_valid_iff assms(3,7) r(1) by blast
  then show ?thesis
    using r v by (intro exI [of _ r] exI [of _ name] exI [of _ v] exI [of _ "toStyledString L (ticket_json (u_uid r) name)"] exI [of _ t])
      (auto simp: live_def j login_json_def error_json_def)
qed

text \<open>One chat server that reports its health and one account, for the example.\<close>

definition ticket_lib :: json_lib where
  "ticket_lib = \<lparr>parse_json = (\<lambda>s. Some (ticket_json 1001 s)),
     toStyledString = (\<lambda>v. case v of JObj [_, (_, JStr n)] \<Rightarrow> n | _ \<Rightarrow> []), real_text = (\<lambda>_. [])\<rparr>"

definition one_server :: status_state where
  "one_server = \<lparr>servers = [(''chat1'', \<lparr>cs_host = ''h'', cs_port = ''1'', cs_name = ''chat1'', cs_transport = ''tls'', cs_tls_name = ''h'',
     cs_con_count = 0\<rparr>)], cursor = 0\<rparr>"

definition healthy_redis :: "time \<times> keyspace" where
  "healthy_redis = (0, [''chat_health_chat1'' \<mapsto> (VStr ''0'', None)])"

definition login_body :: json where
  "login_body = JObj [(''email'', JStr ''A@b.c''), (''passwd'', JStr ''01'')]"

definition login_gate :: "(time \<times> keyspace) gate_env" where
  "login_gate = example_gate\<lparr>g_lib := \<lparr>parse_json = (\<lambda>_. Some login_body), toStyledString = (\<lambda>_. []), real_text = (\<lambda>_. [])\<rparr>,
     g_status_stub := Some (status_stub local_redis ticket_lib ''s'' ''t'' one_server)\<rparr>"

definition login_world :: "(time \<times> keyspace) gate" where
  "login_world = \<lparr>shared = healthy_redis, db = example_accounts\<rparr>"

lemma login_env:
  "parse_json (g_lib login_gate) body = Some login_body" "g_sodium login_gate = example_sodium" "g_collation login_gate = (\<lambda>s. s)"
  "g_status_stub login_gate = Some (status_stub local_redis ticket_lib ''s'' ''t'' one_server)" "g_status_token login_gate = ''s''"
  "shared login_world = healthy_redis" "db login_world = example_accounts" "r_other example_request = (\<lambda>d. d)"
  "r_salt example_request = []" "r_sql example_request = calm" "r_id example_request = ''1''"
  by (simp_all add: login_gate_def example_gate_def login_world_def example_request_def)

lemma login_fields:
  "hasStringFields login_body [''email'', ''passwd'']" "gate_normalizeEmail (str_val (field ''email'' login_body)) = ''a@b.c''"
  "str_val (field ''passwd'' login_body) = ''01''"
  by code_simp+

lemma login_routed:
  "\<exists>reply s. StatusGrpcClient_GetChatServer login_gate 1001 ''1'' healthy_redis = (Returns reply, s) \<and> rr_error reply = ERROR_CODE_OK"
proof -
  let ?m = "[(kMetadataKey, ''s''), (kRequestIdMetadataKey, ''1'')]"
  have "fst (status_stub local_redis ticket_lib ''s'' ''t'' one_server ?m 1001 healthy_redis) = RpcOk"
    "rr_error (fst (snd (status_stub local_redis ticket_lib ''s'' ''t'' one_server ?m 1001 healthy_redis))) = ERROR_CODE_OK"
    by code_simp+
  then show ?thesis
    by (auto simp: StatusGrpcClient_GetChatServer_def login_env authenticate_def propagate_request_id_def split: prod.split)
qed

lemma login_answered: "\<exists>j w'. user_login login_gate example_request [] login_world = (Returns j, w') \<and> field ''error'' j = JInt 0"
proof -
  obtain reply s where "StatusGrpcClient_GetChatServer login_gate 1001 ''1'' healthy_redis = (Returns reply, s)" "rr_error reply = ERROR_CODE_OK"
    using login_routed by blast
  then show ?thesis
    by (simp add: user_login_def login_env login_fields example_check Let_def login_json_def error_json_def)
qed

theorem login_grants_ticket_witness:
  "\<exists>j w' entry issued. user_login login_gate example_request [] login_world = (Returns j, w') \<and> field ''error'' j = JInt 0
     \<and> (\<forall>t. live t (snd (shared w')) (ticket_key (str_val (field ''token'' j))) = (if t < issued + seconds 60 then Some (VStr entry) else None))"
proof -
  obtain j w' where a: "user_login login_gate example_request [] login_world = (Returns j, w')" "field ''error'' j = JInt 0"
    using login_answered by blast
  have s: "status_ok one_server" "schemes_ok (\<lambda>s. s) example_accounts" "\<forall>r \<in> set (accounts example_accounts). int_range (u_uid r)"
      "\<forall>r \<in> set (accounts example_accounts). \<forall>name. prints_back ticket_lib (ticket_json (u_uid r) name)"
    by (simp_all add: one_server_def status_ok_def server_ok_def schemes_ok_def example_accounts_def new_account_def int_range_def
        prints_back_def ticket_lib_def ticket_json_def)
  from login_grants_ticket [where E = login_gate and w = login_world and q = example_request and body = "[]", unfolded login_env,
      OF local_redis_server s(1) s(4) example_sodium_ok s(2) s(2) s(3) refl a]
  show ?thesis
    using a by blast
qed

end
